(* ===== verification/Prelude.thy ===== *)
theory Prelude
  imports Main "HOL-Library.Word"
begin

text \<open>
  The part of the C and C++ standard libraries that the components of libdcl use, and the generic
  lemmas they share.  A \<open>std::string\<close> is a \<^typ>\<open>string\<close> (a list of bytes), \<open>string::npos\<close> is
  \<^const>\<open>None\<close>, and a position is a \<^typ>\<open>nat\<close>.  The classification functions are those of the
  classic locale.  Integer conversions keep the widths of the LP64 ABI: \<open>long\<close> has 64 bits and
  saturates in \<open>strtol\<close>, \<open>int\<close> has 32 bits and a narrowing conversion wraps.
\<close>

named_theorems find_spec \<open>characterisations of the std::string search functions\<close>
named_theorems fits \<open>range facts about machine integers\<close>

subsection \<open>Character classes\<close>

definition is_space :: "char \<Rightarrow> bool" where
  "is_space c = (c = CHR '' '' \<or> (9 \<le> (of_char c :: nat) \<and> (of_char c :: nat) \<le> 13))"

definition is_digit :: "char \<Rightarrow> bool" where
  "is_digit c = (48 \<le> (of_char c :: nat) \<and> (of_char c :: nat) \<le> 57)"

definition is_upper :: "char \<Rightarrow> bool" where
  "is_upper c = (65 \<le> (of_char c :: nat) \<and> (of_char c :: nat) \<le> 90)"

definition is_lower :: "char \<Rightarrow> bool" where
  "is_lower c = (97 \<le> (of_char c :: nat) \<and> (of_char c :: nat) \<le> 122)"

definition is_alnum :: "char \<Rightarrow> bool" where
  "is_alnum c = (is_digit c \<or> is_upper c \<or> is_lower c)"

definition is_xdigit :: "char \<Rightarrow> bool" where
  "is_xdigit c = (is_digit c \<or> (65 \<le> (of_char c :: nat) \<and> (of_char c :: nat) \<le> 70) \<or>
     (97 \<le> (of_char c :: nat) \<and> (of_char c :: nat) \<le> 102))"

definition to_upper :: "char \<Rightarrow> char" where
  "to_upper c = (if is_lower c then char_of (of_char c - 32 :: nat) else c)"

definition to_lower :: "char \<Rightarrow> char" where
  "to_lower c = (if is_upper c then char_of (of_char c + 32 :: nat) else c)"

lemma of_char_less_256 [simp]: "(of_char c :: nat) < 256"
  by (metis char_of_take_bit_eq nat_of_char_less_256)

text \<open>A statement about every byte is a finite conjunction, decided by evaluation.\<close>

lemma all_chars_iff: "(\<forall>c::char. P c) \<longleftrightarrow> list_all (\<lambda>n. P (char_of n)) [0..<256::nat]"
proof
  assume "list_all (\<lambda>n. P (char_of n)) [0..<256::nat]"
  then have "P (char_of (of_char c :: nat))" for c
    unfolding list_all_iff by (rule bspec) simp
  then show "\<forall>c. P c" by simp
qed (simp add: list_all_iff)

subsection \<open>Searching a list\<close>

lemma find_append:
  "List.find P (xs @ ys) = (case List.find P xs of None \<Rightarrow> List.find P ys | Some x \<Rightarrow> Some x)"
  by (induction xs) auto

lemma find_concat_hit:
  assumes "k < length xss" "list_all (list_all (\<lambda>x. \<not> P x)) (take k xss)" "List.find P (xss ! k) = Some x"
  shows "List.find P (concat xss) = Some x"
proof -
  have "concat xss = concat (take k xss) @ xss ! k @ concat (drop (Suc k) xss)"
    using id_take_nth_drop [OF assms(1)] by (metis concat.simps(2) concat_append)
  moreover have "List.find P (concat (take k xss)) = None"
    using assms(2) by (auto simp: find_None_iff list_all_iff)
  ultimately show ?thesis using assms(3) by (simp add: find_append)
qed

subsection \<open>Searching a std::string\<close>

text \<open>\<open>find_from p s i\<close>: the least position at or after \<open>i\<close> whose character satisfies \<open>p\<close>.\<close>

fun find_idx :: "(char \<Rightarrow> bool) \<Rightarrow> string \<Rightarrow> nat option" where
  "find_idx p [] = None"
| "find_idx p (c # s) = (if p c then Some 0 else map_option Suc (find_idx p s))"

definition find_from :: "(char \<Rightarrow> bool) \<Rightarrow> string \<Rightarrow> nat \<Rightarrow> nat option" where
  "find_from p s i = map_option (\<lambda>k. i + k) (find_idx p (drop i s))"

definition find_first_of :: "char list \<Rightarrow> string \<Rightarrow> nat \<Rightarrow> nat option" where
  "find_first_of ds s i = find_from (\<lambda>c. c \<in> set ds) s i"

definition find_first_not_of :: "char list \<Rightarrow> string \<Rightarrow> nat \<Rightarrow> nat option" where
  "find_first_not_of ds s i = find_from (\<lambda>c. c \<notin> set ds) s i"

text \<open>The greatest position whose character satisfies \<open>p\<close>.\<close>

definition find_last :: "(char \<Rightarrow> bool) \<Rightarrow> string \<Rightarrow> nat option" where
  "find_last p s = map_option (\<lambda>k. length s - 1 - k) (find_idx p (rev s))"

definition find_last_of :: "char list \<Rightarrow> string \<Rightarrow> nat option" where
  "find_last_of ds s = find_last (\<lambda>c. c \<in> set ds) s"

definition find_last_not_of :: "char list \<Rightarrow> string \<Rightarrow> nat option" where
  "find_last_not_of ds s = find_last (\<lambda>c. c \<notin> set ds) s"

definition find_char :: "char \<Rightarrow> string \<Rightarrow> nat option" where
  "find_char c s = find_from (\<lambda>x. x = c) s 0"

definition substr :: "string \<Rightarrow> nat \<Rightarrow> nat \<Rightarrow> string" where
  "substr s pos n = take n (drop pos s)"

lemma find_idx_None [find_spec]: "find_idx p s = None \<longleftrightarrow> (\<forall>c \<in> set s. \<not> p c)"
  by (induction s) auto

lemma find_idx_SomeD:
  "find_idx p s = Some k \<Longrightarrow> k < length s \<and> p (s ! k) \<and> (\<forall>c \<in> set (take k s). \<not> p c)"
proof (induction s arbitrary: k)
  case (Cons a s)
  then show ?case by (cases "p a") (auto split: option.splits)
qed simp

lemma find_idx_takeWhile:
  "find_idx p s = Some k \<Longrightarrow>
     take k s = takeWhile (\<lambda>c. \<not> p c) s \<and> drop k s = dropWhile (\<lambda>c. \<not> p c) s"
proof (induction s arbitrary: k)
  case (Cons a s)
  then show ?case by (cases "p a") (auto split: option.splits)
qed simp

lemma find_idx_append_hit:
  "\<forall>c \<in> set s. \<not> p c \<Longrightarrow> p x \<Longrightarrow> find_idx p (s @ x # t) = Some (length s)"
  by (induction s) auto

lemma find_from_0 [simp]: "find_from p s 0 = find_idx p s"
  by (simp add: find_from_def option.map_ident)

lemma find_from_SomeD:
  "find_from p s i = Some k \<Longrightarrow> i \<le> k \<and> k < length s \<and> p (s ! k)"
  by (auto simp: find_from_def dest!: find_idx_SomeD)

lemma find_char_None [find_spec]: "find_char c s = None \<longleftrightarrow> c \<notin> set s"
  by (auto simp: find_char_def find_idx_None)

lemma find_char_append_hit [find_spec]:
  "c \<notin> set s \<Longrightarrow> find_char c (s @ c # t) = Some (length s)"
  unfolding find_char_def find_from_0 by (rule find_idx_append_hit) auto

lemma find_char_SomeD:
  "find_char c s = Some k \<Longrightarrow> k < length s \<and> s ! k = c \<and> c \<notin> set (take k s)"
  unfolding find_char_def by (auto dest: find_idx_SomeD)

lemma find_last_None [find_spec]: "find_last p s = None \<longleftrightarrow> (\<forall>c \<in> set s. \<not> p c)"
  by (simp add: find_last_def find_idx_None)

lemma find_last_SomeD:
  assumes "find_last p s = Some k"
  shows "k < length s \<and> p (s ! k) \<and> (\<forall>c \<in> set (drop (Suc k) s). \<not> p c)"
proof -
  obtain j where j: "find_idx p (rev s) = Some j" and k: "k = length s - 1 - j"
    using assms by (auto simp: find_last_def)
  from find_idx_SomeD [OF j] have "j < length s" "p (rev s ! j)"
    and "\<forall>c \<in> set (take j (rev s)). \<not> p c" by auto
  then show ?thesis
    by (auto simp: k rev_nth take_rev Suc_diff_Suc)
qed

text \<open>\<open>s.c_str ()\<close> as the C functions see it: up to the first NUL.\<close>

definition c_str :: "string \<Rightarrow> string" where
  "c_str s = takeWhile (\<lambda>c. c \<noteq> CHR 0x00) s"

lemma c_str_id: "CHR 0x00 \<notin> set s \<Longrightarrow> c_str s = s"
  unfolding c_str_def takeWhile_eq_all_conv by metis

subsection \<open>Numbers in strings\<close>

definition digit_char :: "nat \<Rightarrow> char" where
  "digit_char d = char_of (48 + d)"

definition hex_char :: "nat \<Rightarrow> char" where
  "hex_char d = (if d < 10 then char_of (48 + d) else char_of (87 + d))"

definition hex_char_upper :: "nat \<Rightarrow> char" where
  "hex_char_upper d = (if d < 10 then char_of (48 + d) else char_of (55 + d))"

text \<open>The value of a digit in any base up to 36; 36 for a character that is no digit.\<close>

definition digit_val :: "char \<Rightarrow> nat" where
  "digit_val c =
     (if is_digit c then of_char c - 48
      else if is_upper c then of_char c - 55
      else if is_lower c then of_char c - 87 else 36)"

fun scan_digits :: "nat \<Rightarrow> nat \<Rightarrow> string \<Rightarrow> nat" where
  "scan_digits b acc [] = acc"
| "scan_digits b acc (c # s) =
     (if digit_val c < b then scan_digits b (acc * b + digit_val c) s else acc)"

definition LONG_MAX :: int where "LONG_MAX = 2 ^ 63 - 1"
definition LONG_MIN :: int where "LONG_MIN = - (2 ^ 63)"
definition INT_MAX :: int where "INT_MAX = 2 ^ 31 - 1"
definition INT_MIN :: int where "INT_MIN = - (2 ^ 31)"

text \<open>\<open>strtol (s, NULL, base)\<close>: white space, a sign, the prefix of the base, digits; saturating.\<close>

definition strtol_sign :: "string \<Rightarrow> bool \<times> string" where
  "strtol_sign s = (case s of
     [] \<Rightarrow> (False, [])
   | c # r \<Rightarrow> if c = CHR ''-'' then (True, r) else if c = CHR ''+'' then (False, r) else (False, s))"

definition hex_prefix :: "string \<Rightarrow> bool" where
  "hex_prefix s = (case s of a # b # _ \<Rightarrow> a = CHR ''0'' \<and> (b = CHR ''x'' \<or> b = CHR ''X'') | _ \<Rightarrow> False)"

definition strtol_base :: "nat \<Rightarrow> string \<Rightarrow> nat \<times> string" where
  "strtol_base b s =
     (if (b = 0 \<or> b = 16) \<and> hex_prefix s then (16, drop 2 s)
      else if b = 0 then (if take 1 s = ''0'' then (8, s) else (10, s))
      else (b, s))"

definition strtol :: "nat \<Rightarrow> string \<Rightarrow> int" where
  "strtol base s =
     (let (neg, s1) = strtol_sign (dropWhile is_space s);
          (b, s2) = strtol_base base s1;
          v = int (scan_digits b 0 s2);
          r = (if neg then - v else v)
      in max LONG_MIN (min LONG_MAX r))"

text \<open>Conversion of a \<open>long\<close> to an \<open>int\<close> keeps the low 32 bits.\<close>

definition to_int32 :: "int \<Rightarrow> int" where
  "to_int32 x = (x + 2 ^ 31) mod 2 ^ 32 - 2 ^ 31"

definition is_int32 :: "int \<Rightarrow> bool" where
  "is_int32 x = (INT_MIN \<le> x \<and> x \<le> INT_MAX)"

lemma to_int32_id [fits]: "is_int32 x \<Longrightarrow> to_int32 x = x"
  by (simp add: is_int32_def to_int32_def INT_MIN_def INT_MAX_def)

lemma is_int32_to_int32 [fits, simp]: "is_int32 (to_int32 x)"
proof -
  have "0 \<le> (x + 2 ^ 31) mod 2 ^ 32" "(x + 2 ^ 31) mod 2 ^ 32 < 2 ^ 32" by simp_all
  then show ?thesis by (simp add: is_int32_def to_int32_def INT_MIN_def INT_MAX_def)
qed

text \<open>\<open>snprintf ("%d")\<close>.\<close>

fun dec_digits :: "nat \<Rightarrow> string" where
  "dec_digits n = (if n < 10 then [digit_char n] else dec_digits (n div 10) @ [digit_char (n mod 10)])"

declare dec_digits.simps [simp del]

definition print_int :: "int \<Rightarrow> string" where
  "print_int x = (if x < 0 then CHR ''-'' # dec_digits (nat (- x)) else dec_digits (nat x))"

lemma less_10_cases: "(d::nat) < 10 \<Longrightarrow> d \<in> {0,1,2,3,4,5,6,7,8,9}"
  by auto

lemma digit_val_digit_char [simp]: "d < 10 \<Longrightarrow> digit_val (digit_char d) = d"
  by (simp add: digit_val_def digit_char_def is_digit_def)

lemma digit_char_not_space [simp]: "d < 10 \<Longrightarrow> \<not> is_space (digit_char d)"
  by (drule less_10_cases) (auto simp: is_space_def digit_char_def char_of_eq_iff)

lemma digit_char_not_sign [simp]:
  "d < 10 \<Longrightarrow> digit_char d \<noteq> CHR ''-''" "d < 10 \<Longrightarrow> digit_char d \<noteq> CHR ''+''"
  "d < 10 \<Longrightarrow> digit_char d \<noteq> CHR ''x''" "d < 10 \<Longrightarrow> digit_char d \<noteq> CHR ''X''"
  by (drule less_10_cases, auto simp: digit_char_def char_of_eq_iff)+

lemma is_digit_digit_char [simp]: "d < 10 \<Longrightarrow> is_digit (digit_char d)"
  by (simp add: is_digit_def digit_char_def)

lemma dec_digits_all_digits: "c \<in> set (dec_digits n) \<Longrightarrow> \<exists>d < 10. c = digit_char d"
proof (induction n rule: dec_digits.induct)
  case (1 n)
  show ?case
  proof (cases "n < 10")
    case True
    with "1.prems" show ?thesis by (auto simp: dec_digits.simps [of n])
  next
    case False
    have "\<exists>d < 10. digit_char (n mod 10) = digit_char d" by (rule exI [of _ "n mod 10"]) simp
    with False "1" show ?thesis by (auto simp: dec_digits.simps [of n])
  qed
qed

lemma dec_digits_nonempty [simp]: "dec_digits n \<noteq> []"
  by (subst dec_digits.simps) simp

text \<open>No leading zero, except for zero itself: this is what keeps base detection decimal.\<close>

lemma dec_digits_hd: "0 < n \<Longrightarrow> \<exists>d. 0 < d \<and> d < 10 \<and> hd (dec_digits n) = digit_char d"
proof (induction n rule: dec_digits.induct)
  case (1 n)
  show ?case
  proof (cases "n < 10")
    case True
    with "1.prems" show ?thesis by (auto simp: dec_digits.simps [of n])
  next
    case False
    with "1.IH" have "\<exists>d. 0 < d \<and> d < 10 \<and> hd (dec_digits (n div 10)) = digit_char d" by simp
    with False show ?thesis by (subst dec_digits.simps) simp
  qed
qed

lemma scan_digits_append:
  "\<forall>c \<in> set s. digit_val c < b \<Longrightarrow> scan_digits b acc (s @ t) = scan_digits b (scan_digits b acc s) t"
  by (induction s arbitrary: acc) auto

lemma scan_digits_dec: "scan_digits 10 0 (dec_digits n) = n"
proof (induction n rule: dec_digits.induct)
  case (1 n)
  show ?case
  proof (cases "n < 10")
    case True
    then show ?thesis by (simp add: dec_digits.simps [of n])
  next
    case False
    have "\<forall>c \<in> set (dec_digits (n div 10)). digit_val c < 10"
      using dec_digits_all_digits by fastforce
    with False "1.IH" show ?thesis
      by (simp add: dec_digits.simps [of n] scan_digits_append)
  qed
qed

lemma strtol_base_dec: "0 < n \<Longrightarrow> strtol_base 0 (dec_digits n) = (10, dec_digits n)"
proof -
  assume "0 < n"
  then obtain d where d: "0 < d" "d < 10" "hd (dec_digits n) = digit_char d"
    using dec_digits_hd by blast
  then obtain r where r: "dec_digits n = digit_char d # r"
    by (cases "dec_digits n") auto
  have "digit_char d \<noteq> CHR ''0''"
    using d(1) less_10_cases [OF d(2)] by (auto simp: digit_char_def char_of_eq_iff)
  then show ?thesis
    by (auto simp: r strtol_base_def hex_prefix_def split: list.splits)
qed

lemma scan_base_dec:
  "(case strtol_base 0 (dec_digits n) of (b, s) \<Rightarrow> scan_digits b 0 s) = n"
proof (cases "n = 0")
  case True
  then show ?thesis
    by (simp add: dec_digits.simps [of 0] strtol_base_def hex_prefix_def digit_char_def
        digit_val_def is_digit_def)
next
  case False
  then show ?thesis by (simp add: strtol_base_dec scan_digits_dec)
qed

lemma dropWhile_hd: "s \<noteq> [] \<Longrightarrow> \<not> p (hd s) \<Longrightarrow> dropWhile p s = s"
  by (cases s) auto

lemma hd_dec_digits: "\<exists>d < 10. hd (dec_digits n) = digit_char d"
  using dec_digits_all_digits [of "hd (dec_digits n)" n] by simp

lemma strtol_sign_dec: "strtol_sign (dropWhile is_space (dec_digits n)) = (False, dec_digits n)"
proof -
  obtain d where d: "d < 10" "hd (dec_digits n) = digit_char d" using hd_dec_digits by blast
  then have "dropWhile is_space (dec_digits n) = dec_digits n" by (simp add: dropWhile_hd)
  moreover obtain r where "dec_digits n = digit_char d # r"
    using d(2) by (cases "dec_digits n") auto
  ultimately show ?thesis using d(1) by (simp add: strtol_sign_def)
qed

lemma strtol_print_nat: "int n \<le> LONG_MAX \<Longrightarrow> strtol 0 (dec_digits n) = int n"
  using scan_base_dec [of n]
  by (auto simp: strtol_def strtol_sign_dec LONG_MAX_def LONG_MIN_def split: prod.splits)

lemma strtol_print_int:
  assumes "LONG_MIN \<le> x" "x \<le> LONG_MAX"
  shows "strtol 0 (print_int x) = x"
proof (cases "x < 0")
  case False
  then show ?thesis using assms strtol_print_nat [of "nat x"] by (simp add: print_int_def)
next
  case True
  have "strtol_sign (dropWhile is_space (CHR ''-'' # s)) = (True, s)" for s
    by (simp add: is_space_def strtol_sign_def)
  with True assms scan_base_dec [of "nat (- x)"] show ?thesis
    by (auto simp: strtol_def print_int_def LONG_MAX_def LONG_MIN_def split: prod.splits)
qed

subsection \<open>Hexadecimal digits\<close>

lemma xdigit_val: "is_xdigit c \<Longrightarrow> digit_val c < 16"
  by (auto simp: is_xdigit_def digit_val_def is_digit_def is_upper_def is_lower_def)

lemma xdigit_plain:
  "is_xdigit c \<Longrightarrow> \<not> is_space c \<and> c \<noteq> CHR ''-'' \<and> c \<noteq> CHR ''+'' \<and> c \<noteq> CHR ''x'' \<and> c \<noteq> CHR ''X''"
  by (auto simp: is_xdigit_def is_space_def is_digit_def)

lemma strtol_16_pair:
  assumes "is_xdigit a" "is_xdigit b"
  shows "strtol 16 [a, b] = int (digit_val a * 16 + digit_val b)"
proof -
  have "digit_val a * 16 + digit_val b \<le> 255"
    using xdigit_val [OF assms(1)] xdigit_val [OF assms(2)] by linarith
  then show ?thesis
    using assms xdigit_plain [OF assms(1)] xdigit_plain [OF assms(2)]
    by (simp add: strtol_def strtol_sign_def strtol_base_def hex_prefix_def xdigit_val
        LONG_MAX_def LONG_MIN_def)
qed

lemma strtol_16_single:
  "is_xdigit a \<Longrightarrow> strtol 16 [a] = int (digit_val a)"
  using xdigit_plain [of a] xdigit_val [of a]
  by (simp add: strtol_def strtol_sign_def strtol_base_def hex_prefix_def LONG_MAX_def LONG_MIN_def)

lemma hex_char_props:
  "d < 16 \<Longrightarrow> is_xdigit (hex_char d) \<and> digit_val (hex_char d) = d"
  by (auto simp: hex_char_def is_xdigit_def digit_val_def is_digit_def is_upper_def is_lower_def)

lemma hex_char_upper_props:
  "d < 16 \<Longrightarrow> is_xdigit (hex_char_upper d) \<and> digit_val (hex_char_upper d) = d"
  by (auto simp: hex_char_upper_def is_xdigit_def digit_val_def is_digit_def is_upper_def is_lower_def)

lemma is_int32_long: "is_int32 x \<Longrightarrow> LONG_MIN \<le> x \<and> x \<le> LONG_MAX"
  by (simp add: is_int32_def LONG_MIN_def LONG_MAX_def INT_MIN_def INT_MAX_def)

subsection \<open>Fields separated by a delimiter: the reference definition of splitting\<close>

fun split_by :: "(char \<Rightarrow> bool) \<Rightarrow> string \<Rightarrow> string list" where
  "split_by p [] = [[]]"
| "split_by p (c # s) =
     (if p c then [] # split_by p s
      else (case split_by p s of [] \<Rightarrow> [[c]] | w # ws \<Rightarrow> (c # w) # ws))"

lemma split_by_nonempty [simp]: "split_by p s \<noteq> []"
  by (induction s) (auto split: list.splits)

lemma split_by_none: "\<forall>c \<in> set s. \<not> p c \<Longrightarrow> split_by p s = [s]"
  by (induction s) auto

lemma split_by_append:
  "\<forall>c \<in> set s. \<not> p c \<Longrightarrow> p d \<Longrightarrow> split_by p (s @ d # t) = s # split_by p t"
  by (induction s) auto

lemma split_by_no_delim: "w \<in> set (split_by p s) \<Longrightarrow> \<forall>c \<in> set w. \<not> p c"
proof (induction s arbitrary: w)
  case (Cons a s)
  obtain v vs where v: "split_by p s = v # vs" by (cases "split_by p s") auto
  have "\<forall>u \<in> set (v # vs). \<forall>c \<in> set u. \<not> p c" using Cons.IH v by metis
  with Cons.prems v show ?case by (auto split: if_splits)
qed simp

fun join_with :: "string \<Rightarrow> string list \<Rightarrow> string" where
  "join_with d [] = []"
| "join_with d [w] = w"
| "join_with d (w # v # ws) = w @ d @ join_with d (v # ws)"

lemma split_by_join:
  "ws \<noteq> [] \<Longrightarrow> \<forall>w \<in> set ws. \<forall>c \<in> set w. \<not> p c \<Longrightarrow> p d \<Longrightarrow> split_by p (join_with [d] ws) = ws"
proof (induction "[d]" ws rule: join_with.induct)
  case (3 w v ws)
  then show ?case by (simp add: split_by_append)
qed (auto simp: split_by_none)

end
