(* ===== verification/Strutils.thy ===== *)
theory Strutils
  imports Prelude
begin

text \<open>
  \<open>src/dcl/strutils.cpp\<close>: trimming, case-insensitive comparison, splitting, parameter substitution
  and the conversions between strings and integers.  Each routine is translated as the code has it,
  with positions and searches, and then shown equal to a reference definition on lists.
\<close>

subsection \<open>The functors\<close>

definition default_delims :: "char list" where
  "default_delims = [CHR '' '', CHR 0x09, CHR 0x0D, CHR 0x0A]"

definition trim_with :: "char list \<Rightarrow> string \<Rightarrow> string" where
  "trim_with delims source =
     (let result = (case find_last_not_of delims source of
                      Some index \<Rightarrow> take (index + 1) source
                    | None \<Rightarrow> source)
      in case find_first_not_of delims result 0 of
           Some index \<Rightarrow> drop index result
         | None \<Rightarrow> [])"

definition trim :: "string \<Rightarrow> string" where
  "trim source = trim_with default_delims source"

definition char_compare :: "char \<Rightarrow> char \<Rightarrow> bool" where
  "char_compare x y = (to_upper x = to_upper y)"

definition compare :: "string \<Rightarrow> string \<Rightarrow> bool" where
  "compare x y = (if length x \<noteq> length y then False else list_all2 char_compare x y)"

text \<open>The loop of \<open>tokenize\<close>: \<open>old_pos\<close> is where the current token starts.\<close>

function tokenize_loop :: "char list \<Rightarrow> string \<Rightarrow> nat \<Rightarrow> string list \<Rightarrow> string list" where
  "tokenize_loop delims source old_pos rslt =
     (case find_first_of delims source old_pos of
        Some pos \<Rightarrow>
          tokenize_loop delims source (pos + 1)
            (rslt @ [trim (substr source old_pos (pos - old_pos))])
      | None \<Rightarrow> rslt @ [trim (substr source old_pos (length source))])"
  by pat_completeness auto
termination
  by (relation "measure (\<lambda>(d, s, i, r). length s - i)")
     (auto simp: find_first_of_def dest!: find_from_SomeD)

declare tokenize_loop.simps [simp del]

definition tokenize :: "char list \<Rightarrow> string \<Rightarrow> string list" where
  "tokenize delims source = (if source = [] then [] else tokenize_loop delims source 0 [])"

text \<open>
  The pair form writes its two output arguments; \<open>left\<close> and \<open>right\<close> are their values before the call,
  which an empty source, or a missing delimiter in the non-greedy form, leaves in place.
\<close>

definition tokenize_pair ::
  "char list \<Rightarrow> bool \<Rightarrow> string \<Rightarrow> string \<times> string \<Rightarrow> string \<times> string" where
  "tokenize_pair delims greedy source out =
     (if source = [] then out
      else if greedy then
        (case find_last_of delims source of
           None \<Rightarrow> ([], source)
         | Some pos \<Rightarrow> (substr source 0 pos, substr source (pos + 1) (length source - pos - 1)))
      else
        (case find_first_of delims source 0 of
           None \<Rightarrow> (source, snd out)
         | Some pos \<Rightarrow> (substr source 0 pos, substr source (pos + 1) (length source - pos - 1))))"

subsection \<open>Conversions\<close>

definition to_string_int :: "int \<Rightarrow> string" where
  "to_string_int value = print_int value"

definition from_string_int :: "string \<Rightarrow> int" where
  "from_string_int value = to_int32 (strtol 0 value)"

text \<open>The general template at \<open>size_t\<close>: the extractor skips white space, takes a sign and decimal digits, and
  fails, so that the function throws, without a digit or out of range; a minus sign wraps.\<close>

definition from_string_size :: "string \<Rightarrow> 64 word option" where
  "from_string_size value =
     (let (neg, r) = strtol_sign (dropWhile is_space value);
          ds = takeWhile is_digit r;
          n = scan_digits 10 0 ds
      in if ds = [] \<or> 2 ^ 64 \<le> n then None else Some (if neg then - of_nat n else of_nat n))"

subsection \<open>Parameter substitution\<close>

text \<open>
  \<open>format::str\<close> indexes the parameter vector with whatever number precedes a closing bracket; an index
  outside the vector is undefined behaviour, here the value \<^const>\<open>None\<close>.
\<close>

record fmt =
  fmt_text :: string
  fmt_params :: "string list"

definition fmt_new :: "string \<Rightarrow> fmt" where
  "fmt_new source = \<lparr>fmt_text = source, fmt_params = []\<rparr>"

definition fmt_arg :: "fmt \<Rightarrow> string \<Rightarrow> fmt" where
  "fmt_arg f x = f\<lparr>fmt_params := fmt_params f @ [x]\<rparr>"

definition vector_at :: "'a list \<Rightarrow> int \<Rightarrow> 'a option" where
  "vector_at xs i = (if 0 \<le> i \<and> i < int (length xs) then Some (xs ! nat i) else None)"

function fmt_loop :: "string \<Rightarrow> string list \<Rightarrow> nat \<Rightarrow> string \<Rightarrow> string option" where
  "fmt_loop s ps old_pos rslt =
     (case find_first_of [CHR ''{'', CHR ''}''] s old_pos of
        None \<Rightarrow> Some (rslt @ substr s old_pos (length s))
      | Some pos \<Rightarrow>
          (if s ! pos = CHR ''{'' then
             fmt_loop s ps (pos + 1) (rslt @ substr s old_pos (pos - old_pos))
           else
             (case vector_at ps (from_string_int (substr s old_pos (pos - old_pos))) of
                None \<Rightarrow> None
              | Some v \<Rightarrow> fmt_loop s ps (pos + 1) (rslt @ v))))"
  by pat_completeness auto
termination
  by (relation "measure (\<lambda>(s, ps, i, r). length s - i)")
     (auto simp: find_first_of_def dest!: find_from_SomeD)

declare fmt_loop.simps [simp del]

definition fmt_str :: "fmt \<Rightarrow> string option" where
  "fmt_str f = fmt_loop (fmt_text f) (fmt_params f) 0 []"

subsection \<open>Trimming\<close>

definition strip :: "char list \<Rightarrow> string \<Rightarrow> string" where
  "strip ds s = dropWhile (\<lambda>c. c \<in> set ds) (rev (dropWhile (\<lambda>c. c \<in> set ds) (rev s)))"

lemma dropWhile_all: "\<forall>c \<in> set s. p c \<Longrightarrow> dropWhile p s = []"
  by simp

lemma find_idx_drop: "find_idx (\<lambda>c. c \<notin> D) s = Some k \<Longrightarrow> drop k s = dropWhile (\<lambda>c. c \<in> D) s"
  using find_idx_takeWhile [of "\<lambda>c. c \<notin> D" s k] by simp

lemma find_idx_all: "find_idx (\<lambda>c. c \<notin> D) s = None \<Longrightarrow> dropWhile (\<lambda>c. c \<in> D) s = []"
  by (simp add: find_idx_None)

lemma trim_with_strip: "trim_with ds s = strip ds s"
proof -
  let ?D = "set ds"
  have front: "(case find_first_not_of ds r 0 of Some i \<Rightarrow> drop i r | None \<Rightarrow> [])
      = dropWhile (\<lambda>c. c \<in> ?D) r" for r
    by (simp add: find_first_not_of_def find_idx_drop find_idx_all split: option.splits)
  show ?thesis
  proof (cases "find_idx (\<lambda>c. c \<notin> ?D) (rev s)")
    case None
    then have "find_last_not_of ds s = None" "\<forall>c \<in> set s. c \<in> ?D"
      by (simp_all add: find_last_not_of_def find_last_def find_idx_None)
    then show ?thesis by (simp add: trim_with_def front strip_def dropWhile_all)
  next
    case (Some k)
    then have k: "k < length s" using find_idx_SomeD by fastforce
    have "take (length s - k) s = rev (drop k (rev s))" by (simp add: rev_drop)
    also have "\<dots> = rev (dropWhile (\<lambda>c. c \<in> ?D) (rev s))" by (simp add: find_idx_drop [OF Some])
    finally have "take (length s - 1 - k + 1) s = rev (dropWhile (\<lambda>c. c \<in> ?D) (rev s))"
      using k by (simp add: Suc_diff_Suc)
    with Some show ?thesis
      by (simp add: trim_with_def find_last_not_of_def find_last_def front strip_def)
  qed
qed

lemma dropWhile_rev_ends:
  "s \<noteq> [] \<Longrightarrow> \<not> p (hd s) \<Longrightarrow> rev (dropWhile p (rev s)) \<noteq> [] \<and> hd (rev (dropWhile p (rev s))) = hd s"
  by (cases s) (auto simp: dropWhile_append)

lemma strip_id: "(s = [] \<or> (hd s \<notin> set ds \<and> last s \<notin> set ds)) \<Longrightarrow> strip ds s = s"
proof -
  assume *: "s = [] \<or> (hd s \<notin> set ds \<and> last s \<notin> set ds)"
  show ?thesis
  proof (cases "s = []")
    case False
    with * have "dropWhile (\<lambda>c. c \<in> set ds) (rev s) = rev s"
      by (intro dropWhile_hd) (auto simp: hd_rev)
    with False * show ?thesis by (simp add: strip_def dropWhile_hd)
  qed (simp add: strip_def)
qed

lemma strip_hd: "strip ds s \<noteq> [] \<Longrightarrow> hd (strip ds s) \<notin> set ds"
  using hd_dropWhile [of "\<lambda>c. c \<in> set ds"] by (simp add: strip_def)

lemma last_dropWhile: "dropWhile p s \<noteq> [] \<Longrightarrow> last (dropWhile p s) = last s"
  by (induction s) (auto split: if_splits)

lemma strip_last: "strip ds s \<noteq> [] \<Longrightarrow> last (strip ds s) \<notin> set ds"
proof -
  let ?r = "dropWhile (\<lambda>c. c \<in> set ds) (rev s)"
  assume ne: "strip ds s \<noteq> []"
  then have "last (strip ds s) = last (rev ?r)" by (simp add: strip_def last_dropWhile)
  moreover have "?r \<noteq> []" using ne unfolding strip_def by (metis dropWhile.simps(1) rev.simps(1))
  ultimately show ?thesis using hd_dropWhile [of "\<lambda>c. c \<in> set ds" "rev s"] by (simp add: last_rev)
qed

lemma strip_idem: "strip ds (strip ds s) = strip ds s"
  using strip_hd strip_last by (intro strip_id) blast

lemma strip_all: "\<forall>c \<in> set s. c \<in> set ds \<Longrightarrow> strip ds s = []"
  by (simp add: strip_def dropWhile_all)

lemma strip_sandwich:
  "\<forall>c \<in> set l. c \<in> set ds \<Longrightarrow> \<forall>c \<in> set r. c \<in> set ds \<Longrightarrow> strip ds (l @ s @ r) = strip ds s"
  by (auto simp: strip_def dropWhile_append dropWhile_all)

lemma set_strip: "set (strip ds s) \<subseteq> set s"
proof -
  have "set (dropWhile p t) \<subseteq> set t" for p and t :: string using set_dropWhileD by fast
  then show ?thesis unfolding strip_def by (metis set_rev subset_trans)
qed

lemma trim_strip: "trim s = strip default_delims s"
  by (simp add: trim_def trim_with_strip)

lemma trim_clean: "(\<forall>c \<in> set s. c \<notin> set default_delims) \<Longrightarrow> trim s = s"
  unfolding trim_strip by (rule strip_id) (cases "s = []", auto)

lemma trim_Nil [simp]: "trim [] = []"
  by (simp add: trim_strip strip_id)

lemma trim_ends: "s \<noteq> [] \<Longrightarrow> hd s \<notin> set default_delims \<Longrightarrow> last s \<notin> set default_delims \<Longrightarrow> trim s = s"
  by (simp add: trim_strip strip_id)

lemma trim_fixed_ends:
  assumes "trim s = s" "s \<noteq> []"
  shows "hd s \<notin> set default_delims" "last s \<notin> set default_delims"
  using assms strip_hd [of default_delims s] strip_last [of default_delims s] by (simp_all add: trim_strip)

lemma trim_attr:
  assumes "trim k = k" "k \<noteq> []" "trim v = v"
  shows "trim (k @ ''='' @ v) = k @ ''='' @ v"
  using assms trim_fixed_ends [of k] trim_fixed_ends [of v]
  by (intro trim_ends) (auto simp: default_delims_def)

lemma trim_blank_left: "trim (CHR '' '' # s) = trim s"
  using strip_sandwich [of "'' ''" default_delims "[]" s] by (simp add: trim_strip default_delims_def)

subsection \<open>Comparison\<close>

lemma compare_iff: "compare x y \<longleftrightarrow> map to_upper x = map to_upper y"
  by (auto simp: compare_def char_compare_def list_all2_conv_all_nth list_eq_iff_nth_eq)

lemma compare_equivp: "equivp compare"
  by (rule equivpI) (auto simp: compare_iff reflp_def symp_def transp_def)

subsection \<open>Splitting\<close>

lemma find_first_of_split:
  "find_first_of ds s i = Some pos \<Longrightarrow>
     split_by (\<lambda>c. c \<in> set ds) (drop i s) =
       substr s i (pos - i) # split_by (\<lambda>c. c \<in> set ds) (drop (pos + 1) s)"
proof -
  let ?p = "\<lambda>c. c \<in> set ds"
  assume "find_first_of ds s i = Some pos"
  then obtain k where k: "find_idx ?p (drop i s) = Some k" and pos: "pos = i + k"
    by (auto simp: find_first_of_def find_from_def)
  from find_idx_SomeD [OF k] have "k < length (drop i s)" "?p (drop i s ! k)"
    and pre: "\<forall>c \<in> set (take k (drop i s)). \<not> ?p c" by auto
  then have "drop i s = take k (drop i s) @ (drop i s ! k) # drop (Suc k) (drop i s)"
    by (intro id_take_nth_drop)
  then have "split_by ?p (drop i s) =
      take k (drop i s) # split_by ?p (drop (Suc k) (drop i s))"
    using split_by_append [OF pre \<open>?p (drop i s ! k)\<close>] by metis
  then show ?thesis by (simp add: pos substr_def add.commute)
qed

lemma find_first_of_none_split:
  "find_first_of ds s i = None \<Longrightarrow> split_by (\<lambda>c. c \<in> set ds) (drop i s) = [substr s i (length s)]"
  by (simp add: find_first_of_def find_from_def find_idx_None split_by_none substr_def)

lemma tokenize_loop_split:
  "tokenize_loop ds s i rslt = rslt @ map trim (split_by (\<lambda>c. c \<in> set ds) (drop i s))"
proof (induction ds s i rslt rule: tokenize_loop.induct)
  case (1 ds s i rslt)
  show ?case
  proof (cases "find_first_of ds s i")
    case None
    then show ?thesis by (simp add: tokenize_loop.simps [of ds s i] find_first_of_none_split)
  next
    case (Some pos)
    with "1.IH" show ?thesis
      by (simp add: tokenize_loop.simps [of ds s i] find_first_of_split)
  qed
qed

lemma tokenize_split:
  "tokenize ds s = (if s = [] then [] else map trim (split_by (\<lambda>c. c \<in> set ds) s))"
  by (simp add: tokenize_def tokenize_loop_split)

lemma tokenize_pair_first:
  "d \<in> set ds \<Longrightarrow> (\<forall>c \<in> set l. c \<notin> set ds) \<Longrightarrow> tokenize_pair ds False (l @ d # r) out = (l, r)"
  by (simp add: tokenize_pair_def find_first_of_def find_idx_append_hit substr_def)

lemma tokenize_pair_first_none:
  "s \<noteq> [] \<Longrightarrow> (\<forall>c \<in> set s. c \<notin> set ds) \<Longrightarrow> tokenize_pair ds False s out = (s, snd out)"
proof -
  assume *: "s \<noteq> []" "\<forall>c \<in> set s. c \<notin> set ds"
  then have "find_idx (\<lambda>c. c \<in> set ds) s = None" by (simp add: find_idx_None)
  with * show ?thesis by (simp add: tokenize_pair_def find_first_of_def)
qed

lemma tokenize_pair_last:
  assumes "d \<in> set ds" "\<forall>c \<in> set r. c \<notin> set ds"
  shows "tokenize_pair ds True (l @ d # r) out = (l, r)"
proof -
  have "find_idx (\<lambda>c. c \<in> set ds) (rev (l @ d # r)) = Some (length r)"
    using assms find_idx_append_hit [of "rev r" "\<lambda>c. c \<in> set ds" d "rev l"] by simp
  then have "find_last_of ds (l @ d # r) = Some (length l)"
    by (simp add: find_last_of_def find_last_def)
  then show ?thesis by (simp add: tokenize_pair_def substr_def)
qed

lemma tokenize_pair_last_none:
  "s \<noteq> [] \<Longrightarrow> (\<forall>c \<in> set s. c \<notin> set ds) \<Longrightarrow> tokenize_pair ds True s out = ([], s)"
  by (simp add: tokenize_pair_def find_last_of_def find_last_None [THEN iffD2])

subsection \<open>Conversions\<close>

lemma from_to_string_int: "is_int32 x \<Longrightarrow> from_string_int (to_string_int x) = x"
  using strtol_print_int is_int32_long
  by (simp add: from_string_int_def to_string_int_def to_int32_id)

lemma from_string_int_range: "is_int32 (from_string_int s)"
  by (simp add: from_string_int_def)

subsection \<open>Parameter substitution\<close>

text \<open>A template is a sequence of literal texts and parameter references, printed with brackets.\<close>

datatype piece = Lit string | Ref nat

fun print_piece :: "piece \<Rightarrow> string" where
  "print_piece (Lit s) = s"
| "print_piece (Ref n) = CHR ''{'' # print_int (int n) @ [CHR ''}'']"

definition print_template :: "piece list \<Rightarrow> string" where
  "print_template t = concat (map print_piece t)"

fun piece_ok :: "nat \<Rightarrow> piece \<Rightarrow> bool" where
  "piece_ok n (Lit s) = (CHR ''{'' \<notin> set s \<and> CHR ''}'' \<notin> set s)"
| "piece_ok n (Ref i) = (i < n \<and> is_int32 (int i))"

fun fill_piece :: "string list \<Rightarrow> piece \<Rightarrow> string" where
  "fill_piece ps (Lit s) = s"
| "fill_piece ps (Ref i) = ps ! i"

lemma find_braces:
  "\<forall>c \<in> set l. c \<notin> set [CHR ''{'', CHR ''}''] \<Longrightarrow> b \<in> set [CHR ''{'', CHR ''}''] \<Longrightarrow>
     find_first_of [CHR ''{'', CHR ''}''] (p @ l @ b # r) (length p) = Some (length p + length l)"
  unfolding find_first_of_def find_from_def
  using find_idx_append_hit [of l "\<lambda>c. c \<in> set [CHR ''{'', CHR ''}'']" b r] by simp

lemma dec_digits_no_brace:
  "\<forall>c \<in> set (print_int (int n)). c \<notin> set [CHR ''{'', CHR ''}'']"
proof
  fix c assume "c \<in> set (print_int (int n))"
  then obtain d where d: "d < 10" "c = digit_char d"
    using dec_digits_all_digits by (auto simp: print_int_def)
  show "c \<notin> set [CHR ''{'', CHR ''}'']"
    using less_10_cases [OF d(1)] by (auto simp: d(2) digit_char_def char_of_eq_iff)
qed

lemma fmt_loop_ref:
  assumes "i < length ps" "is_int32 (int i)" "\<forall>c \<in> set l. c \<notin> set [CHR ''{'', CHR ''}'']"
  shows "fmt_loop (p @ l @ print_piece (Ref i) @ r) ps (length p) acc =
     fmt_loop (p @ l @ print_piece (Ref i) @ r) ps (length (p @ l @ print_piece (Ref i)))
       (acc @ l @ ps ! i)"
proof -
  let ?n = "print_int (int i)"
  let ?s = "p @ l @ CHR ''{'' # ?n @ CHR ''}'' # r"
  have 1: "find_first_of [CHR ''{'', CHR ''}''] ?s (length p) = Some (length p + length l)"
    using find_braces [of l "CHR ''{''" p "?n @ CHR ''}'' # r"] assms(3) by simp
  have "find_first_of [CHR ''{'', CHR ''}''] ((p @ l @ [CHR ''{'']) @ ?n @ CHR ''}'' # r)
      (length (p @ l @ [CHR ''{''])) = Some (length (p @ l @ [CHR ''{'']) + length ?n)"
    by (rule find_braces) (use dec_digits_no_brace in auto)
  then have 2: "find_first_of [CHR ''{'', CHR ''}''] ?s (Suc (length p + length l)) =
      Some (Suc (length p + length l) + length ?n)" by (simp add: add.assoc)
  have v: "vector_at ps (from_string_int ?n) = Some (ps ! i)"
    using from_to_string_int [OF assms(2)] assms(1) by (simp add: to_string_int_def vector_at_def)
  have n1: "?s ! (length p + length l) = CHR ''{''"
    by (simp add: nth_append)
  have n2: "?s ! (Suc (length p + length l) + length ?n) = CHR ''}''"
    using nth_append_length [of "p @ l @ CHR ''{'' # ?n" "CHR ''}''" r] by (simp add: add.assoc)
  have s1: "substr ?s (length p) (length l) = l" by (simp add: substr_def)
  have s2: "substr ?s (Suc (length p + length l)) (length ?n) = ?n" by (simp add: substr_def)
  show ?thesis
    using 1 2 v n1 n2 s1 s2
    by (simp add: fmt_loop.simps [of ?s ps "length p"]
        fmt_loop.simps [of ?s ps "Suc (length p + length l)"] add.assoc)
qed

lemma fmt_loop_tail:
  assumes "\<forall>c \<in> set l. c \<notin> set [CHR ''{'', CHR ''}'']"
  shows "fmt_loop (p @ l) ps (length p) acc = Some (acc @ l)"
proof -
  have "find_first_of [CHR ''{'', CHR ''}''] (p @ l) (length p) = None"
    unfolding find_first_of_def find_from_def using assms by (simp add: find_idx_None)
  then show ?thesis by (simp add: fmt_loop.simps [of "p @ l"] substr_def)
qed

lemma fmt_loop_template:
  "\<forall>t \<in> set ts. piece_ok (length ps) t \<Longrightarrow> \<forall>c \<in> set l. c \<notin> set [CHR ''{'', CHR ''}''] \<Longrightarrow>
     fmt_loop (p @ l @ print_template ts) ps (length p) acc =
       Some (acc @ l @ concat (map (fill_piece ps) ts))"
proof (induction ts arbitrary: p l acc)
  case Nil
  then show ?case using fmt_loop_tail [of l p] by (simp add: print_template_def)
next
  case (Cons t ts)
  show ?case
  proof (cases t)
    case (Lit s)
    then show ?thesis
      using Cons.IH [of "l @ s" p acc] Cons.prems by (auto simp: print_template_def)
  next
    case (Ref i)
    have r: "fmt_loop (p @ l @ print_piece (Ref i) @ print_template ts) ps (length p) acc =
      fmt_loop (p @ l @ print_piece (Ref i) @ print_template ts) ps
        (length (p @ l @ print_piece (Ref i))) (acc @ l @ ps ! i)"
      using Cons.prems Ref by (intro fmt_loop_ref) auto
    then show ?thesis
      using Cons.IH [of "[]" "p @ l @ print_piece (Ref i)" "acc @ l @ ps ! i"] Cons.prems Ref
      by (simp add: print_template_def)
  qed
qed

lemma format_template:
  "list_all (piece_ok (length ps)) ts \<Longrightarrow>
     fmt_str (foldl fmt_arg (fmt_new (print_template ts)) ps) = Some (concat (map (fill_piece ps) ts))"
proof -
  assume ok: "list_all (piece_ok (length ps)) ts"
  have "foldl fmt_arg f ps = f\<lparr>fmt_params := fmt_params f @ ps\<rparr>" for f
    by (induction ps arbitrary: f) (simp_all add: fmt_arg_def)
  then show ?thesis
    using fmt_loop_template [of ts ps "[]" "[]" "[]"] ok
    by (simp add: fmt_str_def fmt_new_def list_all_iff)
qed

subsection \<open>Properties\<close>

text \<open>Trimming removes exactly the blanks at both ends: the source is the result between two runs
  of blanks, and the result, unless empty, neither starts nor ends with a blank.\<close>
theorem trim_removes_outer_blanks:
  "(\<exists>l r. s = l @ trim s @ r \<and> set l \<subseteq> set default_delims \<and> set r \<subseteq> set default_delims) \<and>
   (trim s = [] \<or> hd (trim s) \<notin> set default_delims \<and> last (trim s) \<notin> set default_delims)"
proof -
  let ?p = "\<lambda>c. c \<in> set default_delims"
  define t where "t = rev (dropWhile ?p (rev s))"
  have s: "s = t @ rev (takeWhile ?p (rev s))"
    unfolding t_def by (metis rev_append rev_rev_ident takeWhile_dropWhile_id)
  have "t = takeWhile ?p t @ trim s" unfolding trim_strip strip_def t_def by simp
  with s have "s = takeWhile ?p t @ trim s @ rev (takeWhile ?p (rev s))"
    by (metis append.assoc)
  moreover have "set (takeWhile ?p t) \<subseteq> set default_delims"
    "set (rev (takeWhile ?p (rev s))) \<subseteq> set default_delims" by (auto dest: set_takeWhileD)
  ultimately show ?thesis using strip_hd strip_last unfolding trim_strip by blast
qed

lemma tokenize_join:
  assumes "ws \<noteq> []" "ws \<noteq> [[]]" "d \<in> set ds" "list_all (list_all (\<lambda>c. c \<notin> set ds \<and> c \<notin> set default_delims)) ws"
  shows "tokenize ds (join_with [d] ws) = ws"
proof -
  have "map trim ws = ws" using assms(4) by (intro map_idI) (simp add: list_all_iff trim_clean)
  moreover have "split_by (\<lambda>c. c \<in> set ds) (join_with [d] ws) = ws"
    using assms by (intro split_by_join) (auto simp: list_all_iff)
  moreover have "join_with [d] ws \<noteq> []" using assms(1,2) by (cases ws; cases "tl ws") auto
  ultimately show ?thesis by (simp add: tokenize_split)
qed

text \<open>The position-based splitting loop returns, for a non-empty source, the trimmed fields between
  the delimiters in order, and joining clean fields with a delimiter is undone by splitting.\<close>
theorem tokenize_splits:
  "tokenize ds s = (if s = [] then [] else map trim (split_by (\<lambda>c. c \<in> set ds) s)) \<and>
   (ws \<noteq> [] \<and> ws \<noteq> [[]] \<and> d \<in> set ds \<and>
      list_all (list_all (\<lambda>c. c \<notin> set ds \<and> c \<notin> set default_delims)) ws \<longrightarrow>
    tokenize ds (join_with [d] ws) = ws)"
  using tokenize_split tokenize_join by blast

theorem tokenize_splits_witness:
  "tokenize '',;'' ''a; b ,c'' = [''a'', ''b'', ''c''] \<and> tokenize '',;'' ''x;y'' = [''x'', ''y'']"
proof -
  have "map trim (split_by (\<lambda>c. c \<in> set '',;'') ''a; b ,c'') = [''a'', ''b'', ''c'']" by code_simp
  then show ?thesis
    using tokenize_splits [of "'',;''" "''a; b ,c''" "[''x'', ''y'']" "CHR '';''"]
    by (simp add: default_delims_def)
qed

text \<open>Every 32-bit integer survives the conversion to decimal text and back, although the reader
  detects the base from the prefix; and whatever text is read, the result is a 32-bit integer.\<close>
theorem int_text_roundtrip:
  "(is_int32 x \<longrightarrow> from_string_int (to_string_int x) = x) \<and> is_int32 (from_string_int s)"
  by (simp add: from_to_string_int from_string_int_range)

theorem int_text_roundtrip_witness:
  "is_int32 (-2147483648) \<and> from_string_int (to_string_int (-2147483648)) = -2147483648 \<and>
   from_string_int ''010'' = 8"
proof -
  have h: "is_int32 (-2147483648)" by (simp add: is_int32_def INT_MIN_def INT_MAX_def)
  have "from_string_int ''010'' = 8"
    by (simp add: from_string_int_def strtol_def strtol_sign_def strtol_base_def hex_prefix_def
        digit_val_def is_digit_def is_space_def LONG_MAX_def LONG_MIN_def to_int32_def)
  with h int_text_roundtrip [of "-2147483648" "''010''"] show ?thesis by simp
qed

text \<open>Formatting a template whose literals are free of brackets and whose references are within the
  parameter vector replaces each reference by its parameter, never reading outside the vector.\<close>
theorem format_fills_template:
  "list_all (piece_ok (length ps)) ts \<Longrightarrow>
     fmt_str (foldl fmt_arg (fmt_new (print_template ts)) ps) = Some (concat (map (fill_piece ps) ts))"
  by (rule format_template)

theorem format_fills_template_witness:
  "fmt_str (foldl fmt_arg (fmt_new ''The {0}-st {1}'') [''1'', ''test'']) = Some ''The 1-st test''"
proof -
  let ?ts = "[Lit ''The '', Ref 0, Lit ''-st '', Ref 1]"
  have t: "print_template ?ts = ''The {0}-st {1}''"
    by (simp add: print_template_def print_int_def dec_digits.simps digit_char_def char_of_eq_iff)
  have ok: "list_all (piece_ok (length [''1'', ''test''])) ?ts"
    by (simp add: is_int32_def INT_MIN_def INT_MAX_def)
  show ?thesis using format_fills_template [OF ok] unfolding t by simp
qed

end
