(* ===== verification/App_Config.thy ===== *)
theory App_Config
  imports Strutils
begin

text \<open>
  \<open>include/dcl/app_config.h\<close>, \<open>src/dcl/app_config.cpp\<close>: the configuration file.  The file system is a parameter:
  the contents of a file, the files that match a pattern, and the directory a change leads to, each relative
  to a current directory.  \<open>do_load\<close> calls itself for an include; the model keeps what is left to do on a
  list of jobs, and has \<^const>\<open>None\<close> where the recursion of the code never ends.
\<close>

record file_env =
  fs_read :: "string \<Rightarrow> string \<Rightarrow> string option"
  fs_find :: "string \<Rightarrow> string \<Rightarrow> string list"
  fs_chdir :: "string \<Rightarrow> string \<Rightarrow> string"

type_synonym sections = "string \<Rightarrow> (string \<Rightarrow> string option) option"

definition set_option :: "string \<Rightarrow> string \<Rightarrow> string \<Rightarrow> sections \<Rightarrow> sections" where
  "set_option sec key v opts =
     opts(sec := Some ((case opts sec of None \<Rightarrow> (\<lambda>_. None) | Some m \<Rightarrow> m)(key := Some v)))"

subsection \<open>Lines\<close>

text \<open>The lines \<open>getline\<close> delivers: a last line without its end counts unless it is empty.\<close>

definition text_lines :: "string \<Rightarrow> string list" where
  "text_lines s = (let ls = split_by (\<lambda>c. c = CHR 0x0A) s in if last ls = [] then butlast ls else ls)"

text \<open>What a line asks for, after it has been trimmed.\<close>

datatype line_kind = Ignored | Section string | Setting string string | Include string

definition config_line :: "string \<Rightarrow> line_kind" where
  "config_line line =
     (if line = [] \<or> hd line = CHR ''#'' \<or> hd line = CHR '';'' then Ignored
      else if hd line = CHR ''['' then
        Section (trim (case find_char (CHR '']'') line of
                         Some pos \<Rightarrow> substr line 1 (pos - 1)
                       | None \<Rightarrow> drop 1 line))
      else case find_first_of ''='' line 1 of
             None \<Rightarrow> Ignored
           | Some pos \<Rightarrow>
               if trim (take pos line) = ''@include'' then Include (trim (drop (pos + 1) line))
               else Setting (trim (take pos line)) (trim (drop (pos + 1) line)))"

subsection \<open>Loading\<close>

text \<open>What is left to do: a file to open, the rest of an open file with its name and current section, and a
  return to the directory before an include.\<close>

datatype job = Load string | Lines string "string list" string | Restore string

text \<open>The directory a file is in, as \<open>tokenize\<close> splits it off.\<close>

definition dir_of :: "string \<Rightarrow> string" where
  "dir_of name = fst (tokenize_pair [CHR ''/'', CHR 0x5C] True name ([], []))"

text \<open>The result tells whether all files were found; the options are what was read until then.\<close>

partial_function (option) do_load ::
  "file_env \<Rightarrow> job list \<Rightarrow> string \<Rightarrow> sections \<Rightarrow> (bool \<times> sections \<times> string) option" where
  "do_load fs jobs cwd opts =
     (case jobs of
        [] \<Rightarrow> Some (True, opts, cwd)
      | Load name # js \<Rightarrow>
          (case fs_read fs cwd name of
             None \<Rightarrow> Some (False, opts, cwd)
           | Some text \<Rightarrow> do_load fs (Lines name (text_lines text) [] # js) cwd opts)
      | Restore d # js \<Rightarrow> do_load fs js (fs_chdir fs cwd d) opts
      | Lines name ls sec # js \<Rightarrow>
          (case ls of
             [] \<Rightarrow> do_load fs js cwd opts
           | l # ls \<Rightarrow>
               (case config_line (trim l) of
                  Ignored \<Rightarrow> do_load fs (Lines name ls sec # js) cwd opts
                | Section s \<Rightarrow> do_load fs (Lines name ls s # js) cwd opts
                | Setting k v \<Rightarrow> do_load fs (Lines name ls sec # js) cwd (set_option sec k v opts)
                | Include pattern \<Rightarrow>
                    (let dir = (if dir_of name \<noteq> [] then fs_chdir fs cwd (dir_of name) else cwd)
                     in do_load fs (map Load (fs_find fs dir pattern) @ Restore cwd # Lines name ls sec # js) dir opts))))"

definition load_from_file :: "file_env \<Rightarrow> string \<Rightarrow> string \<Rightarrow> (bool \<times> sections \<times> string) option" where
  "load_from_file fs cwd name = do_load fs [Load name] cwd (\<lambda>_. None)"

subsection \<open>Values\<close>

definition value_string :: "sections \<Rightarrow> string \<Rightarrow> string \<Rightarrow> string \<Rightarrow> string" where
  "value_string opts section name def_value = (case opts section of
     None \<Rightarrow> def_value
   | Some m \<Rightarrow> (case m name of None \<Rightarrow> def_value | Some v \<Rightarrow> v))"

definition value_int :: "sections \<Rightarrow> string \<Rightarrow> string \<Rightarrow> int \<Rightarrow> int" where
  "value_int opts section name def_value =
     from_string_int (value_string opts section name (to_string_int def_value))"

definition value_bool :: "sections \<Rightarrow> string \<Rightarrow> string \<Rightarrow> bool \<Rightarrow> bool" where
  "value_bool opts section name def_value =
     (let s = value_string opts section name (if def_value then ''1'' else ''0'')
      in compare s ''YES'' \<or> compare s ''ON'' \<or> compare s ''TRUE'' \<or> compare s ''1'')"

definition config_section :: "sections \<Rightarrow> string \<Rightarrow> string \<Rightarrow> string option" where
  "config_section opts name = (case opts name of None \<Rightarrow> (\<lambda>_. None) | Some m \<Rightarrow> m)"

subsection \<open>Printed configurations\<close>

text \<open>A configuration as its sections in order, each with its settings in order.\<close>

type_synonym config_tree = "(string \<times> (string \<times> string) list) list"

definition section_lines :: "string \<times> (string \<times> string) list \<Rightarrow> string list" where
  "section_lines sk = (CHR ''['' # fst sk @ '']'') # map (\<lambda>(k, v). k @ '' = '' @ v) (snd sk)"

definition print_config :: "config_tree \<Rightarrow> string" where
  "print_config cfg = concat (map (\<lambda>l. l @ [CHR 0x0A]) (concat (map section_lines cfg)))"

definition section_name_ok :: "string \<Rightarrow> bool" where
  "section_name_ok s = (CHR '']'' \<notin> set s \<and> CHR 0x0A \<notin> set s \<and> trim s = s)"

definition setting_ok :: "string \<times> string \<Rightarrow> bool" where
  "setting_ok kv = (fst kv \<noteq> [] \<and> CHR ''='' \<notin> set (fst kv) \<and> CHR 0x0A \<notin> set (fst kv @ snd kv) \<and>
     trim (fst kv) = fst kv \<and> trim (snd kv) = snd kv \<and> hd (fst kv) \<notin> set ''#;['' \<and> fst kv \<noteq> ''@include'')"

definition config_ok :: "config_tree \<Rightarrow> bool" where
  "config_ok cfg = list_all (\<lambda>(s, kvs). section_name_ok s \<and> list_all setting_ok kvs) cfg"

definition settings :: "config_tree \<Rightarrow> (string \<times> string \<times> string) list" where
  "settings cfg = concat (map (\<lambda>(s, kvs). map (\<lambda>(k, v). (s, k, v)) kvs) cfg)"

subsection \<open>Reading lines back\<close>

lemma text_lines_concat:
  assumes "list_all (\<lambda>l. CHR 0x0A \<notin> set l) ls"
  shows "text_lines (concat (map (\<lambda>l. l @ [CHR 0x0A]) ls)) = ls"
proof -
  have "split_by (\<lambda>c. c = CHR 0x0A) (concat (map (\<lambda>l. l @ [CHR 0x0A]) ls)) = ls @ [[]]"
    using assms
  proof (induction ls)
    case (Cons l ls)
    then have "\<forall>c \<in> set l. c \<noteq> CHR 0x0A" by auto
    with Cons show ?case by (simp add: split_by_append)
  qed simp
  then show ?thesis by (simp add: text_lines_def)
qed

lemma config_line_section:
  assumes "section_name_ok s"
  shows "config_line (trim (CHR ''['' # s @ '']'')) = Section s"
proof -
  have "trim (CHR ''['' # s @ '']'') = CHR ''['' # s @ '']''" by (rule trim_ends) (simp_all add: default_delims_def)
  moreover have "find_char (CHR '']'') ((CHR ''['' # s) @ CHR '']'' # []) = Some (length (CHR ''['' # s))"
    by (rule find_char_append_hit) (use assms in \<open>simp add: section_name_ok_def\<close>)
  ultimately show ?thesis using assms by (simp add: config_line_def section_name_ok_def substr_def)
qed

lemma trim_setting:
  assumes "trim k = k" "k \<noteq> []" "trim v = v"
  shows "trim (k @ '' = '' @ v) = k @ '' ='' @ (if v = [] then [] else CHR '' '' # v)"
proof (cases "v = []")
  case True
  have "trim ((k @ '' ='') @ '' '') = trim (k @ '' ='')"
    using strip_sandwich [of "[]" default_delims "'' ''" "k @ '' =''"] by (simp add: trim_strip default_delims_def)
  moreover have "trim (k @ '' ='') = k @ '' =''"
    using trim_fixed_ends [OF assms(1,2)] assms(2) by (intro trim_ends) (auto simp: default_delims_def)
  ultimately show ?thesis using True by simp
next
  case False
  then show ?thesis using trim_fixed_ends [OF assms(1,2)] trim_fixed_ends [OF assms(3)] assms(2)
    by (subst trim_ends) auto
qed

lemma config_line_setting:
  assumes "setting_ok (k, v)"
  shows "config_line (trim (k @ '' = '' @ v)) = Setting k v"
proof -
  from assms have k: "k \<noteq> []" "CHR ''='' \<notin> set k" "trim k = k" "trim v = v" "hd k \<notin> set ''#;[''" "k \<noteq> ''@include''"
    by (simp_all add: setting_ok_def)
  define r where "r = (if v = [] then [] else CHR '' '' # v)"
  have l: "trim (k @ '' = '' @ v) = k @ CHR '' '' # CHR ''='' # r" using trim_setting [OF k(3,1,4)] by (simp add: r_def)
  obtain a t where a: "k = a # t" using k(1) by (cases k) auto
  have "find_idx (\<lambda>c. c \<in> set ''='') ((t @ '' '') @ CHR ''='' # r) = Some (length (t @ '' ''))"
    by (rule find_idx_append_hit) (use k(2) a in auto)
  then have f: "find_first_of ''='' (k @ CHR '' '' # CHR ''='' # r) 1 = Some (length k + 1)"
    by (simp add: find_first_of_def find_from_def a)
  have "trim (k @ '' '') = k"
    using strip_sandwich [of "[]" default_delims "'' ''" k] k(3) by (simp add: trim_strip default_delims_def)
  moreover have "trim r = v" using k(4) trim_blank_left [of v] by (simp add: r_def)
  ultimately show ?thesis unfolding l using k f by (simp add: config_line_def)
qed

subsection \<open>Loading a printed configuration\<close>

definition apply_settings :: "(string \<times> string \<times> string) list \<Rightarrow> sections \<Rightarrow> sections" where
  "apply_settings = fold (\<lambda>(s, k, v). set_option s k v)"

lemma load_settings:
  "list_all setting_ok kvs \<Longrightarrow>
     do_load fs (Lines name (map (\<lambda>(k, v). k @ '' = '' @ v) kvs @ ls) sec # js) cwd opts =
     do_load fs (Lines name ls sec # js) cwd (apply_settings (map (\<lambda>(k, v). (sec, k, v)) kvs) opts)"
proof (induction kvs arbitrary: opts)
  case (Cons kv kvs)
  obtain k v where kv: "kv = (k, v)" by fastforce
  have "config_line (trim (k @ '' = '' @ v)) = Setting k v"
    using Cons.prems kv by (intro config_line_setting) simp
  then show ?case using Cons by (subst do_load.simps) (simp add: kv apply_settings_def)
qed (simp add: apply_settings_def)

lemma load_config:
  "config_ok cfg \<Longrightarrow>
     \<exists>sec'. do_load fs (Lines name (concat (map section_lines cfg) @ ls) sec # js) cwd opts =
       do_load fs (Lines name ls sec' # js) cwd (apply_settings (settings cfg) opts)"
proof (induction cfg arbitrary: sec opts)
  case (Cons sk cfg)
  obtain s kvs where sk: "sk = (s, kvs)" by fastforce
  have ok: "section_name_ok s" "list_all setting_ok kvs" "config_ok cfg"
    using Cons.prems by (simp_all add: config_ok_def sk)
  let ?m = "map (\<lambda>(k, v). k @ '' = '' @ v) kvs" and ?r = "concat (map section_lines cfg) @ ls"
  have "do_load fs (Lines name (concat (map section_lines (sk # cfg)) @ ls) sec # js) cwd opts =
      do_load fs (Lines name (?m @ ?r) s # js) cwd opts"
    using config_line_section [OF ok(1)] by (subst do_load.simps) (simp add: sk section_lines_def)
  also have "\<dots> = do_load fs (Lines name ?r s # js) cwd (apply_settings (map (\<lambda>(k, v). (s, k, v)) kvs) opts)"
    by (rule load_settings [OF ok(2)])
  finally show ?case
    using Cons.IH [OF ok(3), of s "apply_settings (map (\<lambda>(k, v). (s, k, v)) kvs) opts"]
    by (simp add: settings_def sk apply_settings_def)
qed (auto simp: settings_def apply_settings_def)

lemma load_printed:
  assumes "config_ok cfg" "fs_read fs cwd name = Some (print_config cfg)"
  shows "load_from_file fs cwd name = Some (True, apply_settings (settings cfg) (\<lambda>_. None), cwd)"
proof -
  have "list_all (\<lambda>l. CHR 0x0A \<notin> set l) (section_lines sk)" if "sk \<in> set cfg" for sk
  proof -
    obtain s kvs where sk: "sk = (s, kvs)" by fastforce
    from that assms(1) have "section_name_ok s" "\<forall>kv \<in> set kvs. setting_ok kv"
      unfolding sk by (auto simp: config_ok_def list_all_iff)
    then show ?thesis
      by (fastforce simp: sk section_lines_def section_name_ok_def setting_ok_def list_all_iff)
  qed
  then have "text_lines (print_config cfg) = concat (map section_lines cfg)"
    unfolding print_config_def by (intro text_lines_concat) (auto simp: list_all_iff)
  then have "load_from_file fs cwd name =
      do_load fs (Lines name (concat (map section_lines cfg) @ []) [] # []) cwd (\<lambda>_. None)"
    using assms(2) unfolding load_from_file_def by (subst do_load.simps) simp
  also obtain sec where "\<dots> = do_load fs [Lines name [] sec] cwd (apply_settings (settings cfg) (\<lambda>_. None))"
    using load_config [OF assms(1)] by blast
  finally show ?thesis by (simp add: do_load.simps)
qed

text \<open>The value of an option is the one that was set last.\<close>

lemma value_applied:
  "value_string (apply_settings xs opts) s k d =
     (case map_of (rev (map (\<lambda>(s, k, v). ((s, k), v)) xs)) (s, k) of None \<Rightarrow> value_string opts s k d | Some v \<Rightarrow> v)"
proof (induction xs arbitrary: opts)
  case (Cons x xs)
  obtain s' k' v' where x: "x = (s', k', v')" using prod_cases3 by blast
  have "value_string (set_option s' k' v' opts) s k d = (if s = s' \<and> k = k' then v' else value_string opts s k d)"
    by (simp add: value_string_def set_option_def split: option.split)
  then show ?case using Cons.IH [of "set_option s' k' v' opts"]
    by (auto simp: apply_settings_def x map_add_def split: option.split)
qed (simp add: apply_settings_def)

lemma value_string_empty: "value_string (\<lambda>_. None) s k d = d"
  by (simp add: value_string_def)

lemma value_int_missing:
  "value_string opts s k = (\<lambda>d. d) \<Longrightarrow> is_int32 d \<Longrightarrow> value_int opts s k d = d"
  by (simp add: value_int_def from_to_string_int)

lemma compare_digits: "compare ''1'' ''1''" "\<not> compare ''0'' ''1''" "\<not> compare ''0'' ''YES''"
    "\<not> compare ''0'' ''ON''" "\<not> compare ''0'' ''TRUE''"
  by code_simp+

lemma value_bool_missing: "value_string opts s k = (\<lambda>d. d) \<Longrightarrow> value_bool opts s k d = d"
  by (cases d) (simp_all add: value_bool_def compare_digits Let_def)

text \<open>C31: A configuration file written section by section, one \<open>key = value\<close> per line, with keys and values that
  have no outer blanks, loads: \<open>load_from_file\<close> returns, in the directory it started in, and \<open>value\<close> then gives for
  every section and key the value that was written last for them, and the default where none was written.
\<close>

theorem config_roundtrip:
  assumes "config_ok cfg" "fs_read fs cwd name = Some (print_config cfg)"
  shows "\<exists>opts. load_from_file fs cwd name = Some (True, opts, cwd) \<and>
           (\<forall>s k d. value_string opts s k d =
              (case map_of (rev (map (\<lambda>(s, k, v). ((s, k), v)) (settings cfg))) (s, k) of None \<Rightarrow> d | Some v \<Rightarrow> v))"
  by (simp add: load_printed [OF assms] value_applied value_string_empty cong: option.case_cong)

theorem config_roundtrip_witness:
  "\<exists>opts. load_from_file \<lparr>fs_read = \<lambda>_ _. Some (''[http]'' @ CHR 0x0A # ''port = 8080'' @ [CHR 0x0A]),
         fs_find = \<lambda>_ _. [], fs_chdir = \<lambda>_ d. d\<rparr> ''/'' ''dcl.conf'' = Some (True, opts, ''/'') \<and>
     value_string opts ''http'' ''port'' ''80'' = ''8080'' \<and> value_string opts ''tcp'' ''port'' ''80'' = ''80''"
proof -
  let ?fs = "\<lparr>fs_read = \<lambda>_ _. Some (''[http]'' @ CHR 0x0A # ''port = 8080'' @ [CHR 0x0A]),
    fs_find = \<lambda>_ _. [], fs_chdir = \<lambda>_ d. d\<rparr>" and ?cfg = "[(''http'', [(''port'', ''8080'')])]"
  have "config_ok ?cfg" by code_simp
  moreover have "fs_read ?fs ''/'' ''dcl.conf'' = Some (print_config ?cfg)"
    by (simp add: print_config_def section_lines_def)
  moreover have "settings ?cfg = [(''http'', ''port'', ''8080'')]" by (simp add: settings_def)
  ultimately show ?thesis using config_roundtrip [of ?cfg ?fs "''/''" "''dcl.conf''"] by fastforce
qed

subsection \<open>Includes\<close>

text \<open>A file that includes itself, in a directory with nothing else.\<close>

definition self_including :: file_env where
  "self_including = \<lparr>fs_read = \<lambda>_ _. Some ''@include = a'', fs_find = \<lambda>_ _. [''a''], fs_chdir = \<lambda>_ d. d\<rparr>"

text \<open>The job that keeps coming back: the file is to be opened, or its only line is to be read.\<close>

fun self_include_job :: "job list \<Rightarrow> bool" where
  "self_include_job (Load name # js) = (name = ''a'')"
| "self_include_job (Lines name ls sec # js) = (name = ''a'' \<and> ls = [''@include = a''])"
| "self_include_job _ = False"

lemma self_include_line:
  "text_lines ''@include = a'' = [''@include = a'']" "config_line (trim ''@include = a'') = Include ''a''"
  "dir_of ''a'' = []"
  by code_simp+

lemma self_include_loops:
  assumes "do_load fs jobs cwd opts = Some r"
  shows "fs = self_including \<longrightarrow> \<not> self_include_job jobs"
proof (rule do_load.raw_induct [where P = "\<lambda>fs jobs _ _ _. fs = self_including \<longrightarrow> \<not> self_include_job jobs", OF _ assms], goal_cases)
  case (1 rec fs jobs cwd opts r)
  then show ?case by (cases jobs rule: self_include_job.cases) (fastforce simp: self_including_def self_include_line)+
qed

text \<open>A file that includes itself, by its name or by a pattern that matches it, is loaded for ever.\<close>

theorem include_of_itself_never_ends: "load_from_file self_including cwd ''a'' = None"
  using self_include_loops [of self_including "[Load ''a'']" cwd "\<lambda>_. None"]
  by (auto simp: load_from_file_def intro: option.exhaust)

end
