(* ===== verification/Query.thy ===== *)
theory Query
  imports Strutils
begin

text \<open>
  \<open>include/dcl/connection.h\<close>, \<open>include/dcl/query.h\<close> and their sources: database access over ODBC.  The driver
  manager is a parameter: one function for each call the code makes, on the state \<open>'d\<close> of the driver, in which
  the handles of the connection and of the statement are.  A text passed as \<open>c_str()\<close> with \<open>SQL_NTS\<close> ends at its
  first zero byte.
\<close>

datatype sql_return = SQL_SUCCESS | SQL_SUCCESS_WITH_INFO | SQL_NO_DATA | SQL_ERROR | SQL_RETURN int

definition sql_ok :: "sql_return \<Rightarrow> bool" where
  "sql_ok r = (r = SQL_SUCCESS \<or> r = SQL_SUCCESS_WITH_INFO)"

datatype isolation = READ_UNCOMMITTED | READ_COMMITTED | REPEATABLE_READ | SERIALIZABLE

record 'd odbc =
  SQLConnect :: "string \<Rightarrow> string \<Rightarrow> string \<Rightarrow> 'd \<Rightarrow> sql_return \<times> 'd"
  SQLDriverConnect :: "string \<Rightarrow> 'd \<Rightarrow> sql_return \<times> 'd"
  SQLDisconnect :: "'d \<Rightarrow> sql_return \<times> 'd"
  SQLSetIsolation :: "isolation \<Rightarrow> 'd \<Rightarrow> sql_return \<times> 'd"
  SQLSetAutocommit :: "bool \<Rightarrow> 'd \<Rightarrow> sql_return \<times> 'd"
  SQLEndTran :: "bool \<Rightarrow> 'd \<Rightarrow> sql_return \<times> 'd"
  SQLAllocStmt :: "'d \<Rightarrow> sql_return \<times> 'd"
  SQLPrepare :: "string \<Rightarrow> 'd \<Rightarrow> sql_return \<times> 'd"
  SQLCloseCursor :: "'d \<Rightarrow> 'd"
  SQLBindParameter :: "nat \<Rightarrow> string option \<Rightarrow> 'd \<Rightarrow> sql_return \<times> 'd"
  SQLExecute :: "'d \<Rightarrow> sql_return \<times> 'd"
  SQLExecDirect :: "string \<Rightarrow> 'd \<Rightarrow> sql_return \<times> 'd"
  SQLNumResultCols :: "'d \<Rightarrow> sql_return \<times> nat"
  SQLDescribeCol :: "nat \<Rightarrow> 'd \<Rightarrow> sql_return \<times> string"
  SQLFetch :: "'d \<Rightarrow> sql_return \<times> 'd"
  SQLGetData :: "int \<Rightarrow> 'd \<Rightarrow> (sql_return \<times> string \<times> int) \<times> 'd"
  SQLGetDiagRec :: "nat \<Rightarrow> 'd \<Rightarrow> sql_return \<times> string \<times> string"

definition SQL_MAX_MESSAGE_LENGTH :: nat where "SQL_MAX_MESSAGE_LENGTH = 512"

definition SQL_NO_TOTAL :: int where "SQL_NO_TOTAL = -4"

text \<open>The exceptions, by what they report, with the diagnostic text of the driver.\<close>

datatype db_error =
    No_Connect string | No_Isolation string | No_Autocommit bool string | End_Failed bool string
  | No_Statement | No_Prepare string | No_Bind string | No_Execute string | No_Columns string | No_Column string
  | No_Fetch string | No_Data string | Out_Of_Range

definition get_error :: "'d odbc \<Rightarrow> 'd \<Rightarrow> string" where
  "get_error drv d =
     (let (r, state, message) = SQLGetDiagRec drv SQL_MAX_MESSAGE_LENGTH d
      in if r = SQL_SUCCESS then ''['' @ state @ '']'' @ message else [])"

subsection \<open>Connections\<close>

record 'd connection =
  hdbc :: 'd
  is_open :: bool

definition conn_close :: "'d odbc \<Rightarrow> 'd connection \<Rightarrow> 'd connection" where
  "conn_close drv c =
     (if is_open c then c\<lparr>hdbc := snd (SQLDisconnect drv (hdbc c)), is_open := False\<rparr> else c\<lparr>is_open := False\<rparr>)"

definition connected :: "'d odbc \<Rightarrow> sql_return \<times> 'd \<Rightarrow> 'd connection \<Rightarrow> (db_error + unit) \<times> 'd connection" where
  "connected drv rd c =
     (if sql_ok (fst rd) then (Inr (), c\<lparr>hdbc := snd rd, is_open := True\<rparr>)
      else (Inl (No_Connect (get_error drv (snd rd))), c\<lparr>hdbc := snd rd\<rparr>))"

definition conn_open ::
  "'d odbc \<Rightarrow> string \<Rightarrow> string \<Rightarrow> string \<Rightarrow> 'd connection \<Rightarrow> (db_error + unit) \<times> 'd connection" where
  "conn_open drv dsn user password c =
     (let c = conn_close drv c
      in connected drv (SQLConnect drv (c_str dsn) (c_str user) (c_str password) (hdbc c)) c)"

definition conn_open_string :: "'d odbc \<Rightarrow> string \<Rightarrow> 'd connection \<Rightarrow> (db_error + unit) \<times> 'd connection" where
  "conn_open_string drv s c =
     (let c = conn_close drv c in connected drv (SQLDriverConnect drv s (hdbc c)) c)"

definition begin_transaction :: "'d odbc \<Rightarrow> isolation \<Rightarrow> 'd connection \<Rightarrow> (db_error + unit) \<times> 'd connection" where
  "begin_transaction drv level c =
     (let (r, d) = SQLSetIsolation drv level (hdbc c)
      in if \<not> sql_ok r then (Inl (No_Isolation (get_error drv d)), c\<lparr>hdbc := d\<rparr>)
         else let (r, d) = SQLSetAutocommit drv False d
              in if \<not> sql_ok r then (Inl (No_Autocommit False (get_error drv d)), c\<lparr>hdbc := d\<rparr>)
                 else (Inr (), c\<lparr>hdbc := d\<rparr>))"

text \<open>\<open>commit\<close> and \<open>rollback\<close>, which differ in what they ask \<open>SQLEndTran\<close> for.\<close>

definition end_transaction :: "bool \<Rightarrow> 'd odbc \<Rightarrow> 'd connection \<Rightarrow> (db_error + unit) \<times> 'd connection" where
  "end_transaction commit drv c =
     (let (r, d) = SQLEndTran drv commit (hdbc c)
      in if \<not> sql_ok r then (Inl (End_Failed commit (get_error drv d)), c\<lparr>hdbc := d\<rparr>)
         else let (r, d) = SQLSetAutocommit drv True d
              in if \<not> sql_ok r then (Inl (No_Autocommit True (get_error drv d)), c\<lparr>hdbc := d\<rparr>)
                 else (Inr (), c\<lparr>hdbc := d\<rparr>))"

subsection \<open>The text of a statement\<close>

record parameter =
  p_name :: string
  p_value :: string

record field =
  f_number :: nat
  f_name :: string

record 'd query =
  stmt :: 'd
  prmcnt :: int
  fldcnt :: int
  params :: "parameter list"
  q_fields :: "field list"

definition name_char :: "char \<Rightarrow> bool" where
  "name_char c = (is_alnum c \<or> c = CHR ''_'')"

abbreviation "no_parameter \<equiv> \<lparr>p_name = [], p_value = []\<rparr>"

text \<open>The loop of \<open>parse\<close>: the two quote flags, the rest of the statement, and what has been produced.\<close>

function parse_loop :: "bool \<Rightarrow> bool \<Rightarrow> string \<Rightarrow> string \<Rightarrow> parameter list \<Rightarrow> string \<times> parameter list" where
  "parse_loop ssq dsq [] q ps = (q, ps)"
| "parse_loop ssq dsq (c # cs) q ps =
     (if c = CHR 0x27 then parse_loop (\<not> ssq) dsq cs (q @ [c]) ps
      else if c = CHR 0x22 then parse_loop ssq (\<not> dsq) cs (q @ [c]) ps
      else if c = CHR ''?'' then
        parse_loop ssq dsq cs (q @ [c]) (if \<not> ssq \<and> \<not> dsq then ps @ [no_parameter] else ps)
      else if c = CHR '':'' then
        (if \<not> ssq \<and> \<not> dsq then
           parse_loop ssq dsq (dropWhile name_char cs) (q @ ''?'')
             (ps @ [\<lparr>p_name = takeWhile name_char cs, p_value = []\<rparr>])
         else parse_loop ssq dsq cs (q @ [c]) ps)
      else parse_loop ssq dsq cs (q @ [c]) ps)"
  by pat_completeness auto
termination
  by (relation "measure (\<lambda>(_, _, s, _). length s)") (auto simp: less_Suc_eq_le length_dropWhile_le)

definition parse_statement :: "string \<Rightarrow> string \<times> parameter list" where
  "parse_statement statement = parse_loop False False statement [] []"

subsection \<open>Queries\<close>

definition query_new :: "'d odbc \<Rightarrow> 'd \<Rightarrow> (db_error + 'd query) \<times> 'd" where
  "query_new drv d =
     (let (r, d) = SQLAllocStmt drv d
      in (if sql_ok r then Inr \<lparr>stmt = d, prmcnt = 0, fldcnt = 0, params = [], q_fields = []\<rparr> else Inl No_Statement, d))"

definition prepare :: "'d odbc \<Rightarrow> string \<Rightarrow> 'd query \<Rightarrow> (db_error + parameter list) \<times> 'd query" where
  "prepare drv statement q =
     (let (s, ps) = parse_statement statement; (r, d) = SQLPrepare drv (c_str s) (stmt q); q = q\<lparr>stmt := d, params := ps\<rparr>
      in if sql_ok r then (Inr ps, q) else (Inl (No_Prepare (get_error drv d)), q))"

fun describe_loop :: "'d odbc \<Rightarrow> nat list \<Rightarrow> 'd query \<Rightarrow> (db_error + unit) \<times> 'd query" where
  "describe_loop drv [] q = (Inr (), q)"
| "describe_loop drv (i # is) q =
     (let (r, name) = SQLDescribeCol drv i (stmt q)
      in if \<not> sql_ok r then (Inl (No_Column (get_error drv (stmt q))), q)
         else describe_loop drv is (q\<lparr>q_fields := q_fields q @ [\<lparr>f_number = i - 1, f_name = c_str name\<rparr>]\<rparr>))"

definition retrieve_metadata :: "'d odbc \<Rightarrow> 'd query \<Rightarrow> (db_error + unit) \<times> 'd query" where
  "retrieve_metadata drv q =
     (let (r, cnt) = SQLNumResultCols drv (stmt q)
      in if \<not> sql_ok r then (Inl (No_Columns (get_error drv (stmt q))), q)
         else describe_loop drv [1..<cnt + 1] q)"

text \<open>An empty value is bound as \<open>NULL\<close>.\<close>

definition bound_value :: "parameter \<Rightarrow> string option" where
  "bound_value p = (if p_value p = [] then None else Some (c_str (p_value p)))"

fun bind_loop :: "'d odbc \<Rightarrow> nat \<Rightarrow> parameter list \<Rightarrow> 'd \<Rightarrow> (db_error + unit) \<times> 'd" where
  "bind_loop drv num [] d = (Inr (), d)"
| "bind_loop drv num (p # ps) d =
     (let (r, d) = SQLBindParameter drv num (bound_value p) d
      in if \<not> sql_ok r then (Inl (No_Bind (get_error drv d)), d) else bind_loop drv (num + 1) ps d)"

definition finish_execute :: "'d odbc \<Rightarrow> sql_return \<times> 'd \<Rightarrow> 'd query \<Rightarrow> (db_error + field list) \<times> 'd query" where
  "finish_execute drv rd q =
     (let q = q\<lparr>stmt := snd rd\<rparr>
      in if \<not> sql_ok (fst rd) \<and> fst rd \<noteq> SQL_NO_DATA then (Inl (No_Execute (get_error drv (snd rd))), q)
         else case retrieve_metadata drv q of
                (Inl e, q) \<Rightarrow> (Inl e, q)
              | (Inr _, q) \<Rightarrow> (Inr (q_fields q), q))"

definition execute :: "'d odbc \<Rightarrow> 'd query \<Rightarrow> (db_error + field list) \<times> 'd query" where
  "execute drv q =
     (case bind_loop drv 1 (params q) (SQLCloseCursor drv (stmt q)) of
        (Inl e, d) \<Rightarrow> (Inl e, q\<lparr>stmt := d\<rparr>)
      | (Inr _, d) \<Rightarrow> finish_execute drv (SQLExecute drv d) q)"

definition execute_statement :: "'d odbc \<Rightarrow> string \<Rightarrow> 'd query \<Rightarrow> (db_error + field list) \<times> 'd query" where
  "execute_statement drv statement q =
     finish_execute drv (SQLExecDirect drv (c_str statement) (SQLCloseCursor drv (stmt q))) q"

subsection \<open>Parameters\<close>

definition set_parameter :: "int \<Rightarrow> string \<Rightarrow> 'd query \<Rightarrow> (db_error + unit) \<times> 'd query" where
  "set_parameter num v q =
     (if 0 \<le> num \<and> nat num < length (params q)
      then (Inr (), q\<lparr>params := (params q)[nat num := (params q ! nat num)\<lparr>p_value := v\<rparr>]\<rparr>)
      else (Inl Out_Of_Range, q))"

text \<open>What stands on the right of \<open><<\<close>.\<close>

datatype operand = Text string | Number int | Flush

definition assign_operand :: "'d odbc \<Rightarrow> operand \<Rightarrow> 'd query \<Rightarrow> (db_error + unit) \<times> 'd query" where
  "assign_operand drv x q = (case x of
     Text v \<Rightarrow> set_parameter (prmcnt q) v q
   | Number i \<Rightarrow> set_parameter (prmcnt q) (to_string_int i) q
   | Flush \<Rightarrow> (case execute drv q of
       (Inl e, q) \<Rightarrow> (Inl e, q)
     | (Inr _, q) \<Rightarrow> (Inr (), q\<lparr>prmcnt := -1\<rparr>)))"

definition put_operand :: "'d odbc \<Rightarrow> operand \<Rightarrow> 'd query \<Rightarrow> (db_error + unit) \<times> 'd query" where
  "put_operand drv x q = (case assign_operand drv x q of
     (Inl e, q) \<Rightarrow> (Inl e, q)
   | (Inr _, q) \<Rightarrow> (Inr (), q\<lparr>prmcnt := prmcnt q + 1\<rparr>))"

text \<open>A chain of \<open><<\<close>, which an exception ends.\<close>

fun put_chain :: "'d odbc \<Rightarrow> operand list \<Rightarrow> 'd query \<Rightarrow> (db_error + unit) \<times> 'd query" where
  "put_chain drv [] q = (Inr (), q)"
| "put_chain drv (x # xs) q = (case put_operand drv x q of
     (Inl e, q) \<Rightarrow> (Inl e, q)
   | (Inr _, q) \<Rightarrow> put_chain drv xs q)"

subsection \<open>Rows\<close>

definition next_row :: "'d odbc \<Rightarrow> 'd query \<Rightarrow> (db_error + bool) \<times> 'd query" where
  "next_row drv q =
     (let (r, d) = SQLFetch drv (stmt q); q = q\<lparr>stmt := d, fldcnt := 0\<rparr>;
          (r', state, _) = SQLGetDiagRec drv 0 d
      in if r = SQL_SUCCESS then (Inr True, q)
         else if r \<noteq> SQL_NO_DATA then
           (if r = SQL_ERROR \<and> sql_ok r' \<and> state = ''24000'' then (Inr False, q)
            else (Inl (No_Fetch (get_error drv d)), q))
         else (Inr False, q))"

text \<open>The loop of \<open>get_field\<close> over the pieces of a column.  Writing a negative number of bytes, for a column
  that is \<open>NULL\<close>, writes none.\<close>

partial_function (option) get_data_loop :: "'d odbc \<Rightarrow> int \<Rightarrow> 'd \<Rightarrow> string \<Rightarrow> ((db_error + string) \<times> 'd) option" where
  "get_data_loop drv num d s =
     (let ((r, buffer, size), d) = SQLGetData drv (num + 1) d
      in if r = SQL_NO_DATA then Some (Inr s, d)
         else if r = SQL_ERROR then Some (Inl (No_Data (get_error drv d)), d)
         else if r = SQL_SUCCESS then Some (Inr (s @ take (nat size) buffer), d)
         else get_data_loop drv num d
                (s @ take (nat (if size > 255 \<or> size = SQL_NO_TOTAL then 255 else size)) buffer))"

definition get_field :: "'d odbc \<Rightarrow> int \<Rightarrow> 'd query \<Rightarrow> ((db_error + string) \<times> 'd query) option" where
  "get_field drv num q = (case get_data_loop drv num (stmt q) [] of
     None \<Rightarrow> None
   | Some (r, d) \<Rightarrow> Some (r, q\<lparr>stmt := d\<rparr>))"

definition get_field_int :: "'d odbc \<Rightarrow> int \<Rightarrow> 'd query \<Rightarrow> ((db_error + int) \<times> 'd query) option" where
  "get_field_int drv num q = (case get_field drv num q of
     None \<Rightarrow> None
   | Some (Inl e, q) \<Rightarrow> Some (Inl e, q)
   | Some (Inr s, q) \<Rightarrow> Some (Inr (from_string_int s), q))"

text \<open>\<open>>>\<close> reads the next field of the row.\<close>

definition get_operand :: "'d odbc \<Rightarrow> 'd query \<Rightarrow> ((db_error + string) \<times> 'd query) option" where
  "get_operand drv q = (case get_field drv (fldcnt q) q of
     None \<Rightarrow> None
   | Some (Inl e, q) \<Rightarrow> Some (Inl e, q)
   | Some (Inr s, q) \<Rightarrow> Some (Inr s, q\<lparr>fldcnt := fldcnt q + 1\<rparr>))"

section \<open>Properties\<close>

subsection \<open>Statements\<close>

text \<open>A statement as what it is made of: plain text, quoted text, and the two forms of parameters.\<close>

datatype sql_item = Plain string | Quoted char string | Anonymous | Named string

fun item_text :: "sql_item \<Rightarrow> string" where
  "item_text (Plain s) = s"
| "item_text (Quoted c s) = c # s @ [c]"
| "item_text Anonymous = ''?''"
| "item_text (Named n) = CHR '':'' # n"

fun item_sql :: "sql_item \<Rightarrow> string" where
  "item_sql (Named n) = ''?''"
| "item_sql i = item_text i"

fun item_params :: "sql_item \<Rightarrow> parameter list" where
  "item_params Anonymous = [no_parameter]"
| "item_params (Named n) = [\<lparr>p_name = n, p_value = []\<rparr>]"
| "item_params _ = []"

fun item_ok :: "sql_item \<Rightarrow> string \<Rightarrow> bool" where
  "item_ok (Plain s) r = (\<forall>c \<in> set s. c \<notin> {CHR 0x27, CHR 0x22, CHR ''?'', CHR '':''})"
| "item_ok (Quoted c s) r = (c \<in> {CHR 0x27, CHR 0x22} \<and> (\<forall>c \<in> set s. c \<notin> {CHR 0x27, CHR 0x22}))"
| "item_ok Anonymous r = True"
| "item_ok (Named n) r = (list_all name_char n \<and> (r = [] \<or> \<not> name_char (hd r)))"

fun items_ok :: "sql_item list \<Rightarrow> bool" where
  "items_ok [] = True"
| "items_ok (i # is) = (item_ok i (concat (map item_text is)) \<and> items_ok is)"

lemma parse_plain:
  "\<forall>c \<in> set s. c \<notin> {CHR 0x27, CHR 0x22, CHR ''?'', CHR '':''} \<Longrightarrow>
     parse_loop ssq dsq (s @ r) q ps = parse_loop ssq dsq r (q @ s) ps"
  by (induction s arbitrary: q) auto

lemma parse_quoted:
  "ssq \<or> dsq \<Longrightarrow> \<forall>c \<in> set s. c \<notin> {CHR 0x27, CHR 0x22} \<Longrightarrow>
     parse_loop ssq dsq (s @ r) q ps = parse_loop ssq dsq r (q @ s) ps"
  by (induction s arbitrary: q) auto

lemma name_span:
  assumes "list_all name_char n" "r = [] \<or> \<not> name_char (hd r)"
  shows "takeWhile name_char (n @ r) = n \<and> dropWhile name_char (n @ r) = r"
  using assms by (cases r) (simp_all add: list_all_iff)

lemma parse_item:
  "item_ok i r \<Longrightarrow> parse_loop False False (item_text i @ r) q ps = parse_loop False False r (q @ item_sql i) (ps @ item_params i)"
proof (cases i)
  case (Quoted c s)
  moreover assume "item_ok i r"
  ultimately show ?thesis by (auto simp: parse_quoted)
qed (simp_all add: parse_plain name_span)

lemma parse_items:
  "items_ok is \<Longrightarrow> parse_loop False False (concat (map item_text is)) q ps =
     (q @ concat (map item_sql is), ps @ concat (map item_params is))"
  by (induction "is" arbitrary: q ps) (simp_all add: parse_item)

text \<open>What the loop appends to its output, it copies when it meets it again.\<close>

definition reparses :: "bool \<Rightarrow> bool \<Rightarrow> string \<Rightarrow> string \<Rightarrow> parameter list \<Rightarrow> bool" where
  "reparses ssq dsq s q ps = (\<exists>t us. parse_loop ssq dsq s q ps = (q @ t, ps @ us) \<and>
     (\<forall>q ps. parse_loop ssq dsq t q ps = (q @ t, ps @ map (\<lambda>_. no_parameter) us)))"

lemma reparses_step:
  assumes "parse_loop ssq dsq s q ps = parse_loop ssq' dsq' s' (q @ [x]) (ps @ us)" "reparses ssq' dsq' s' (q @ [x]) (ps @ us)"
    and "\<And>t q ps. parse_loop ssq dsq (x # t) q ps = parse_loop ssq' dsq' t (q @ [x]) (ps @ map (\<lambda>_. no_parameter) us)"
  shows "reparses ssq dsq s q ps"
proof -
  obtain t us' where "parse_loop ssq' dsq' s' (q @ [x]) (ps @ us) = ((q @ [x]) @ t, (ps @ us) @ us')"
    and "\<And>q ps. parse_loop ssq' dsq' t q ps = (q @ t, ps @ map (\<lambda>_. no_parameter) us')"
    using assms(2) unfolding reparses_def by blast
  then show ?thesis unfolding reparses_def
    by (intro exI [of _ "x # t"] exI [of _ "us @ us'"]) (simp add: assms(1,3) del: parse_loop.simps)
qed

lemma parse_loop_reparses: "reparses ssq dsq s q ps"
proof (induction ssq dsq s q ps rule: parse_loop.induct)
  case (1 ssq dsq q ps)
  then show ?case by (simp add: reparses_def)
next
  case (2 ssq dsq c cs q ps)
  note IH = "2.IH"
  note step = reparses_step [of ssq dsq "c # cs" q ps]
  consider "c = CHR 0x27" | "c = CHR 0x22" | "c = CHR ''?''" | "c = CHR '':''" "\<not> ssq" "\<not> dsq"
    | "c = CHR '':''" "ssq \<or> dsq" | "c \<notin> {CHR 0x27, CHR 0x22, CHR ''?'', CHR '':''}"
    by blast
  then show ?case
  proof cases
    case 1
    then show ?thesis using IH(1) by (intro step [of "\<not> ssq" dsq cs c "[]"]) simp_all
  next
    case 2
    then show ?thesis using IH(2) by (intro step [of ssq "\<not> dsq" cs c "[]"]) simp_all
  next
    case 3
    then show ?thesis using IH(3)
      by (intro step [of ssq dsq cs c "if \<not> ssq \<and> \<not> dsq then [no_parameter] else []"]) (auto split: if_splits)
  next
    case 4
    then show ?thesis using IH(4)
      by (intro step [of ssq dsq "dropWhile name_char cs" "CHR ''?''" "[\<lparr>p_name = takeWhile name_char cs, p_value = []\<rparr>]"])
        simp_all
  next
    case 5
    then show ?thesis using IH(5) by (intro step [of ssq dsq cs c "[]"]) auto
  next
    case 6
    then show ?thesis using IH(6) by (intro step [of ssq dsq cs c "[]"]) simp_all
  qed
qed



text \<open>Whatever the statement, the driver finds as many markers in the text it gets as there are parameters, and
  the text is a fixed point.\<close>

theorem parse_idempotent:
  "parse_statement (fst (parse_statement s)) = (fst (parse_statement s), map (\<lambda>_. no_parameter) (snd (parse_statement s)))"
  using parse_loop_reparses [of False False s "[]" "[]"] by (auto simp: parse_statement_def reparses_def)

text \<open>A quote of one kind inside quotes of the other kind hides the parameters after it.\<close>

theorem apostrophe_hides_parameter:
  "parse_statement (''select '' @ [CHR 0x22] @ ''it's'' @ [CHR 0x22] @ '' where a = :id'') =
     (''select '' @ [CHR 0x22] @ ''it's'' @ [CHR 0x22] @ '' where a = :id'', [])"
  by code_simp

subsection \<open>Executing\<close>

lemma describe_loop_fields:
  "describe_loop drv is q = (r, q') \<Longrightarrow>
     \<exists>fs. q' = q\<lparr>q_fields := q_fields q @ fs\<rparr> \<and> (r = Inr () \<longrightarrow> length fs = length is)"
proof (induction "is" arbitrary: q)
  case (Cons i "is")
  obtain x n where x: "SQLDescribeCol drv i (stmt q) = (x, n)" by fastforce
  let ?f = "\<lparr>f_number = i - 1, f_name = c_str n\<rparr>"
  show ?case
  proof (cases "sql_ok x")
    case True
    with Cons.prems x have "describe_loop drv is (q\<lparr>q_fields := q_fields q @ [?f]\<rparr>) = (r, q')" by simp
    from Cons.IH [OF this] obtain fs where
      "q' = q\<lparr>q_fields := q_fields q @ ?f # fs\<rparr>" "r = Inr () \<longrightarrow> length fs = length is" by auto
    then show ?thesis by (intro exI [of _ "?f # fs"]) simp
  next
    case False
    then show ?thesis using Cons.prems x by (intro exI [of _ "[]"]) auto
  qed
qed simp

lemma prmcnt_last:
  "q\<lparr>prmcnt := k, q_fields := fs\<rparr> = q\<lparr>q_fields := fs, prmcnt := k\<rparr>" "q\<lparr>prmcnt := k, stmt := d\<rparr> = q\<lparr>stmt := d, prmcnt := k\<rparr>"
  by simp_all

lemma describe_loop_prmcnt:
  "describe_loop drv is (q\<lparr>prmcnt := k\<rparr>) = map_prod id (prmcnt_update (\<lambda>_. k)) (describe_loop drv is q)"
proof (induction "is" arbitrary: q)
  case (Cons i "is")
  obtain x n where "SQLDescribeCol drv i (stmt q) = (x, n)" by fastforce
  then show ?case using Cons.IH [of "q\<lparr>q_fields := q_fields q @ [\<lparr>f_number = i - 1, f_name = c_str n\<rparr>]\<rparr>"] by (simp add: prmcnt_last)
qed simp

lemma retrieve_metadata_prmcnt:
  "retrieve_metadata drv (q\<lparr>prmcnt := k\<rparr>) = map_prod id (prmcnt_update (\<lambda>_. k)) (retrieve_metadata drv q)"
  by (simp add: retrieve_metadata_def describe_loop_prmcnt split: prod.split)

text \<open>The counter of \<open><<\<close> has no influence on an execution.\<close>

lemma execute_prmcnt: "execute drv (q\<lparr>prmcnt := k\<rparr>) = map_prod id (prmcnt_update (\<lambda>_. k)) (execute drv q)"
proof -
  have "finish_execute drv rd (q\<lparr>prmcnt := k\<rparr>) = map_prod id (prmcnt_update (\<lambda>_. k)) (finish_execute drv rd q)" for rd
    using retrieve_metadata_prmcnt [of drv k "q\<lparr>stmt := snd rd\<rparr>"]
    by (simp add: finish_execute_def Let_def prmcnt_last split: prod.split sum.split)
  then show ?thesis by (simp add: execute_def prmcnt_last split: prod.split sum.split)
qed

text \<open>An execution changes the driver and the fields, and nothing else of the query.\<close>

lemma execute_frame:
  "execute drv q = (r, q') \<Longrightarrow>
     params q' = params q \<and> prmcnt q' = prmcnt q \<and> fldcnt q' = fldcnt q \<and> (\<exists>fs. q_fields q' = q_fields q @ fs)"
proof -
  have m: "params q' = params q \<and> prmcnt q' = prmcnt q \<and> fldcnt q' = fldcnt q \<and> (\<exists>fs. q_fields q' = q_fields q @ fs)"
    if "retrieve_metadata drv q = (r, q')" for r and q q' :: "'a query"
    using that by (auto simp: retrieve_metadata_def split: prod.splits if_splits dest: describe_loop_fields)
  assume "execute drv q = (r, q')"
  then show ?thesis
    by (auto simp: execute_def finish_execute_def Let_def split: prod.splits sum.splits if_splits dest!: m)
qed

text \<open>The fields of an earlier execution stay in front of those of a later one.\<close>

theorem fields_accumulate: "execute drv q = (Inr fs, q') \<Longrightarrow> \<exists>new. fs = q_fields q @ new"
proof -
  assume e: "execute drv q = (Inr fs, q')"
  then have "fs = q_fields q'"
    by (auto simp: execute_def finish_execute_def Let_def split: prod.splits sum.splits if_splits)
  with execute_frame [OF e] show ?thesis by simp
qed

subsection \<open>Assigning parameters\<close>

fun operand_text :: "operand \<Rightarrow> string" where
  "operand_text (Text v) = v"
| "operand_text (Number i) = to_string_int i"
| "operand_text Flush = []"

definition with_values :: "parameter list \<Rightarrow> operand list \<Rightarrow> parameter list" where
  "with_values ps xs = map2 (\<lambda>p x. p\<lparr>p_value := operand_text x\<rparr>) ps xs"

lemma put_value:
  assumes "x \<noteq> Flush" "prmcnt q = int k" "params q = as @ p # bs" "length as = k"
  shows "put_operand drv x q = (Inr (), q\<lparr>params := as @ p\<lparr>p_value := operand_text x\<rparr> # bs, prmcnt := int (Suc k)\<rparr>)"
  using assms by (cases x) (simp_all add: put_operand_def assign_operand_def set_parameter_def list_update_append nth_append add.commute)

lemma put_values:
  "Flush \<notin> set xs \<Longrightarrow> prmcnt q = int (length as) \<Longrightarrow> params q = as @ ps \<Longrightarrow> length xs = length ps \<Longrightarrow>
     put_chain drv (xs @ ys) q =
     put_chain drv ys (q\<lparr>params := as @ with_values ps xs, prmcnt := int (length as + length xs)\<rparr>)"
proof (induction xs arbitrary: q as ps)
  case Nil
  then have "q\<lparr>params := as, prmcnt := int (length as)\<rparr> = q" by (cases q) simp
  then show ?case using Nil.prems(4) by (simp add: with_values_def)
next
  case (Cons x xs)
  then obtain p bs where ps: "ps = p # bs" by (cases ps) auto
  let ?p = "p\<lparr>p_value := operand_text x\<rparr>"
  have "put_chain drv (x # xs @ ys) q =
      put_chain drv (xs @ ys) (q\<lparr>params := as @ ?p # bs, prmcnt := int (Suc (length as))\<rparr>)"
    using put_value [of x q "length as" as p bs drv] Cons.prems ps by auto
  also have "\<dots> = put_chain drv ys (q\<lparr>params := (as @ [?p]) @ with_values bs xs,
      prmcnt := int (length (as @ [?p]) + length xs)\<rparr>)"
    using Cons.IH [of "q\<lparr>params := as @ ?p # bs, prmcnt := int (Suc (length as))\<rparr>" "as @ [?p]" bs] Cons.prems ps
    by simp
  finally show ?case by (simp add: with_values_def ps)
qed

text \<open>What the rows ask for: to execute the statement once for each row, with the values of that row.\<close>

fun execute_rows :: "'d odbc \<Rightarrow> operand list list \<Rightarrow> 'd query \<Rightarrow> (db_error + unit) \<times> 'd query" where
  "execute_rows drv [] q = (Inr (), q)"
| "execute_rows drv (r # rs) q = (case execute drv (q\<lparr>params := with_values (params q) r\<rparr>) of
     (Inl e, q) \<Rightarrow> (Inl e, q)
   | (Inr _, q) \<Rightarrow> execute_rows drv rs q)"

lemma put_row:
  assumes "Flush \<notin> set r" "length r = length (params q)" "prmcnt q = 0"
  shows "put_chain drv (r @ Flush # ys) q = (case execute drv (q\<lparr>params := with_values (params q) r\<rparr>) of
     (Inl e, q) \<Rightarrow> (Inl e, q\<lparr>prmcnt := int (length r)\<rparr>)
   | (Inr _, q) \<Rightarrow> put_chain drv ys q)"
proof -
  let ?q = "q\<lparr>params := with_values (params q) r\<rparr>"
  have "put_chain drv (r @ Flush # ys) q = put_chain drv (Flush # ys) (?q\<lparr>prmcnt := int (length r)\<rparr>)"
    using put_values [of r q "[]" "params q" drv "Flush # ys"] assms by simp
  moreover obtain x q' where e: "execute drv ?q = (x, q')" by fastforce
  moreover have "prmcnt q' = 0" using execute_frame [OF e] assms(3) by simp
  then have "q'\<lparr>prmcnt := 0\<rparr> = q'" by (metis query.surjective query.update_convs(2))
  ultimately show ?thesis using execute_prmcnt [of drv "int (length r)" ?q]
    by (simp add: put_operand_def assign_operand_def split: sum.split)
qed


text \<open>A driver that records what it is asked to bind and to execute.\<close>

definition recording :: "(nat \<times> string option) list odbc" where
  "recording = \<lparr>SQLConnect = \<lambda>_ _ _ d. (SQL_SUCCESS, d), SQLDriverConnect = \<lambda>_ d. (SQL_SUCCESS, d),
     SQLDisconnect = \<lambda>d. (SQL_SUCCESS, d), SQLSetIsolation = \<lambda>_ d. (SQL_SUCCESS, d),
     SQLSetAutocommit = \<lambda>_ d. (SQL_SUCCESS, d), SQLEndTran = \<lambda>_ d. (SQL_SUCCESS, d),
     SQLAllocStmt = \<lambda>d. (SQL_SUCCESS, d), SQLPrepare = \<lambda>_ d. (SQL_SUCCESS, d), SQLCloseCursor = \<lambda>d. d,
     SQLBindParameter = \<lambda>n v d. (SQL_SUCCESS, d @ [(n, v)]), SQLExecute = \<lambda>d. (SQL_NO_DATA, d @ [(0, None)]),
     SQLExecDirect = \<lambda>_ d. (SQL_SUCCESS, d), SQLNumResultCols = \<lambda>_. (SQL_SUCCESS, 0),
     SQLDescribeCol = \<lambda>_ _. (SQL_SUCCESS, []), SQLFetch = \<lambda>d. (SQL_NO_DATA, d),
     SQLGetData = \<lambda>_ d. ((SQL_NO_DATA, [], 0), d), SQLGetDiagRec = \<lambda>_ _. (SQL_NO_DATA, [], [])\<rparr>"


text \<open>\<open>prepare\<close> leaves the counter where it is: after the parameters of one statement have been assigned without
  a flush, the first parameter of the next statement is out of range.\<close>

lemma prepare_prmcnt: "prmcnt (snd (prepare drv statement q)) = prmcnt q"
  by (simp add: prepare_def Let_def split: prod.split)

theorem second_statement_out_of_range:
  assumes "prepare drv statement q = (Inr ps, q')" "prmcnt q = int (length ps)"
  shows "put_operand drv (Text v) q' = (Inl Out_Of_Range, q')"
proof -
  have "params q' = ps" using assms(1) by (auto simp: prepare_def Let_def split: prod.splits if_splits)
  moreover have "prmcnt q' = int (length ps)" using prepare_prmcnt [of drv statement q] assms by simp
  ultimately show ?thesis by (simp add: put_operand_def assign_operand_def set_parameter_def)
qed

subsection \<open>Reading columns\<close>

text \<open>What ODBC documents of \<open>SQLGetData\<close> with a buffer of 256 bytes: a value is delivered in full buffers of 255
  bytes and a zero, each reporting \<open>SQL_SUCCESS_WITH_INFO\<close> and the bytes that were left or \<open>SQL_NO_TOTAL\<close>, and
  then a last one, which reports \<open>SQL_SUCCESS\<close> and its size.\<close>

inductive delivers :: "'d odbc \<Rightarrow> int \<Rightarrow> 'd \<Rightarrow> string \<Rightarrow> 'd \<Rightarrow> bool" for drv col where
  last: "SQLGetData drv col d = ((SQL_SUCCESS, s @ junk, int (length s)), d') \<Longrightarrow> delivers drv col d s d'"
| more: "SQLGetData drv col d = ((SQL_SUCCESS_WITH_INFO, p @ junk, n), d1) \<Longrightarrow> length p = 255 \<Longrightarrow>
    n > 255 \<or> n = SQL_NO_TOTAL \<Longrightarrow> delivers drv col d1 s d' \<Longrightarrow> delivers drv col d (p @ s) d'"

lemma get_data_loop_delivers:
  "delivers drv (num + 1) d s d' \<Longrightarrow> get_data_loop drv num d t = Some (Inr (t @ s), d')"
proof (induction d s d' arbitrary: t rule: delivers.induct)
  case (last d s junk d')
  then show ?case by (subst get_data_loop.simps) simp
next
  case (more d p junk n d1 s d')
  then show ?case by (subst get_data_loop.simps) auto
qed

text \<open>C39: A column of any length is read completely: when the driver delivers the value in as many buffers as it
  takes, \<open>>>\<close> returns it, and moves on to the next column.\<close>

theorem column_read_completely:
  assumes "delivers drv (fldcnt q + 1) (stmt q) s d'"
  shows "get_operand drv q = Some (Inr s, q\<lparr>stmt := d', fldcnt := fldcnt q + 1\<rparr>)"
  using get_data_loop_delivers [OF assms, of "[]"] by (simp add: get_operand_def get_field_def)

text \<open>A driver with one column: its state is the part of the value that was not delivered yet.\<close>

definition one_column :: "string odbc" where
  "one_column = \<lparr>SQLConnect = \<lambda>_ _ _ d. (SQL_SUCCESS, d), SQLDriverConnect = \<lambda>_ d. (SQL_SUCCESS, d),
     SQLDisconnect = \<lambda>d. (SQL_SUCCESS, d), SQLSetIsolation = \<lambda>_ d. (SQL_SUCCESS, d),
     SQLSetAutocommit = \<lambda>_ d. (SQL_SUCCESS, d), SQLEndTran = \<lambda>_ d. (SQL_SUCCESS, d),
     SQLAllocStmt = \<lambda>d. (SQL_SUCCESS, d), SQLPrepare = \<lambda>_ d. (SQL_SUCCESS, d), SQLCloseCursor = \<lambda>d. d,
     SQLBindParameter = \<lambda>_ _ d. (SQL_SUCCESS, d), SQLExecute = \<lambda>d. (SQL_SUCCESS, d),
     SQLExecDirect = \<lambda>_ d. (SQL_SUCCESS, d), SQLNumResultCols = \<lambda>_. (SQL_SUCCESS, 1),
     SQLDescribeCol = \<lambda>_ _. (SQL_SUCCESS, ''a''), SQLFetch = \<lambda>d. (SQL_SUCCESS, d),
     SQLGetData = \<lambda>_ d. if length d \<le> 255 then ((SQL_SUCCESS, d @ [CHR 0x00], int (length d)), [])
       else ((SQL_SUCCESS_WITH_INFO, take 255 d @ [CHR 0x00], int (length d)), drop 255 d),
     SQLGetDiagRec = \<lambda>_ _. (SQL_NO_DATA, [], [])\<rparr>"

theorem column_read_completely_witness:
  "get_operand one_column \<lparr>stmt = replicate 300 CHR ''x'', prmcnt = 0, fldcnt = 0, params = [], q_fields = []\<rparr> =
     Some (Inr (replicate 300 CHR ''x''), \<lparr>stmt = [], prmcnt = 0, fldcnt = 1, params = [], q_fields = []\<rparr>)"
proof -
  have "delivers one_column 1 (replicate 45 CHR ''x'') (replicate 45 CHR ''x'') []"
    by (rule delivers.last [where junk = "[CHR 0x00]"]) (simp add: one_column_def)
  then have "delivers one_column 1 (replicate 300 CHR ''x'') (replicate 255 CHR ''x'' @ replicate 45 CHR ''x'') []"
    by (rule delivers.more [where junk = "[CHR 0x00]" and n = 300, rotated 3])
      (simp_all add: one_column_def)
  moreover have "replicate 255 CHR ''x'' @ replicate 45 CHR ''x'' = replicate 300 CHR ''x''"
    by (simp add: replicate_add [symmetric])
  ultimately show ?thesis
    using column_read_completely [of one_column
      "\<lparr>stmt = replicate 300 CHR ''x'', prmcnt = 0, fldcnt = 0, params = [], q_fields = []\<rparr>"
      "replicate 300 CHR ''x''" "[]"] by (simp)
qed

subsection \<open>Connections\<close>

datatype conn_op = Open string string string | Open_String string | Close | Begin isolation | End bool

text \<open>The connection after an operation, whether it has thrown or not.\<close>

fun conn_run :: "'d odbc \<Rightarrow> conn_op \<Rightarrow> 'd connection \<Rightarrow> 'd connection" where
  "conn_run drv (Open dsn user password) c = snd (conn_open drv dsn user password c)"
| "conn_run drv (Open_String s) c = snd (conn_open_string drv s c)"
| "conn_run drv Close c = conn_close drv c"
| "conn_run drv (Begin level) c = snd (begin_transaction drv level c)"
| "conn_run drv (End commit) c = snd (end_transaction commit drv c)"

text \<open>What ODBC documents: a successful connect leaves the handle connected, and no call other than
  \<open>SQLDisconnect\<close> ends a connection.\<close>

definition connection_laws :: "'d odbc \<Rightarrow> ('d \<Rightarrow> bool) \<Rightarrow> bool" where
  "connection_laws drv live =
     ((\<forall>a b c d. sql_ok (fst (SQLConnect drv a b c d)) \<longrightarrow> live (snd (SQLConnect drv a b c d))) \<and>
      (\<forall>s d. sql_ok (fst (SQLDriverConnect drv s d)) \<longrightarrow> live (snd (SQLDriverConnect drv s d))) \<and>
      (\<forall>l d. live d \<longrightarrow> live (snd (SQLSetIsolation drv l d))) \<and>
      (\<forall>b d. live d \<longrightarrow> live (snd (SQLSetAutocommit drv b d))) \<and>
      (\<forall>b d. live d \<longrightarrow> live (snd (SQLEndTran drv b d))))"

lemma conn_run_live:
  assumes "connection_laws drv live" "is_open c \<longrightarrow> live (hdbc c)"
  shows "is_open (conn_run drv op c) \<longrightarrow> live (hdbc (conn_run drv op c))"
proof -
  have laws: "sql_ok (fst (SQLConnect drv a b s d)) \<Longrightarrow> live (snd (SQLConnect drv a b s d))"
    "sql_ok (fst (SQLDriverConnect drv s d)) \<Longrightarrow> live (snd (SQLDriverConnect drv s d))"
    "live d \<Longrightarrow> SQLSetIsolation drv l d = (r, d') \<Longrightarrow> live d'" "live d \<Longrightarrow> SQLSetAutocommit drv x d = (r, d') \<Longrightarrow> live d'"
    "live d \<Longrightarrow> SQLEndTran drv x d = (r, d') \<Longrightarrow> live d'" for a b s l x d r d'
    using assms(1) unfolding connection_laws_def by (metis snd_conv)+
  show ?thesis
  proof (cases op)
    case (Begin l)
    then show ?thesis using assms(2) by (auto simp: begin_transaction_def Let_def split: prod.split dest: laws)
  next
    case (End x)
    then show ?thesis using assms(2) by (auto simp: end_transaction_def Let_def split: prod.split dest: laws)
  qed (simp_all add: conn_open_def conn_open_string_def connected_def conn_close_def Let_def laws(1,2))
qed

text \<open>After any sequence of operations on a connection, some of which may have thrown, \<open>is_open()\<close> implies that the
  handle is connected.\<close>

theorem open_means_connected:
  assumes "connection_laws drv live" "\<not> is_open c"
  shows "is_open (fold (conn_run drv) ops c) \<longrightarrow> live (hdbc (fold (conn_run drv) ops c))"
proof -
  have "is_open (fold (conn_run drv) ops c) \<longrightarrow> live (hdbc (fold (conn_run drv) ops c))" if "is_open c \<longrightarrow> live (hdbc c)" for c
    using that by (induction ops arbitrary: c) (simp_all add: conn_run_live [OF assms(1)])
  with assms(2) show ?thesis by blast
qed

theorem open_means_connected_example:
  "is_open (fold (conn_run (recording\<lparr>SQLConnect := \<lambda>_ _ _ d. (SQL_SUCCESS, [(0, None)]), SQLDisconnect := \<lambda>d. (SQL_SUCCESS, [])\<rparr>))
     [Open ''a'' ''b'' ''c'', Begin SERIALIZABLE] \<lparr>hdbc = [], is_open = False\<rparr>)"
  by (simp add: recording_def conn_open_def connected_def conn_close_def begin_transaction_def sql_ok_def)

text \<open>The converse fails: a driver refuses to disconnect in the middle of a transaction, which \<open>close\<close> ignores.\<close>

theorem refused_disconnect_is_forgotten:
  "is_open c \<Longrightarrow> SQLDisconnect drv (hdbc c) = (SQL_ERROR, hdbc c) \<Longrightarrow> conn_close drv c = c\<lparr>is_open := False\<rparr>"
  by (simp add: conn_close_def)

end
