(* ===== verification/Codec.thy ===== *)
theory Codec
  imports Prelude
begin

text \<open>
  The interface of \<open>include/dcl/codec.h\<close>: an encoder and a decoder over byte streams, here with the
  contract its implementations are meant to keep, that decoding undoes encoding on the values the
  codec accepts.  \<open>partial_codec\<close> is the contract relative to a validity predicate,
  \<open>total_codec\<close> the contract on every value.  The interpretations stand in the theories of the
  implementations: base64, percent encoding, the HTTP method names and the textual form of a UUID.
\<close>

locale partial_codec =
  fixes valid :: "'a \<Rightarrow> bool"
    and encode :: "'a \<Rightarrow> 'b"
    and decode :: "'b \<Rightarrow> 'a"
  assumes decode_encode: "valid x \<Longrightarrow> decode (encode x) = x"
begin

lemma encode_eq_iff: "valid x \<Longrightarrow> valid y \<Longrightarrow> encode x = encode y \<longleftrightarrow> x = y"
  by (metis decode_encode)

lemma encode_inj_on: "inj_on encode {x. valid x}"
  by (rule inj_onI) (metis decode_encode mem_Collect_eq)

text \<open>Normalisation of a text through the codec is idempotent.\<close>

lemma normalise_idem: "valid (decode t) \<Longrightarrow> decode (encode (decode t)) = decode t"
  by (rule decode_encode)

text \<open>Independent messages survive being encoded one by one.\<close>

lemma map_decode_encode: "list_all valid xs \<Longrightarrow> map decode (map encode xs) = xs"
  by (induction xs) (auto simp: decode_encode)

end

locale total_codec =
  fixes encode :: "'a \<Rightarrow> 'b"
    and decode :: "'b \<Rightarrow> 'a"
  assumes decode_encode_all: "decode (encode x) = x"

sublocale total_codec \<subseteq> partial_codec "\<lambda>_. True" encode decode
  by unfold_locales (rule decode_encode_all)

context total_codec
begin

lemma encode_inj: "inj encode"
  using encode_inj_on by simp

lemma decode_surj: "surj decode"
  by (metis decode_encode_all surjI)

end

end
