(* ===== verification/Url.thy ===== *)
theory Url
  imports Strutils Codec
begin

text \<open>
  \<open>src/dcl/url.cpp\<close> (the POSIX build): splitting a URL into its parts and printing it back, percent
  encoding, resolution of relative paths.  The service database behind \<open>getservbyname\<close> is the
  parameter \<open>serv\<close>: \<open>serv scheme\<close> is the TCP port registered for a scheme, in host byte order.
\<close>

type_synonym services = "string \<Rightarrow> int option"

record url =
  scheme :: string
  user :: string
  password :: string
  host :: string
  port :: int
  upath :: string
  query :: string
  fragment :: string
  parameters :: string

definition url_new :: url where
  "url_new = \<lparr>scheme = [], user = [], password = [], host = [], port = 0, upath = [], query = [],
     fragment = [], parameters = []\<rparr>"

subsection \<open>Parsing and printing\<close>

text \<open>The scheme test of \<open>parse\<close>: a colon after at least three characters, followed by \<open>//\<close>.\<close>

definition split_scheme :: "string \<Rightarrow> string \<times> string" where
  "split_scheme t =
     (case find_char CHR '':'' t of
        Some pos \<Rightarrow>
          (if pos > 2 \<and> length t > pos + 2 \<and> t ! (pos + 1) = CHR ''/'' \<and> t ! (pos + 2) = CHR ''/''
           then (substr t 0 pos, drop (pos + 3) t) else ([], t))
      | None \<Rightarrow> ([], t))"

definition parse_user :: "url \<Rightarrow> url" where
  "parse_user u =
     (case find_char CHR ''@'' (host u) of
        None \<Rightarrow> u
      | Some pos \<Rightarrow>
          (let usr = substr (host u) 0 pos; u = u\<lparr>host := drop (pos + 1) (host u)\<rparr>
           in case find_char CHR '':'' usr of
                None \<Rightarrow> u\<lparr>user := usr\<rparr>
              | Some p \<Rightarrow> u\<lparr>password := drop (p + 1) usr, user := substr usr 0 p\<rparr>))"

definition parse_port :: "url \<Rightarrow> url" where
  "parse_port u =
     (case find_char CHR '':'' (host u) of
        None \<Rightarrow> u
      | Some pos \<Rightarrow>
          (let s = substr (host u) 0 pos; p = drop (pos + 1) (host u);
               u = (if length p > 0 then u\<lparr>port := from_string_int p\<rparr> else u)
           in u\<lparr>host := s\<rparr>))"

text \<open>Cut everything from the first \<open>c\<close> on: the part after it, if any, and the shortened text.\<close>

definition cut_at :: "char \<Rightarrow> string \<Rightarrow> string option \<times> string" where
  "cut_at c t = (case find_char c t of
     None \<Rightarrow> (None, t) | Some pos \<Rightarrow> (Some (drop (pos + 1) t), take pos t))"

definition parse_tail :: "string \<Rightarrow> url \<Rightarrow> string \<times> url" where
  "parse_tail t u =
     (let (ps, t) = cut_at CHR '';'' t;
          u = (case ps of None \<Rightarrow> u | Some s \<Rightarrow> u\<lparr>parameters := s\<rparr>);
          (fs, t) = cut_at CHR ''#'' t;
          u = (case fs of None \<Rightarrow> u | Some s \<Rightarrow> u\<lparr>fragment := s\<rparr>);
          (qs, t) = cut_at CHR ''?'' t;
          u = (case qs of None \<Rightarrow> u | Some s \<Rightarrow> u\<lparr>query := s\<rparr>)
      in (t, u))"

definition parse :: "services \<Rightarrow> string \<Rightarrow> url \<Rightarrow> url" where
  "parse serv value u =
     (let (sch, t) = split_scheme value;
          u = u\<lparr>scheme := sch\<rparr>;
          (t, u) =
            (if sch = [] then (t, u)
             else case find_char CHR ''/'' t of
                    None \<Rightarrow> ([], u\<lparr>host := t\<rparr>)
                  | Some pos \<Rightarrow> (drop pos t, u\<lparr>host := substr t 0 pos\<rparr>));
          (t, u) =
            (if sch \<noteq> [] \<and> sch \<noteq> ''file'' then
               (let u = (case serv sch of Some p \<Rightarrow> u\<lparr>port := p\<rparr> | None \<Rightarrow> u)
                in parse_tail t (parse_port (parse_user u)))
             else (t, u))
      in u\<lparr>upath := (if t = [] \<or> t ! 0 \<noteq> CHR ''/'' then CHR ''/'' # t else t)\<rparr>)"

definition get_full_path :: "url \<Rightarrow> string" where
  "get_full_path u =
     upath u @ (if query u \<noteq> [] then CHR ''?'' # query u else [])
       @ (if fragment u \<noteq> [] then CHR ''#'' # fragment u else [])
       @ (if parameters u \<noteq> [] then CHR '';'' # parameters u else [])"

definition str_authority :: "services \<Rightarrow> url \<Rightarrow> string" where
  "str_authority serv u =
     (if user u \<noteq> [] then
        user u @ (if password u \<noteq> [] then CHR '':'' # password u @ ''@'' else [])
      else [])
     @ (if host u \<noteq> [] then
          host u @
          (if port u > 0 then
             (case serv (scheme u) of
                Some s_port \<Rightarrow> if s_port \<noteq> port u then CHR '':'' # to_string_int (port u) else []
              | None \<Rightarrow> [])
           else [])
        else [])"

definition url_str :: "services \<Rightarrow> url \<Rightarrow> string" where
  "url_str serv u =
     (let rslt = (if scheme u \<noteq> [] then scheme u @ ''://'' else [])
                 @ str_authority serv u @ get_full_path u
      in if rslt = [] then ''/'' else rslt)"

definition copy_from :: "url \<Rightarrow> url \<Rightarrow> url" where
  "copy_from u this =
     \<lparr>scheme = (if scheme u \<noteq> [] then scheme u else scheme this),
      user = (if user u \<noteq> [] then user u else user this),
      password = (if password u \<noteq> [] then password u else password this),
      host = (if host u \<noteq> [] then host u else host this),
      port = (if port u > 0 then port u else port this),
      upath = (if upath u \<noteq> [] then upath u else upath this),
      query = (if query u \<noteq> [] then query u else query this),
      fragment = (if fragment u \<noteq> [] then fragment u else fragment this),
      parameters = (if parameters u \<noteq> [] then parameters u else parameters this)\<rparr>"

subsection \<open>Percent encoding\<close>

definition escaped :: "char \<Rightarrow> bool" where
  "escaped ch =
     (let c = (of_char ch :: nat)
      in c < 48 \<or> (c > 58 \<and> c < 65) \<or> (c > 91 \<and> c < 97) \<or> c > 123)"

definition encode_char :: "char \<Rightarrow> string" where
  "encode_char c =
     (if escaped c then
        [CHR ''%'', hex_char_upper (of_char c div 16), hex_char_upper (of_char c mod 16)]
      else [c])"

fun url_encode :: "string \<Rightarrow> string" where
  "url_encode [] = []"
| "url_encode (c # s) = encode_char c @ url_encode s"

fun url_decode :: "string \<Rightarrow> string" where
  "url_decode (c # a # b # s) =
     (if c = CHR ''%'' \<and> is_xdigit a \<and> is_xdigit b
      then char_of (nat (strtol 16 [a, b])) # url_decode s
      else (if c = CHR ''+'' then CHR '' '' else c) # url_decode (a # b # s))"
| "url_decode (c # s) = (if c = CHR ''+'' then CHR '' '' else c) # url_decode s"
| "url_decode [] = []"

subsection \<open>Path resolution\<close>

text \<open>
  The loop of \<open>normalize\<close> over the tokens from last to first; \<open>s\<close> counts the elements that pending
  \<open>..\<close> tokens still remove.
\<close>

fun normalize_loop :: "string list \<Rightarrow> nat \<Rightarrow> string \<Rightarrow> string" where
  "normalize_loop [] s acc = acc"
| "normalize_loop (w # ws) s acc =
     (if w = ''..'' then normalize_loop ws (s + 1) acc
      else if w = ''.'' then normalize_loop ws s acc
      else if w = [] then acc
      else if s > 0 then normalize_loop ws (s - 1) acc
      else normalize_loop ws s (CHR ''/'' # w @ acc))"

definition normalize :: "string \<Rightarrow> url \<Rightarrow> url" where
  "normalize base_path u =
     (let p = (if length (upath u) > 0 \<and> (upath u ! 0 = CHR ''/'' \<or> upath u ! 0 = CHR 0x5C)
               then drop 1 (upath u) else upath u)
      in u\<lparr>upath := normalize_loop (rev (tokenize ''/'' (base_path @ p))) 0 []\<rparr>)"

subsection \<open>Percent encoding is undone by decoding\<close>

lemma decode_encode_char:
  "is_xdigit (hex_char_upper (of_char c div 16)) \<and> is_xdigit (hex_char_upper (of_char c mod 16)) \<and>
   char_of (nat (strtol 16 [hex_char_upper (of_char c div 16), hex_char_upper (of_char c mod 16)])) = c"
proof -
  have "(of_char c :: nat) div 16 < 16" using of_char_less_256 [of c] by linarith
  moreover have "(of_char c :: nat) mod 16 < 16" by simp
  ultimately show ?thesis by (simp add: hex_char_upper_props strtol_16_pair)
qed

lemma unescaped_plain: "\<not> escaped c \<Longrightarrow> c \<noteq> CHR ''%'' \<and> c \<noteq> CHR ''+''"
  by (auto simp: escaped_def)

lemma url_decode_plain:
  "c \<noteq> CHR ''%'' \<Longrightarrow> c \<noteq> CHR ''+'' \<Longrightarrow> url_decode (c # s) = c # url_decode s"
  by (cases s rule: url_decode.cases) (auto)

lemma url_decode_encode: "url_decode (url_encode s) = s"
proof (induction s)
  case (Cons c s)
  show ?case
  proof (cases "escaped c")
    case True
    with Cons decode_encode_char show ?thesis by (simp add: encode_char_def)
  next
    case False
    with Cons unescaped_plain show ?thesis by (simp add: encode_char_def url_decode_plain)
  qed
qed simp

interpretation percent: total_codec url_encode url_decode
  by unfold_locales (rule url_decode_encode)

subsection \<open>Printing is undone by parsing\<close>

definition free_of :: "char list \<Rightarrow> string \<Rightarrow> bool" where
  "free_of cs s = list_all (\<lambda>c. c \<notin> set s) cs"

text \<open>
  The URLs that \<open>str\<close> prints without loss: a registered scheme other than \<open>file\<close>, a host, a positive
  port, user and password both present or both absent, an absolute path, and no delimiter inside a
  part that would end it early.
\<close>

definition url_wf :: "services \<Rightarrow> url \<Rightarrow> bool" where
  "url_wf serv u =
     (length (scheme u) > 2 \<and> free_of '':'' (scheme u) \<and> scheme u \<noteq> ''file'' \<and> serv (scheme u) \<noteq> None \<and>
      is_int32 (port u) \<and> port u > 0 \<and>
      host u \<noteq> [] \<and> free_of ''/@:'' (host u) \<and>
      (user u = [] \<and> password u = [] \<or>
       user u \<noteq> [] \<and> password u \<noteq> [] \<and> free_of ''/@:'' (user u) \<and> free_of ''/@'' (password u)) \<and>
      take 1 (upath u) = ''/'' \<and> free_of '';#?'' (upath u) \<and>
      free_of '';#'' (query u) \<and> free_of '';'' (fragment u))"

lemma print_int_free:
  "x > 0 \<Longrightarrow> free_of ''/@:'' (to_string_int x)"
proof -
  assume "x > 0"
  moreover have "digit_char d \<noteq> CHR ''/'' \<and> digit_char d \<noteq> CHR ''@'' \<and> digit_char d \<noteq> CHR '':''"
    if "d < 10" for d
    using less_10_cases [OF that] by (auto simp: digit_char_def char_of_eq_iff)
  ultimately show ?thesis
    using dec_digits_all_digits [of _ "nat x"]
    by (fastforce simp: free_of_def to_string_int_def print_int_def)
qed

lemma split_scheme_str:
  "length s > 2 \<Longrightarrow> free_of '':'' s \<Longrightarrow> split_scheme (s @ ''://'' @ t) = (s, t)"
  using find_char_append_hit [of "CHR '':''" s "''//'' @ t"]
  by (simp add: split_scheme_def free_of_def substr_def nth_append)

lemma cut_at_hit: "c \<notin> set s \<Longrightarrow> cut_at c (s @ c # t) = (Some t, s)"
  by (simp add: cut_at_def find_char_append_hit)

lemma cut_at_miss: "c \<notin> set s \<Longrightarrow> cut_at c s = (None, s)"
  by (simp add: cut_at_def find_char_None [THEN iffD2])

lemma cut_at_optional:
  "c \<notin> set s \<Longrightarrow>
     cut_at c (s @ (if t \<noteq> [] then c # t else [])) = (if t \<noteq> [] then Some t else None, s)"
  by (simp add: cut_at_hit cut_at_miss)

lemma parse_tail_full_path:
  assumes "free_of '';#?'' p" "free_of '';#'' q" "free_of '';'' f"
    and "query u = []" "fragment u = []" "parameters u = []"
  shows "parse_tail (p @ (if q \<noteq> [] then CHR ''?'' # q else []) @ (if f \<noteq> [] then CHR ''#'' # f else [])
       @ (if ps \<noteq> [] then CHR '';'' # ps else [])) u =
     (p, u\<lparr>query := q, fragment := f, parameters := ps\<rparr>)"
proof -
  let ?q = "if q \<noteq> [] then CHR ''?'' # q else []"
  let ?f = "if f \<noteq> [] then CHR ''#'' # f else []"
  have 1: "cut_at CHR '';'' (p @ ?q @ ?f @ (if ps \<noteq> [] then CHR '';'' # ps else [])) =
      (if ps \<noteq> [] then Some ps else None, p @ ?q @ ?f)"
    using cut_at_optional [of "CHR '';''" "p @ ?q @ ?f" ps] assms by (auto simp: free_of_def)
  have 2: "cut_at CHR ''#'' (p @ ?q @ ?f) = (if f \<noteq> [] then Some f else None, p @ ?q)"
    using cut_at_optional [of "CHR ''#''" "p @ ?q" f] assms by (auto simp: free_of_def)
  have 3: "cut_at CHR ''?'' (p @ ?q) = (if q \<noteq> [] then Some q else None, p)"
    using cut_at_optional [of "CHR ''?''" p q] assms by (auto simp: free_of_def)
  show ?thesis
    unfolding parse_tail_def 1 2 3 Let_def split using assms 2 3
    by (cases "ps = []"; cases "f = []"; cases "q = []") simp_all
qed

definition str_hostport :: "int \<Rightarrow> url \<Rightarrow> string" where
  "str_hostport sp u = host u @ (if sp \<noteq> port u then CHR '':'' # to_string_int (port u) else [])"

lemma parse_port_str:
  assumes wf: "url_wf serv u" and v: "host v = str_hostport sp u" "port v = sp"
  shows "parse_port v = v\<lparr>host := host u, port := port u\<rparr>"
proof (cases "sp = port u")
  case True
  then have "find_char CHR '':'' (host v) = None"
    using wf v(1) by (simp add: str_hostport_def url_wf_def free_of_def find_char_None)
  with True v show ?thesis by (simp add: parse_port_def str_hostport_def)
next
  case False
  have ne: "to_string_int (port u) \<noteq> []" by (simp add: to_string_int_def print_int_def)
  have val: "from_string_int (to_string_int (port u)) = port u"
    using wf by (simp add: url_wf_def from_to_string_int)
  have "find_char CHR '':'' (host v) = Some (length (host u))"
    using False wf v(1) by (simp add: str_hostport_def url_wf_def free_of_def find_char_append_hit)
  with False ne val v show ?thesis by (simp add: parse_port_def str_hostport_def substr_def)
qed

lemma parse_user_str:
  assumes wf: "url_wf serv u" and p: "serv (scheme u) = Some sp"
    and v: "host v = str_authority serv u" "user v = []" "password v = []"
  shows "parse_user v = v\<lparr>user := user u, password := password u, host := str_hostport sp u\<rparr>"
proof -
  let ?hp = "str_hostport sp u"
  have num: "free_of ''/@:'' (to_string_int (port u))" using wf by (simp add: url_wf_def print_int_free)
  have hp_at: "CHR ''@'' \<notin> set ?hp" using wf num by (auto simp: str_hostport_def url_wf_def free_of_def)
  show ?thesis
  proof (cases "user u = []")
    case True
    then have pw: "password u = []" and h: "host v = ?hp"
      using wf v(1) p by (auto simp: url_wf_def str_authority_def str_hostport_def)
    have "find_char CHR ''@'' ?hp = None" using hp_at by (simp add: find_char_None)
    then have "parse_user v = v" using h by (simp add: parse_user_def)
    then show ?thesis using True pw h v(2,3) by (cases v) simp
  next
    case False
    let ?up = "user u @ CHR '':'' # password u"
    from False wf have up: "password u \<noteq> []" "CHR ''@'' \<notin> set ?up" "CHR '':'' \<notin> set (user u)"
      by (auto simp: url_wf_def free_of_def)
    have h: "host v = ?up @ CHR ''@'' # ?hp"
      using False up wf v(1) p by (auto simp: url_wf_def str_authority_def str_hostport_def)
    have "find_char CHR ''@'' (host v) = Some (length ?up)"
      unfolding h using up(2) by (rule find_char_append_hit)
    moreover have "find_char CHR '':'' ?up = Some (length (user u))"
      using up(3) by (rule find_char_append_hit)
    ultimately show ?thesis by (simp add: parse_user_def h substr_def)
  qed
qed

lemma str_authority_no_slash: "url_wf serv u \<Longrightarrow> CHR ''/'' \<notin> set (str_authority serv u)"
  using print_int_free [of "port u"]
  by (auto simp: str_authority_def url_wf_def free_of_def split: option.splits)

lemma parse_str:
  assumes wf: "url_wf serv u"
  shows "parse serv (url_str serv u) url_new = u"
proof -
  obtain sp where sp: "serv (scheme u) = Some sp" using wf by (auto simp: url_wf_def)
  obtain r where path: "upath u = CHR ''/'' # r"
    using wf by (cases "upath u") (auto simp: url_wf_def)
  define full where "full = get_full_path u"
  have slash: "find_char CHR ''/'' (str_authority serv u @ full) = Some (length (str_authority serv u))"
    using find_char_append_hit [OF str_authority_no_slash [OF wf]]
    by (simp add: full_def get_full_path_def path)
  have str: "url_str serv u = scheme u @ ''://'' @ str_authority serv u @ full"
    using wf by (auto simp: url_str_def url_wf_def full_def)
  have sch: "split_scheme (url_str serv u) = (scheme u, str_authority serv u @ full)"
    unfolding str using wf by (intro split_scheme_str) (auto simp: url_wf_def)
  let ?v = "url_new\<lparr>scheme := scheme u, host := str_authority serv u, port := sp\<rparr>"
  have "parse_user ?v = ?v\<lparr>user := user u, password := password u, host := str_hostport sp u\<rparr>"
    using wf sp by (rule parse_user_str) (simp_all add: url_new_def)
  then have auth: "parse_port (parse_user ?v) =
      ?v\<lparr>user := user u, password := password u, host := host u, port := port u\<rparr>"
    using parse_port_str [OF wf, of "parse_user ?v" sp] by (simp add: url_new_def)
  have tail: "parse_tail full (parse_port (parse_user ?v)) = (upath u,
      (parse_port (parse_user ?v))\<lparr>query := query u, fragment := fragment u, parameters := parameters u\<rparr>)"
    unfolding full_def get_full_path_def
    by (rule parse_tail_full_path) (use wf in \<open>simp_all only: url_wf_def auth, simp_all add: url_new_def\<close>)
  have "scheme u \<noteq> []" "scheme u \<noteq> ''file''" using wf by (auto simp: url_wf_def)
  then show ?thesis
    using tail by (simp add: parse_def sch slash sp substr_def auth) (simp add: url_new_def path)
qed

interpretation url_text: partial_codec "url_wf serv" "url_str serv" "\<lambda>s. parse serv s url_new" for serv
  by unfold_locales (rule parse_str)

subsection \<open>Path resolution against a stack\<close>

text \<open>The reference: walk the components from the left with a stack.\<close>

fun resolve_step :: "string list \<Rightarrow> string \<Rightarrow> string list" where
  "resolve_step st w =
     (if w = ''..'' then butlast st else if w = ''.'' then st else st @ [w])"

definition resolve :: "string list \<Rightarrow> string list" where
  "resolve ws = foldl resolve_step [] ws"

definition slashed :: "string list \<Rightarrow> string" where
  "slashed ws = concat (map (\<lambda>w. CHR ''/'' # w) ws)"

definition after_root :: "string list \<Rightarrow> string list" where
  "after_root ws = rev (takeWhile (\<lambda>w. w \<noteq> []) (rev ws))"

lemma normalize_loop_resolve:
  "[] \<notin> set ws \<Longrightarrow>
     normalize_loop (rev ws) s acc = slashed (take (length (resolve ws) - s) (resolve ws)) @ acc"
proof (induction ws arbitrary: s acc rule: rev_induct)
  case Nil
  then show ?case by (simp add: resolve_def slashed_def)
next
  case (snoc w ws)
  have snd: "resolve (ws @ [w]) = resolve_step (resolve ws) w" by (simp add: resolve_def)
  show ?case
    using snoc by (auto simp: snd slashed_def Suc_diff_le butlast_conv_take)
qed

lemma normalize_loop_stop: "normalize_loop (ws @ [] # vs) s acc = normalize_loop ws s acc"
  by (induction ws arbitrary: s acc) auto

lemma after_root_split:
  "normalize_loop (rev ws) s acc = normalize_loop (rev (after_root ws)) s acc \<and> [] \<notin> set (after_root ws)"
proof -
  let ?t = "takeWhile (\<lambda>w. w \<noteq> []) (rev ws)" and ?d = "dropWhile (\<lambda>w. w \<noteq> []) (rev ws)"
  have eq: "rev ws = ?t @ ?d" by simp
  have "normalize_loop (?t @ ?d) s acc = normalize_loop ?t s acc"
  proof (cases ?d)
    case (Cons x d)
    then have "x = []" using hd_dropWhile [of "\<lambda>w. w \<noteq> []" "rev ws"] by simp
    with Cons show ?thesis by (metis normalize_loop_stop)
  qed (simp only: append_Nil2)
  moreover have "[] \<notin> set ?t" by (metis set_takeWhileD)
  ultimately show ?thesis by (simp add: after_root_def)
qed

lemma normalize_loop_spec: "normalize_loop (rev ws) 0 [] = slashed (resolve (after_root ws))"
  using after_root_split [of ws 0 "[]"] normalize_loop_resolve [of "after_root ws" 0 "[]"] by simp

lemma resolve_clean:
  "w \<in> set (resolve ws) \<Longrightarrow> w \<in> set ws \<and> w \<noteq> ''.'' \<and> w \<noteq> ''..''"
proof (induction ws arbitrary: w rule: rev_induct)
  case (snoc x ws)
  then show ?case by (auto simp: resolve_def split: if_splits dest!: in_set_butlastD)
qed (simp add: resolve_def)

lemma tokenize_no_delim:
  "w \<in> set (tokenize ds s) \<Longrightarrow> \<forall>c \<in> set w. c \<notin> set ds"
  using split_by_no_delim set_strip by (fastforce simp: tokenize_split trim_strip split: if_splits)

lemma url_encode_chars: "\<forall>c \<in> set (url_encode s). c = CHR ''%'' \<or> \<not> escaped c"
proof -
  have hex: "\<not> escaped (hex_char_upper d)" if "d < 16" for d
    using that by (auto simp: hex_char_upper_def escaped_def)
  have "(of_char c :: nat) div 16 < 16" for c :: char using of_char_less_256 [of c] by linarith
  then show ?thesis by (induction s) (auto simp: encode_char_def hex)
qed

subsection \<open>Properties\<close>

text \<open>Percent encoding loses nothing: decoding returns every byte string that was encoded, and the
  encoded text consists of percent signs and of bytes that need no escape only.\<close>
theorem percent_roundtrip:
  "url_decode (url_encode s) = s \<and> (\<forall>c \<in> set (url_encode s). c = CHR ''%'' \<or> \<not> escaped c)"
  using url_encode_chars by (simp add: percent.decode_encode)

theorem percent_roundtrip_witness:
  "url_decode (url_encode ''a+b %[z'') = ''a+b %[z'' \<and> url_encode ''a+b %[z'' = ''a%2Bb%20%25[z''"
  using percent_roundtrip [of "''a+b %[z''"]
  by (simp add: encode_char_def escaped_def hex_char_upper_def char_of_eq_iff)

text \<open>C3: A well-formed URL survives printing and parsing: every part of it, the port included, is read
  back as it was.\<close>
theorem url_roundtrip: "url_wf serv u \<Longrightarrow> parse serv (url_str serv u) url_new = u"
  by (rule url_text.decode_encode)

definition example_services :: services where
  "example_services s = (if s = ''http'' then Some 80 else if s = ''https'' then Some 443 else None)"

definition example_url :: url where
  "example_url = \<lparr>scheme = ''http'', user = ''joe'', password = ''pw'', host = ''h.org'', port = 8080,
     upath = ''/p'', query = ''a=1'', fragment = ''x'', parameters = ''v''\<rparr>"

theorem url_roundtrip_witness:
  "url_wf example_services example_url \<and>
   parse example_services (url_str example_services example_url) url_new = example_url"
proof -
  have wf: "url_wf example_services example_url" by code_simp
  show ?thesis using wf url_roundtrip [OF wf] by simp
qed

text \<open>A user name without a password is printed without the separating at sign, so that it runs
  into the host: the text reads back as a URL with no user and the two names joined into one host.\<close>
theorem user_without_password_joins_host:
  assumes "password u = []" "host u \<noteq> []"
  shows "url_str serv u = url_str serv (u\<lparr>user := [], host := user u @ host u\<rparr>)"
proof -
  let ?v = "u\<lparr>user := [], host := user u @ host u\<rparr>"
  have "str_authority serv u = str_authority serv ?v"
    using assms by (cases "user u = []") (simp_all add: str_authority_def split: option.split)
  moreover have "get_full_path ?v = get_full_path u" by (simp add: get_full_path_def)
  ultimately show ?thesis by (simp add: url_str_def)
qed

theorem user_without_password_joins_host_witness:
  "url_str example_services (example_url\<lparr>password := []\<rparr>) = ''http://joeh.org:8080/p?a=1#x;v''"
proof -
  have h: "password (example_url\<lparr>password := []\<rparr>) = []" "host (example_url\<lparr>password := []\<rparr>) \<noteq> []"
    by (simp_all add: example_url_def)
  have "to_string_int 8080 = ''8080''"
    by (simp add: to_string_int_def print_int_def dec_digits.simps digit_char_def char_of_eq_iff)
  then show ?thesis
    unfolding user_without_password_joins_host [OF h]
    by (simp add: url_str_def str_authority_def get_full_path_def example_url_def example_services_def)
qed



end
