(* ===== verification/Streams.thy ===== *)
theory Streams
  imports Prelude
begin

text \<open>
  The part of \<open>std::istream\<close> the byte-wise codecs use: the characters still to come and the
  end-of-file flag, which is set only when a read finds nothing, not when the last character is taken.
  And \<open>std::stringstream\<close>, with the two positions and the three state flags, as the network servers use
  it.
\<close>

type_synonym byte = "8 word"

record 'a istream =
  ibuf :: "'a list"
  ieof :: bool

definition open_stream :: "'a list \<Rightarrow> 'a istream" where
  "open_stream xs = \<lparr>ibuf = xs, ieof = False\<rparr>"

text \<open>\<open>in.get (c)\<close>: the new value of \<open>c\<close>, which a failed read leaves as it was.\<close>

definition is_get :: "'a istream \<Rightarrow> 'a \<Rightarrow> 'a \<times> 'a istream" where
  "is_get st old =
     (if ieof st then (old, st)
      else case ibuf st of
             [] \<Rightarrow> (old, st\<lparr>ieof := True\<rparr>)
           | x # xs \<Rightarrow> (x, st\<lparr>ibuf := xs\<rparr>))"

text \<open>What is left to read, with the pending end-of-file: it shrinks with every read.\<close>

definition pending :: "'a istream \<Rightarrow> nat" where
  "pending st = (if ieof st then 0 else Suc (length (ibuf st)))"

lemma pending_get: "\<not> ieof st \<Longrightarrow> pending (snd (is_get st x)) < pending st"
  by (auto simp: is_get_def pending_def split: list.split)

lemma pending_get_le: "pending (snd (is_get st x)) \<le> pending st"
  by (auto simp: is_get_def pending_def split: list.split)

lemma pending_pos: "\<not> ieof st \<longleftrightarrow> 0 < pending st"
  by (simp add: pending_def)

definition byte_of :: "char \<Rightarrow> byte" where
  "byte_of c = of_char c"

definition bytes_of :: "string \<Rightarrow> byte list" where
  "bytes_of s = map byte_of s"

subsection \<open>String streams\<close>

text \<open>The buffer of a \<open>std::stringstream\<close> opened for reading and writing, its two positions, and its flags.
  The operations are those of C++11: every input operation first constructs a sentry, which sets \<open>failbit\<close>
  when the stream is not good, and \<open>seekg\<close> first clears \<open>eofbit\<close>.  A position of -1 is \<^term>\<open>- 1 :: int\<close>.\<close>

record sstream =
  ss_str :: string
  ss_get :: nat
  ss_put :: nat
  ss_eof :: bool
  ss_fail :: bool
  ss_bad :: bool

definition ss_new :: sstream where
  "ss_new = \<lparr>ss_str = [], ss_get = 0, ss_put = 0, ss_eof = False, ss_fail = False, ss_bad = False\<rparr>"

definition ss_good :: "sstream \<Rightarrow> bool" where
  "ss_good s = (\<not> ss_eof s \<and> \<not> ss_fail s \<and> \<not> ss_bad s)"

definition ss_failed :: "sstream \<Rightarrow> bool" where
  "ss_failed s = (ss_fail s \<or> ss_bad s)"

definition ss_rest :: "sstream \<Rightarrow> string" where
  "ss_rest s = drop (ss_get s) (ss_str s)"

definition ss_sentry :: "sstream \<Rightarrow> sstream" where
  "ss_sentry s = (if ss_good s then s else s\<lparr>ss_fail := True\<rparr>)"

definition ss_clear :: "sstream \<Rightarrow> sstream" where
  "ss_clear s = s\<lparr>ss_eof := False, ss_fail := False, ss_bad := False\<rparr>"

definition ss_reset :: "sstream \<Rightarrow> sstream" where
  "ss_reset s = s\<lparr>ss_str := [], ss_get := 0, ss_put := 0\<rparr>"

definition ss_tellg :: "sstream \<Rightarrow> int \<times> sstream" where
  "ss_tellg s = (let s = ss_sentry s in (if ss_failed s then - 1 else int (ss_get s), s))"

definition ss_tellp :: "sstream \<Rightarrow> int" where
  "ss_tellp s = (if ss_failed s then - 1 else int (ss_put s))"

definition ss_seekg :: "int \<Rightarrow> sstream \<Rightarrow> sstream" where
  "ss_seekg pos s =
     (let s = ss_sentry (s\<lparr>ss_eof := False\<rparr>)
      in if ss_failed s then s
         else if 0 \<le> pos \<and> pos \<le> int (length (ss_str s)) then s\<lparr>ss_get := nat pos\<rparr>
         else s\<lparr>ss_fail := True\<rparr>)"

definition ss_seekg_end :: "sstream \<Rightarrow> sstream" where
  "ss_seekg_end s = ss_seekg (int (length (ss_str s))) s"

text \<open>\<open>std::getline\<close> into a fresh string: the delimiter is taken and dropped; reaching the end sets \<open>eofbit\<close>,
  and \<open>failbit\<close> too when there was no character at all.\<close>

definition ss_getline :: "sstream \<Rightarrow> string \<times> sstream" where
  "ss_getline s =
     (if \<not> ss_good s then ([], s\<lparr>ss_fail := True\<rparr>)
      else (let line = takeWhile (\<lambda>c. c \<noteq> CHR 0x0A) (ss_rest s)
            in if length line < length (ss_rest s) then (line, s\<lparr>ss_get := ss_get s + length line + 1\<rparr>)
               else (line, s\<lparr>ss_get := ss_get s + length line, ss_eof := True, ss_fail := (line = [])\<rparr>)))"

definition ss_read :: "nat \<Rightarrow> sstream \<Rightarrow> string \<times> sstream" where
  "ss_read n s =
     (if \<not> ss_good s then ([], s\<lparr>ss_fail := True\<rparr>)
      else (let got = take n (ss_rest s); s' = s\<lparr>ss_get := ss_get s + length got\<rparr>
            in if length got < n then (got, s'\<lparr>ss_eof := True, ss_fail := True\<rparr>) else (got, s')))"

definition ss_write :: "string \<Rightarrow> sstream \<Rightarrow> sstream" where
  "ss_write xs s =
     (if \<not> ss_good s then s\<lparr>ss_fail := True\<rparr>
      else s\<lparr>ss_str := take (ss_put s) (ss_str s) @ xs @ drop (ss_put s + length xs) (ss_str s),
             ss_put := ss_put s + length xs\<rparr>)"

text \<open>Positions inside the buffer, writes at its end.\<close>

definition ss_ok :: "sstream \<Rightarrow> bool" where
  "ss_ok s = (ss_get s \<le> length (ss_str s) \<and> ss_put s = length (ss_str s))"

lemma ss_ok_new [simp]: "ss_ok ss_new" "ss_ok (ss_reset s)"
  by (simp_all add: ss_ok_def ss_new_def ss_reset_def)

lemma ss_ok_flags [simp]:
  "ss_ok (s\<lparr>ss_eof := a\<rparr>) = ss_ok s" "ss_ok (s\<lparr>ss_fail := a\<rparr>) = ss_ok s" "ss_ok (s\<lparr>ss_bad := a\<rparr>) = ss_ok s"
  "ss_ok (ss_clear s) = ss_ok s" "ss_ok (ss_sentry s) = ss_ok s"
  by (simp_all add: ss_ok_def ss_clear_def ss_sentry_def)

lemma ss_ok_seekg [simp]: "ss_ok s \<Longrightarrow> ss_ok (ss_seekg pos s)"
  by (auto simp: ss_ok_def ss_seekg_def ss_sentry_def Let_def)

lemma ss_ok_tellg [simp]: "ss_ok s \<Longrightarrow> ss_ok (snd (ss_tellg s))"
  by (simp add: ss_tellg_def Let_def)

lemma ss_ok_getline [simp]: "ss_ok s \<Longrightarrow> ss_ok (snd (ss_getline s))"
  by (auto simp: ss_ok_def ss_getline_def ss_rest_def Let_def)
     (metis add.commute le_diff_conv2 length_takeWhile_le order.trans length_drop)+

lemma ss_ok_read [simp]: "ss_ok s \<Longrightarrow> ss_ok (snd (ss_read n s))"
  by (auto simp: ss_ok_def ss_read_def ss_rest_def Let_def)

lemma ss_okD:
  "ss_tellg s = (p, s') \<Longrightarrow> ss_ok s \<Longrightarrow> ss_ok s'"
  "ss_getline s = (l, s') \<Longrightarrow> ss_ok s \<Longrightarrow> ss_ok s'"
  "ss_read n s = (l, s') \<Longrightarrow> ss_ok s \<Longrightarrow> ss_ok s'"
  by (metis snd_conv ss_ok_tellg, metis snd_conv ss_ok_getline, metis snd_conv ss_ok_read)

lemma ss_ok_write [simp]: "ss_ok s \<Longrightarrow> ss_ok (ss_write xs s)"
  by (auto simp: ss_ok_def ss_write_def)

lemma ss_write_good: "ss_ok s \<Longrightarrow> ss_good s \<Longrightarrow>
   ss_write xs s = s\<lparr>ss_str := ss_str s @ xs, ss_put := ss_put s + length xs\<rparr>"
  by (simp add: ss_write_def ss_ok_def)

end
