(* ===== verification/Base64.thy ===== *)
theory Base64
  imports Streams Codec
begin

unbundle bit_operations_syntax

text \<open>
  \<open>src/dcl/codec_base64.cpp\<close>: the two translation tables, the block functions and the stream loops
  of the base64 codec, on bytes.  The array that \<open>decode\<close> collects a block in is not initialised; its
  contents before the first block are the parameter \<open>buf\<close>.
\<close>

definition cb64 :: "byte list" where
  "cb64 = bytes_of ''ABCDEFGHIJKLMNOPQRSTUVWXYZabcdefghijklmnopqrstuvwxyz0123456789+/''"

definition cd64 :: "byte list" where
  "cd64 = bytes_of (''|$$$}rstuvwxyz{$$$$$$$>?@ABCDEFGHIJKLMNOPQRSTUVW$$$$$$XYZ['' @ [CHR 0x5C]
     @ '']^_`abcdefghijklmnopq'')"

definition encodeblock :: "byte list \<Rightarrow> nat \<Rightarrow> byte list" where
  "encodeblock b len =
     [cb64 ! unat (drop_bit 2 (b ! 0)),
      cb64 ! unat (push_bit 4 (b ! 0 AND 0x03) OR drop_bit 4 (b ! 1 AND 0xf0)),
      (if len > 1 then cb64 ! unat (push_bit 2 (b ! 1 AND 0x0f) OR drop_bit 6 (b ! 2 AND 0xc0))
       else byte_of CHR ''=''),
      (if len > 2 then cb64 ! unat (b ! 2 AND 0x3f) else byte_of CHR ''='')]"

definition decodeblock :: "byte list \<Rightarrow> byte list" where
  "decodeblock b =
     [push_bit 2 (b ! 0) OR drop_bit 4 (b ! 1),
      push_bit 4 (b ! 1) OR drop_bit 2 (b ! 2),
      (push_bit 6 (b ! 2) AND 0xc0) OR b ! 3]"

text \<open>The three reads of one turn of \<open>encode\<close>: the bytes, zero where the stream had ended, and the
  number that were read.\<close>

fun enc_fill :: "nat \<Rightarrow> byte istream \<Rightarrow> byte list \<times> nat \<times> byte istream" where
  "enc_fill 0 st = ([], 0, st)"
| "enc_fill (Suc n) st =
     (let (v, st) = is_get st 0; (vs, len, st') = enc_fill n st
      in if \<not> ieof st then (v # vs, Suc len, st') else (0 # vs, len, st'))"

lemma pending_enc_fill: "pending (snd (snd (enc_fill n st))) \<le> pending st"
proof (induction n arbitrary: st)
  case (Suc n)
  have "pending (snd (snd (enc_fill n (snd (is_get st 0))))) \<le> pending (snd (is_get st 0))"
    by (rule Suc.IH)
  also have "\<dots> \<le> pending st" by (rule pending_get_le)
  finally show ?case by (simp add: split_beta Let_def)
qed simp

lemma pending_enc_fill_less:
  "\<not> ieof st \<Longrightarrow> enc_fill 3 st = (bs, len, st') \<Longrightarrow> pending st' < pending st"
  using pending_get [of st 0] pending_enc_fill [of 2 "snd (is_get st 0)"]
  by (auto simp: numeral_3_eq_3 numeral_2_eq_2 Let_def split: prod.splits if_splits)

function encode_loop :: "byte istream \<Rightarrow> byte list" where
  "encode_loop st =
     (if ieof st then []
      else (let (bs, len, st') = enc_fill 3 st
            in (if len \<noteq> 0 then encodeblock bs len else []) @ encode_loop st'))"
  by pat_completeness auto
termination
  by (relation "measure pending") (simp, metis in_measure pending_enc_fill_less)

declare encode_loop.simps [simp del]

definition b64_encode :: "byte list \<Rightarrow> byte list" where
  "b64_encode xs = encode_loop (open_stream xs)"

text \<open>One character of the input to the value the decoder keeps for it, 0 for a character it skips.\<close>

definition dec_val :: "byte \<Rightarrow> byte" where
  "dec_val v =
     (let v = (if v < 43 \<or> v > 122 then 0 else cd64 ! unat (v - 43))
      in if v \<noteq> 0 then (if v = byte_of CHR ''$'' then 0 else v - 61) else v)"

text \<open>The inner loop: read until a character has a value or the stream ends.\<close>

function dec_skip :: "byte \<Rightarrow> byte istream \<Rightarrow> byte \<times> byte istream" where
  "dec_skip v st =
     (if \<not> ieof st \<and> v = 0 then (let (c, st') = is_get st v in dec_skip (dec_val c) st') else (v, st))"
  by pat_completeness auto
termination
  by (relation "measure (pending \<circ> snd)") (auto simp: is_get_def pending_def split: list.splits)

declare dec_skip.simps [simp del]

function dec_fill :: "nat \<Rightarrow> nat \<Rightarrow> byte list \<Rightarrow> byte istream \<Rightarrow> nat \<times> byte list \<times> byte istream" where
  "dec_fill i len buf st =
     (if i < 4 \<and> \<not> ieof st then
        (let (v, st') = dec_skip 0 st
         in if \<not> ieof st' then
              dec_fill (i + 1) (len + 1) (if v \<noteq> 0 then buf[i := v - 1] else buf) st'
            else dec_fill (i + 1) len (buf[i := 0]) st')
      else (len, buf, st))"
  by pat_completeness auto
termination
  by (relation "measure (\<lambda>(i, len, buf, st). 4 - i)") auto

declare dec_fill.simps [simp del]

lemma pending_dec_skip: "pending (snd (dec_skip v st)) \<le> pending st"
proof (induction v st rule: dec_skip.induct)
  case (1 v st)
  show ?case
  proof (cases "\<not> ieof st \<and> v = 0")
    case True
    obtain c st' where g: "is_get st v = (c, st')" by (cases "is_get st v")
    with True "1" have "pending (snd (dec_skip (dec_val c) st')) \<le> pending st'" by simp
    also have "\<dots> \<le> pending st" using pending_get_le [of st v] g by simp
    finally show ?thesis using True g by (subst dec_skip.simps) simp
  next
    case False
    then show ?thesis by (auto simp: dec_skip.simps [of v st])
  qed
qed

lemma pending_dec_skip_less: "\<not> ieof st \<Longrightarrow> pending (snd (dec_skip 0 st)) < pending st"
proof -
  assume "\<not> ieof st"
  then have "pending (snd (is_get st 0)) < pending st" by (rule pending_get)
  with \<open>\<not> ieof st\<close> show ?thesis
    using pending_dec_skip order_le_less_trans
    by (fastforce simp: dec_skip.simps [of 0 st] split_beta)
qed

lemma pending_dec_fill: "pending (snd (snd (dec_fill i len buf st))) \<le> pending st"
proof (induction i len buf st rule: dec_fill.induct)
  case (1 i len buf st)
  show ?case
  proof (cases "i < 4 \<and> \<not> ieof st")
    case True
    obtain v st' where s: "dec_skip 0 st = (v, st')" by (cases "dec_skip 0 st")
    have "pending st' \<le> pending st" using pending_dec_skip [of 0 st] s by simp
    with True s "1" show ?thesis by (fastforce simp: dec_fill.simps [of i len buf st])
  qed (auto simp: dec_fill.simps [of i len buf st])
qed

lemma pending_dec_fill_less: "\<not> ieof st \<Longrightarrow> pending (snd (snd (dec_fill 0 0 buf st))) < pending st"
proof -
  assume e: "\<not> ieof st"
  obtain v st' where s: "dec_skip 0 st = (v, st')" by (cases "dec_skip 0 st")
  have "pending st' < pending st" using pending_dec_skip_less [OF e] s by simp
  moreover have "pending (snd (snd (dec_fill j n b st'))) \<le> pending st'" for j n b
    by (rule pending_dec_fill)
  ultimately show ?thesis
    using e s by (auto simp: dec_fill.simps [of 0 0 buf st] intro: order_le_less_trans)
qed

function decode_loop :: "byte list \<Rightarrow> byte istream \<Rightarrow> byte list" where
  "decode_loop buf st =
     (if ieof st then []
      else (let (len, buf', st') = dec_fill 0 0 buf st
            in (if len > 0 then take (len - 1) (decodeblock buf') else []) @ decode_loop buf' st'))"
  by pat_completeness auto
termination
  by (relation "measure (pending \<circ> snd)") (simp, metis comp_apply in_measure pending_dec_fill_less snd_conv)

declare decode_loop.simps [simp del]

definition b64_decode :: "byte list \<Rightarrow> byte list \<Rightarrow> byte list" where
  "b64_decode buf xs = decode_loop buf (open_stream xs)"

subsection \<open>The tables are inverse to each other\<close>

lemma cb64_list: "cb64 = [65, 66, 67, 68, 69, 70, 71, 72, 73, 74, 75, 76, 77, 78, 79, 80, 81, 82, 83, 84, 85, 86, 87, 88, 89, 90, 97, 98, 99, 100, 101, 102, 103, 104, 105, 106, 107, 108, 109, 110, 111, 112, 113, 114, 115, 116, 117, 118, 119, 120, 121, 122, 48, 49, 50, 51, 52, 53, 54, 55, 56, 57, 43, 47]"
  by (simp add: cb64_def bytes_of_def byte_of_def)

lemma cd64_list: "cd64 = [124, 36, 36, 36, 125, 114, 115, 116, 117, 118, 119, 120, 121, 122, 123, 36, 36, 36, 36, 36, 36, 36, 62, 63, 64, 65, 66, 67, 68, 69, 70, 71, 72, 73, 74, 75, 76, 77, 78, 79, 80, 81, 82, 83, 84, 85, 86, 87, 36, 36, 36, 36, 36, 36, 88, 89, 90, 91, 92, 93, 94, 95, 96, 97, 98, 99, 100, 101, 102, 103, 104, 105, 106, 107, 108, 109, 110, 111, 112, 113]"
  by (simp add: cd64_def bytes_of_def byte_of_def)

lemma dec_val_table: "map dec_val cb64 =
    [1, 2, 3, 4, 5, 6, 7, 8, 9, 10, 11, 12, 13, 14, 15, 16, 17, 18, 19, 20, 21, 22, 23, 24,
     25, 26, 27, 28, 29, 30, 31, 32, 33, 34, 35, 36, 37, 38, 39, 40, 41, 42, 43, 44, 45, 46,
     47, 48, 49, 50, 51, 52, 53, 54, 55, 56, 57, 58, 59, 60, 61, 62, 63, 64]"
  by (simp add: dec_val_def cb64_list cd64_list byte_of_def)

lemma sextet_list: "[1, 2, 3, 4, 5, 6, 7, 8, 9, 10, 11, 12, 13, 14, 15, 16, 17, 18, 19, 20, 21, 22, 23, 24,
     25, 26, 27, 28, 29, 30, 31, 32, 33, 34, 35, 36, 37, 38, 39, 40, 41, 42, 43, 44, 45, 46,
     47, 48, 49, 50, 51, 52, 53, 54, 55, 56, 57, 58, 59, 60, 61, 62, 63, 64] =
    map (\<lambda>k. of_nat (k + 1) :: byte) [0..<64]"
  by (simp add: upt_rec_numeral upt_conv_Cons)

lemma length_cb64 [simp]: "length cb64 = 64"
  by (simp add: cb64_list)

lemma dec_val_pad [simp]: "dec_val (byte_of CHR ''='') = 0"
  by (simp add: dec_val_def cd64_list byte_of_def)

lemma dec_val_cb64: "s < (64 :: byte) \<Longrightarrow> dec_val (cb64 ! unat s) = s + 1 \<and> s + 1 \<noteq> 0"
proof -
  assume s: "s < 64"
  then have u: "unat s < 64" by (simp add: word_less_nat_alt)
  then have "dec_val (cb64 ! unat s) = of_nat (unat s + 1)"
    using dec_val_table unfolding sextet_list by (metis (no_types, lifting) add_0 diff_zero length_cb64 nth_map nth_map_upt)
  moreover have "s + 1 \<noteq> 0"
  proof
    assume "s + 1 = 0"
    then have "s = - 1" by (simp add: add_eq_0_iff2)
    with s show False by simp
  qed
  ultimately show ?thesis by simp
qed

subsection \<open>Blocks\<close>

definition sextets :: "byte \<Rightarrow> byte \<Rightarrow> byte \<Rightarrow> byte list" where
  "sextets a b c = [drop_bit 2 a, push_bit 4 (a AND 0x03) OR drop_bit 4 (b AND 0xf0),
     push_bit 2 (b AND 0x0f) OR drop_bit 6 (c AND 0xc0), c AND 0x3f]"

lemma masks: "(0x03 :: byte) = mask 2" "(0x0f :: byte) = mask 4" "(0x3f :: byte) = mask 6"
  "(0xf0 :: byte) = NOT (mask 4)" "(0xc0 :: byte) = NOT (mask 6)"
  by (simp_all add: mask_eq_exp_minus_1)

lemma below_64: "(\<And>n. 6 \<le> n \<Longrightarrow> \<not> bit (w :: byte) n) \<Longrightarrow> w < 64"
proof -
  assume "\<And>n. 6 \<le> n \<Longrightarrow> \<not> bit w n"
  then have "w AND mask 6 = w" by (intro bit_word_eqI) (auto simp: bit_simps not_le [symmetric])
  then have "unat w = take_bit 6 (unat w)" by (metis take_bit_eq_mask unsigned_take_bit_eq)
  also have "\<dots> < 2 ^ 6" by (rule take_bit_nat_less_exp)
  finally show ?thesis by (simp add: word_less_nat_alt)
qed

lemma less_8_cases: "n < LENGTH(8) \<Longrightarrow> n \<in> {0, 1, 2, 3, 4, 5, 6, 7}"
  by auto

lemma sextets_bound: "\<forall>w \<in> set (sextets a b c). w < 64"
proof -
  have "\<not> bit (w :: byte) n" if "8 \<le> n" for w n
    using that bit_imp_le_length [of w n] by auto
  then show ?thesis unfolding sextets_def masks by (auto intro!: below_64 simp: bit_simps)
qed

lemma decodeblock_sextets: "decodeblock (sextets a b c) = [a, b, c]"
  unfolding sextets_def decodeblock_def masks
  by (simp, intro conjI; rule bit_word_eqI; drule less_8_cases; auto simp: bit_simps)
     (simp_all add: numeral_2_eq_2 numeral_3_eq_3)

subsection \<open>Encoding, block by block\<close>

abbreviation pad :: byte where "pad \<equiv> byte_of CHR ''=''"

fun b64_ref :: "byte list \<Rightarrow> byte list" where
  "b64_ref (a # b # c # r) = map (\<lambda>s. cb64 ! unat s) (sextets a b c) @ b64_ref r"
| "b64_ref [a, b] = map (\<lambda>s. cb64 ! unat s) (take 3 (sextets a b 0)) @ [pad]"
| "b64_ref [a] = map (\<lambda>s. cb64 ! unat s) (take 2 (sextets a 0 0)) @ [pad, pad]"
| "b64_ref [] = []"

lemma enc_fill_3:
  "enc_fill 3 (open_stream (a # b # c # r)) = ([a, b, c], 3, open_stream r)"
  "enc_fill 3 (open_stream [a, b]) = ([a, b, 0], 2, \<lparr>ibuf = [], ieof = True\<rparr>)"
  "enc_fill 3 (open_stream [a]) = ([a, 0, 0], 1, \<lparr>ibuf = [], ieof = True\<rparr>)"
  "enc_fill 3 (open_stream []) = ([0, 0, 0], 0, \<lparr>ibuf = [], ieof = True\<rparr>)"
  by (simp_all add: numeral_3_eq_3 open_stream_def is_get_def)

lemma encode_loop_ref: "encode_loop (open_stream xs) = b64_ref xs"
proof (induction xs rule: b64_ref.induct)
  case (1 a b c r)
  then show ?case
    by (subst encode_loop.simps) (simp add: enc_fill_3 encodeblock_def sextets_def, simp add: open_stream_def)
qed (subst encode_loop.simps,
     simp add: enc_fill_3 encodeblock_def sextets_def encode_loop.simps [of "\<lparr>ibuf = [], ieof = True\<rparr>"],
     (simp add: open_stream_def)?)+

subsection \<open>Decoding, block by block\<close>

lemma dec_skip_hit:
  "dec_val c \<noteq> 0 \<Longrightarrow> dec_skip 0 (open_stream (c # cs)) = (dec_val c, open_stream cs)"
  by (simp add: dec_skip.simps [of 0] dec_skip.simps [of "dec_val c"] open_stream_def is_get_def)

lemma dec_skip_end:
  "list_all (\<lambda>c. dec_val c = 0) cs \<Longrightarrow> dec_skip 0 (open_stream cs) = (0, \<lparr>ibuf = [], ieof = True\<rparr>)"
proof (induction cs)
  case Nil
  have "dec_val 0 = 0" by (simp add: dec_val_def)
  then show ?case by (subst dec_skip.simps) (simp add: dec_skip.simps open_stream_def is_get_def)
next
  case (Cons c cs)
  then show ?case by (subst dec_skip.simps) (simp add: open_stream_def is_get_def)
qed

lemma dec_fill_hit:
  "i < 4 \<Longrightarrow> s < 64 \<Longrightarrow>
     dec_fill i len buf (open_stream (cb64 ! unat s # cs)) =
       dec_fill (Suc i) (Suc len) (buf[i := s]) (open_stream cs)"
  using dec_val_cb64 [of s]
  by (subst dec_fill.simps) (simp add: dec_skip_hit, simp add: open_stream_def)

lemma dec_fill_end:
  "i < 4 \<Longrightarrow> list_all (\<lambda>c. dec_val c = 0) cs \<Longrightarrow>
     dec_fill i len buf (open_stream cs) = (len, buf[i := 0], \<lparr>ibuf = [], ieof = True\<rparr>)"
  by (subst dec_fill.simps) (simp add: dec_skip_end dec_fill.simps, simp add: open_stream_def)

lemma dec_fill_full: "dec_fill 4 len buf st = (len, buf, st)"
  by (simp add: dec_fill.simps)

lemma list_4: "length buf = 4 \<Longrightarrow> \<exists>p q r s. buf = [p, q, r, s]"
  by (auto simp: numeral_eq_Suc length_Suc_conv)

lemma decode_loop_block:
  assumes "length buf = 4"
  shows "decode_loop buf (open_stream (map (\<lambda>s. cb64 ! unat s) (sextets a b c) @ cs)) =
     a # b # c # decode_loop (sextets a b c) (open_stream cs)"
proof -
  obtain p q r s where buf: "buf = [p, q, r, s]" using list_4 [OF assms] by blast
  have "dec_fill 0 0 buf (open_stream (map (\<lambda>s. cb64 ! unat s) (sextets a b c) @ cs)) =
      (4, sextets a b c, open_stream cs)"
    using sextets_bound [of a b c]
    by (simp add: sextets_def buf dec_fill_hit numeral_eq_Suc)
       (simp add: dec_fill.simps)
  then show ?thesis
    using decodeblock_sextets [of a b c]
    by (subst decode_loop.simps) (simp add: open_stream_def decodeblock_def)
qed

lemma decode_loop_closed: "decode_loop buf \<lparr>ibuf = [], ieof = True\<rparr> = []"
  by (simp add: decode_loop.simps)

lemma decode_loop_tails:
  assumes "length buf = 4"
  shows "decode_loop buf (open_stream []) = []"
    and "decode_loop buf (open_stream (map (\<lambda>s. cb64 ! unat s) (take 2 (sextets a 0 0)) @ [pad, pad])) = [a]"
    and "decode_loop buf (open_stream (map (\<lambda>s. cb64 ! unat s) (take 3 (sextets a b 0)) @ [pad])) = [a, b]"
proof -
  obtain p q r s where buf: "buf = [p, q, r, s]" using list_4 [OF assms] by blast
  show "decode_loop buf (open_stream []) = []"
    by (subst decode_loop.simps) (simp add: dec_fill_end decode_loop_closed)
  have b1: "\<forall>w \<in> set (sextets a 0 0). w < 64" and b2: "\<forall>w \<in> set (sextets a b 0). w < 64"
    using sextets_bound by blast+
  have "dec_fill 0 0 buf (open_stream (map (\<lambda>s. cb64 ! unat s) (take 2 (sextets a 0 0)) @ [pad, pad])) =
      (2, (sextets a 0 0 ! 0) # (sextets a 0 0 ! 1) # 0 # [s], \<lparr>ibuf = [], ieof = True\<rparr>)"
    using b1 by (simp add: sextets_def buf dec_fill_hit dec_fill_end)
  then show "decode_loop buf (open_stream (map (\<lambda>s. cb64 ! unat s) (take 2 (sextets a 0 0)) @ [pad, pad])) = [a]"
    using decodeblock_sextets [of a 0 0]
    by (subst decode_loop.simps) (simp add: decode_loop_closed open_stream_def decodeblock_def sextets_def)
  have "dec_fill 0 0 buf (open_stream (map (\<lambda>s. cb64 ! unat s) (take 3 (sextets a b 0)) @ [pad])) =
      (3, take 3 (sextets a b 0) @ [0], \<lparr>ibuf = [], ieof = True\<rparr>)"
    using b2 by (simp add: sextets_def buf dec_fill_hit dec_fill_end)
  then show "decode_loop buf (open_stream (map (\<lambda>s. cb64 ! unat s) (take 3 (sextets a b 0)) @ [pad])) = [a, b]"
    using decodeblock_sextets [of a b 0]
    by (subst decode_loop.simps) (simp add: decode_loop_closed open_stream_def decodeblock_def sextets_def)
qed

lemma decode_loop_ref: "length buf = 4 \<Longrightarrow> decode_loop buf (open_stream (b64_ref xs)) = xs"
proof (induction xs arbitrary: buf rule: b64_ref.induct)
  case (1 a b c r)
  have "length (sextets a b c) = 4" by (simp add: sextets_def)
  with 1 show ?case by (simp add: decode_loop_block)
qed (simp_all add: decode_loop_tails)

lemma b64_decode_encode: "length buf = 4 \<Longrightarrow> b64_decode buf (b64_encode xs) = xs"
  by (simp add: b64_decode_def b64_encode_def encode_loop_ref decode_loop_ref)

interpretation base64: total_codec b64_encode "b64_decode [0, 0, 0, 0]"
  by unfold_locales (simp add: b64_decode_encode)

subsection \<open>Properties\<close>

text \<open>C2: Base64 decoding returns every byte sequence that was encoded, whatever the uninitialised
  block buffer of the decoder contains; padding is skipped and the last, partial block is cut right.\<close>
theorem base64_roundtrip: "length buf = 4 \<Longrightarrow> b64_decode buf (b64_encode xs) = xs"
  by (rule b64_decode_encode)

theorem base64_roundtrip_witness:
  "b64_decode [7, 7, 7, 7] (b64_encode [84, 101, 115, 116]) = [84, 101, 115, 116]"
  by (rule base64_roundtrip) simp

text \<open>The encoder writes four characters for every three bytes begun, all of them from the base64
  alphabet or the padding character, and exactly the padding the length of the input asks for.\<close>
theorem base64_encode_shape:
  "length (b64_encode xs) = 4 * ((length xs + 2) div 3) \<and>
   set (b64_encode xs) \<subseteq> insert pad (set cb64) \<and>
   length (filter (\<lambda>c. c = pad) (b64_encode xs)) = (3 - length xs mod 3) mod 3"
proof -
  have "pad \<notin> set cb64" by (simp add: cb64_list byte_of_def)
  then have sx: "cb64 ! unat s \<noteq> pad \<and> cb64 ! unat s \<in> set cb64" if "s < 64" for s :: byte
  proof -
    have "cb64 ! unat s \<in> set cb64" using that by (intro nth_mem) (simp add: word_less_nat_alt)
    with \<open>pad \<notin> set cb64\<close> show ?thesis by metis
  qed
  have b: "\<forall>w \<in> set (sextets a b c). w < 64" for a b c by (rule sextets_bound)
  have "length (b64_ref xs) = 4 * ((length xs + 2) div 3) \<and> set (b64_ref xs) \<subseteq> insert pad (set cb64) \<and>
     length (filter (\<lambda>c. c = pad) (b64_ref xs)) = (3 - length xs mod 3) mod 3"
  proof (induction xs rule: b64_ref.induct)
    case (1 x y z r)
    have "Suc (Suc (Suc (length r))) mod 3 = length r mod 3"
      "(Suc (Suc (Suc (length r))) + 2) div 3 = Suc ((length r + 2) div 3)" by presburger+
    with 1 b [of x y z] sx show ?case by (simp add: sextets_def)
  next
    case (2 x y)
    then show ?case using b [of x y 0] sx by (simp add: sextets_def)
  next
    case (3 x)
    then show ?case using b [of x 0 0] sx by (simp add: sextets_def)
  qed simp
  then show ?thesis by (simp add: b64_encode_def encode_loop_ref)
qed

end
