(* ===== verification/Md5.thy ===== *)
theory Md5
  imports Streams
begin

unbundle bit_operations_syntax

text \<open>
  \<open>src/dcl/encoder_md5.cpp\<close>: the MD5 context with its bit counter and block buffer, the unrolled
  transformation, and the loop over an input stream.  The reference it is compared with is the algorithm of
  RFC 1321: padding, blocks of 16 little-endian words, and a loop of 64 operations on four registers.

  The code reinterprets byte arrays as arrays of 32-bit integers, so the model has the byte order of the host
  as a parameter.  On \<open>I386\<close> the preprocessor replaces \<open>byteReverse\<close> by nothing; the other two hosts
  run it.  The block buffer of a fresh context is not initialised; its contents are a parameter.
\<close>

type_synonym uint32 = "32 word"

datatype host = I386 | Little_Endian | Big_Endian

subsection \<open>Memory\<close>

definition bytes_le :: "uint32 \<Rightarrow> byte list" where
  "bytes_le w = map (\<lambda>i. ucast (drop_bit (8 * i) w)) [0, 1, 2, 3]"

definition word_le :: "byte list \<Rightarrow> uint32" where
  "word_le b = ucast (b ! 0) OR push_bit 8 (ucast (b ! 1)) OR push_bit 16 (ucast (b ! 2)) OR
     push_bit 24 (ucast (b ! 3))"

definition store32 :: "host \<Rightarrow> uint32 \<Rightarrow> byte list" where
  "store32 host w = (case host of Big_Endian \<Rightarrow> rev (bytes_le w) | _ \<Rightarrow> bytes_le w)"

definition load32 :: "host \<Rightarrow> byte list \<Rightarrow> uint32" where
  "load32 host b = (case host of Big_Endian \<Rightarrow> word_le (rev (take 4 b)) | _ \<Rightarrow> word_le (take 4 b))"

text \<open>\<open>(uint32_t *) p\<close>, \<open>n\<close> elements long.\<close>

fun as_words :: "host \<Rightarrow> nat \<Rightarrow> byte list \<Rightarrow> uint32 list" where
  "as_words host 0 b = []"
| "as_words host (Suc n) b = load32 host b # as_words host n (drop 4 b)"

text \<open>\<open>memcpy (p + off, src, n)\<close> into an array.\<close>

definition memcpy :: "byte list \<Rightarrow> nat \<Rightarrow> byte list \<Rightarrow> nat \<Rightarrow> byte list" where
  "memcpy dst off src n = take off dst @ take n src @ drop (off + n) dst"

definition memset :: "byte list \<Rightarrow> nat \<Rightarrow> byte \<Rightarrow> nat \<Rightarrow> byte list" where
  "memset dst off c n = take off dst @ replicate n c @ drop (off + n) dst"

subsection \<open>The context\<close>

fun reverse_loop :: "host \<Rightarrow> byte list \<Rightarrow> nat \<Rightarrow> byte list" where
  "reverse_loop host b 0 = b"
| "reverse_loop host b (Suc longs) =
     (let t = push_bit 16 (push_bit 8 (ucast (b ! 3)) OR ucast (b ! 2)) OR
            (push_bit 8 (ucast (b ! 1)) OR ucast (b ! 0))
      in store32 host t @ reverse_loop host (drop 4 b) longs)"

definition byteReverse :: "host \<Rightarrow> byte list \<Rightarrow> nat \<Rightarrow> byte list" where
  "byteReverse host b longs = (case host of I386 \<Rightarrow> b | _ \<Rightarrow> reverse_loop host b longs)"

record MD5Context =
  ctx_buf :: "uint32 list"
  ctx_bits0 :: uint32
  ctx_bits1 :: uint32
  ctx_in :: "byte list"

definition MD5Init :: "MD5Context \<Rightarrow> MD5Context" where
  "MD5Init ctx = ctx\<lparr>ctx_buf := [0x67452301, 0xefcdab89, 0x98badcfe, 0x10325476],
     ctx_bits0 := 0, ctx_bits1 := 0\<rparr>"

subsection \<open>The transformation\<close>

definition F1 :: "uint32 \<Rightarrow> uint32 \<Rightarrow> uint32 \<Rightarrow> uint32" where
  "F1 x y z = z XOR (x AND (y XOR z))"

definition F2 :: "uint32 \<Rightarrow> uint32 \<Rightarrow> uint32 \<Rightarrow> uint32" where
  "F2 x y z = F1 z x y"

definition F3 :: "uint32 \<Rightarrow> uint32 \<Rightarrow> uint32 \<Rightarrow> uint32" where
  "F3 x y z = x XOR y XOR z"

definition F4 :: "uint32 \<Rightarrow> uint32 \<Rightarrow> uint32 \<Rightarrow> uint32" where
  "F4 x y z = y XOR (x OR NOT z)"

definition MD5STEP ::
  "(uint32 \<Rightarrow> uint32 \<Rightarrow> uint32 \<Rightarrow> uint32) \<Rightarrow> uint32 \<Rightarrow> uint32 \<Rightarrow> uint32 \<Rightarrow> uint32 \<Rightarrow> uint32 \<Rightarrow> nat \<Rightarrow> uint32" where
  "MD5STEP f w x y z data s =
     (let w = w + (f x y z + data); w = push_bit s w OR drop_bit (32 - s) w in w + x)"

definition MD5Transform :: "uint32 list \<Rightarrow> uint32 list \<Rightarrow> uint32 list" where
  "MD5Transform buf inp =
     (let a = buf ! 0; b = buf ! 1; c = buf ! 2; d = buf ! 3;
      a = MD5STEP F1 a b c d (inp ! 0 + 0xd76aa478) 7;
      d = MD5STEP F1 d a b c (inp ! 1 + 0xe8c7b756) 12;
      c = MD5STEP F1 c d a b (inp ! 2 + 0x242070db) 17;
      b = MD5STEP F1 b c d a (inp ! 3 + 0xc1bdceee) 22;
      a = MD5STEP F1 a b c d (inp ! 4 + 0xf57c0faf) 7;
      d = MD5STEP F1 d a b c (inp ! 5 + 0x4787c62a) 12;
      c = MD5STEP F1 c d a b (inp ! 6 + 0xa8304613) 17;
      b = MD5STEP F1 b c d a (inp ! 7 + 0xfd469501) 22;
      a = MD5STEP F1 a b c d (inp ! 8 + 0x698098d8) 7;
      d = MD5STEP F1 d a b c (inp ! 9 + 0x8b44f7af) 12;
      c = MD5STEP F1 c d a b (inp ! 10 + 0xffff5bb1) 17;
      b = MD5STEP F1 b c d a (inp ! 11 + 0x895cd7be) 22;
      a = MD5STEP F1 a b c d (inp ! 12 + 0x6b901122) 7;
      d = MD5STEP F1 d a b c (inp ! 13 + 0xfd987193) 12;
      c = MD5STEP F1 c d a b (inp ! 14 + 0xa679438e) 17;
      b = MD5STEP F1 b c d a (inp ! 15 + 0x49b40821) 22;
      a = MD5STEP F2 a b c d (inp ! 1 + 0xf61e2562) 5;
      d = MD5STEP F2 d a b c (inp ! 6 + 0xc040b340) 9;
      c = MD5STEP F2 c d a b (inp ! 11 + 0x265e5a51) 14;
      b = MD5STEP F2 b c d a (inp ! 0 + 0xe9b6c7aa) 20;
      a = MD5STEP F2 a b c d (inp ! 5 + 0xd62f105d) 5;
      d = MD5STEP F2 d a b c (inp ! 10 + 0x02441453) 9;
      c = MD5STEP F2 c d a b (inp ! 15 + 0xd8a1e681) 14;
      b = MD5STEP F2 b c d a (inp ! 4 + 0xe7d3fbc8) 20;
      a = MD5STEP F2 a b c d (inp ! 9 + 0x21e1cde6) 5;
      d = MD5STEP F2 d a b c (inp ! 14 + 0xc33707d6) 9;
      c = MD5STEP F2 c d a b (inp ! 3 + 0xf4d50d87) 14;
      b = MD5STEP F2 b c d a (inp ! 8 + 0x455a14ed) 20;
      a = MD5STEP F2 a b c d (inp ! 13 + 0xa9e3e905) 5;
      d = MD5STEP F2 d a b c (inp ! 2 + 0xfcefa3f8) 9;
      c = MD5STEP F2 c d a b (inp ! 7 + 0x676f02d9) 14;
      b = MD5STEP F2 b c d a (inp ! 12 + 0x8d2a4c8a) 20;
      a = MD5STEP F3 a b c d (inp ! 5 + 0xfffa3942) 4;
      d = MD5STEP F3 d a b c (inp ! 8 + 0x8771f681) 11;
      c = MD5STEP F3 c d a b (inp ! 11 + 0x6d9d6122) 16;
      b = MD5STEP F3 b c d a (inp ! 14 + 0xfde5380c) 23;
      a = MD5STEP F3 a b c d (inp ! 1 + 0xa4beea44) 4;
      d = MD5STEP F3 d a b c (inp ! 4 + 0x4bdecfa9) 11;
      c = MD5STEP F3 c d a b (inp ! 7 + 0xf6bb4b60) 16;
      b = MD5STEP F3 b c d a (inp ! 10 + 0xbebfbc70) 23;
      a = MD5STEP F3 a b c d (inp ! 13 + 0x289b7ec6) 4;
      d = MD5STEP F3 d a b c (inp ! 0 + 0xeaa127fa) 11;
      c = MD5STEP F3 c d a b (inp ! 3 + 0xd4ef3085) 16;
      b = MD5STEP F3 b c d a (inp ! 6 + 0x04881d05) 23;
      a = MD5STEP F3 a b c d (inp ! 9 + 0xd9d4d039) 4;
      d = MD5STEP F3 d a b c (inp ! 12 + 0xe6db99e5) 11;
      c = MD5STEP F3 c d a b (inp ! 15 + 0x1fa27cf8) 16;
      b = MD5STEP F3 b c d a (inp ! 2 + 0xc4ac5665) 23;
      a = MD5STEP F4 a b c d (inp ! 0 + 0xf4292244) 6;
      d = MD5STEP F4 d a b c (inp ! 7 + 0x432aff97) 10;
      c = MD5STEP F4 c d a b (inp ! 14 + 0xab9423a7) 15;
      b = MD5STEP F4 b c d a (inp ! 5 + 0xfc93a039) 21;
      a = MD5STEP F4 a b c d (inp ! 12 + 0x655b59c3) 6;
      d = MD5STEP F4 d a b c (inp ! 3 + 0x8f0ccc92) 10;
      c = MD5STEP F4 c d a b (inp ! 10 + 0xffeff47d) 15;
      b = MD5STEP F4 b c d a (inp ! 1 + 0x85845dd1) 21;
      a = MD5STEP F4 a b c d (inp ! 8 + 0x6fa87e4f) 6;
      d = MD5STEP F4 d a b c (inp ! 15 + 0xfe2ce6e0) 10;
      c = MD5STEP F4 c d a b (inp ! 6 + 0xa3014314) 15;
      b = MD5STEP F4 b c d a (inp ! 13 + 0x4e0811a1) 21;
      a = MD5STEP F4 a b c d (inp ! 4 + 0xf7537e82) 6;
      d = MD5STEP F4 d a b c (inp ! 11 + 0xbd3af235) 10;
      c = MD5STEP F4 c d a b (inp ! 2 + 0x2ad7d2bb) 15;
      b = MD5STEP F4 b c d a (inp ! 9 + 0xeb86d391) 21
      in [buf ! 0 + a, buf ! 1 + b, buf ! 2 + c, buf ! 3 + d])"

definition transform_in :: "host \<Rightarrow> MD5Context \<Rightarrow> MD5Context" where
  "transform_in host ctx =
     (let b = byteReverse host (ctx_in ctx) 16
      in ctx\<lparr>ctx_in := b, ctx_buf := MD5Transform (ctx_buf ctx) (as_words host 16 b)\<rparr>)"

subsection \<open>Update, final, encode\<close>

text \<open>\<open>len\<close> is an \<open>unsigned\<close>; as the length of the data it is a \<^typ>\<open>nat\<close>, converted where the code computes
  with it.  The loop over whole blocks returns the rest of the data.\<close>

fun update_loop :: "host \<Rightarrow> MD5Context \<Rightarrow> byte list \<Rightarrow> nat \<Rightarrow> MD5Context \<times> byte list \<times> nat" where
  "update_loop host ctx data len =
     (if 64 \<le> len
      then update_loop host (transform_in host (ctx\<lparr>ctx_in := memcpy (ctx_in ctx) 0 data 64\<rparr>))
             (drop 64 data) (len - 64)
      else (ctx, data, len))"

declare update_loop.simps [simp del]

definition update_bits :: "MD5Context \<Rightarrow> nat \<Rightarrow> MD5Context" where
  "update_bits ctx len =
     (let t = ctx_bits0 ctx; l = (of_nat len :: uint32);
          ctx = ctx\<lparr>ctx_bits0 := t + push_bit 3 l\<rparr>;
          ctx = (if ctx_bits0 ctx < t then ctx\<lparr>ctx_bits1 := ctx_bits1 ctx + 1\<rparr> else ctx)
      in ctx\<lparr>ctx_bits1 := ctx_bits1 ctx + drop_bit 29 l\<rparr>)"

definition update_rest :: "host \<Rightarrow> MD5Context \<Rightarrow> byte list \<Rightarrow> nat \<Rightarrow> MD5Context" where
  "update_rest host ctx data len =
     (let (ctx, data, len) = update_loop host ctx data len
      in ctx\<lparr>ctx_in := memcpy (ctx_in ctx) 0 data len\<rparr>)"

definition MD5Update :: "host \<Rightarrow> MD5Context \<Rightarrow> byte list \<Rightarrow> nat \<Rightarrow> MD5Context" where
  "MD5Update host ctx data len =
     (let t = unat (drop_bit 3 (ctx_bits0 ctx) AND 0x3f); ctx = update_bits ctx len
      in if t \<noteq> 0 then
           (if len < 64 - t then ctx\<lparr>ctx_in := memcpy (ctx_in ctx) t data len\<rparr>
            else update_rest host
                   (transform_in host (ctx\<lparr>ctx_in := memcpy (ctx_in ctx) t data (64 - t)\<rparr>))
                   (drop (64 - t) data) (len - (64 - t)))
         else update_rest host ctx data len)"

definition pad_in :: "host \<Rightarrow> MD5Context \<Rightarrow> MD5Context" where
  "pad_in host ctx =
     (let count = unat (drop_bit 3 (ctx_bits0 ctx) AND 0x3f);
          ctx = ctx\<lparr>ctx_in := (ctx_in ctx)[count := 0x80]\<rparr>;
          p = count + 1;
          count = 64 - 1 - count
      in if count < 8 then
           (let ctx = transform_in host (ctx\<lparr>ctx_in := memset (ctx_in ctx) p 0 count\<rparr>)
            in ctx\<lparr>ctx_in := memset (ctx_in ctx) 0 0 56\<rparr>)
         else ctx\<lparr>ctx_in := memset (ctx_in ctx) p 0 (count - 8)\<rparr>)"

text \<open>The last statement clears \<open>sizeof (ctx)\<close> bytes of the context, the size of a pointer, after the digest
  has been copied; no later operation reads the context.\<close>

definition MD5Final :: "host \<Rightarrow> MD5Context \<Rightarrow> byte list" where
  "MD5Final host ctx =
     (let ctx = pad_in host ctx;
          b = byteReverse host (ctx_in ctx) 14;
          b = memcpy b 56 (store32 host (ctx_bits0 ctx)) 4;
          b = memcpy b 60 (store32 host (ctx_bits1 ctx)) 4;
          buf = MD5Transform (ctx_buf ctx) (as_words host 16 b)
      in take 16 (byteReverse host (concat (map (store32 host) buf)) 4))"

text \<open>A stream with its failure flag.  \<open>in.read (p, n)\<close> on a stream that is not good reads nothing and sets
  \<open>failbit\<close>; reading past the end sets \<open>eofbit\<close> and \<open>failbit\<close>.  The count is what \<open>gcount\<close> returns.\<close>

record 'a fstream = "'a istream" +
  ifail :: bool

definition is_read :: "nat \<Rightarrow> 'a fstream \<Rightarrow> 'a list \<times> 'a fstream" where
  "is_read n st =
     (if ieof st \<or> ifail st then ([], st\<lparr>ifail := True\<rparr>)
      else if length (ibuf st) < n then (ibuf st, st\<lparr>ibuf := [], ieof := True, ifail := True\<rparr>)
      else (take n (ibuf st), st\<lparr>ibuf := drop n (ibuf st)\<rparr>))"

partial_function (option) md5_loop ::
  "host \<Rightarrow> byte fstream \<Rightarrow> byte list \<Rightarrow> MD5Context \<Rightarrow> MD5Context option" where
  "md5_loop host st buffer ctx =
     (if ieof st then Some ctx
      else (let (got, st) = is_read 4096 st; buffer = got @ drop (length got) buffer
            in md5_loop host st buffer (MD5Update host ctx buffer (length got))))"

definition hex_digits :: "byte \<Rightarrow> string" where
  "hex_digits b = [hex_char (unat b div 16), hex_char (unat b mod 16)]"

definition md5_encode :: "host \<Rightarrow> MD5Context \<Rightarrow> byte list \<Rightarrow> byte fstream \<Rightarrow> string option" where
  "md5_encode host junk buffer st =
     map_option (\<lambda>ctx. concat (map hex_digits (MD5Final host ctx)))
       (md5_loop host st buffer (MD5Init junk))"

subsection \<open>The reference\<close>

text \<open>RFC 1321: the auxiliary functions, the table \<open>T\<close> of the integer parts of \<open>4294967296 * abs (sin i)\<close>,
  the word and the shift each operation uses.\<close>

definition rfc_fun :: "nat \<Rightarrow> uint32 \<Rightarrow> uint32 \<Rightarrow> uint32 \<Rightarrow> uint32" where
  "rfc_fun r x y z =
     (if r = 0 then (x AND y) OR (NOT x AND z)
      else if r = 1 then (x AND z) OR (y AND NOT z)
      else if r = 2 then x XOR y XOR z
      else y XOR (x OR NOT z))"

definition rfc_T :: "uint32 list" where
  "rfc_T =
    [0xd76aa478, 0xe8c7b756, 0x242070db, 0xc1bdceee, 0xf57c0faf, 0x4787c62a, 0xa8304613, 0xfd469501,
     0x698098d8, 0x8b44f7af, 0xffff5bb1, 0x895cd7be, 0x6b901122, 0xfd987193, 0xa679438e, 0x49b40821,
     0xf61e2562, 0xc040b340, 0x265e5a51, 0xe9b6c7aa, 0xd62f105d, 0x02441453, 0xd8a1e681, 0xe7d3fbc8,
     0x21e1cde6, 0xc33707d6, 0xf4d50d87, 0x455a14ed, 0xa9e3e905, 0xfcefa3f8, 0x676f02d9, 0x8d2a4c8a,
     0xfffa3942, 0x8771f681, 0x6d9d6122, 0xfde5380c, 0xa4beea44, 0x4bdecfa9, 0xf6bb4b60, 0xbebfbc70,
     0x289b7ec6, 0xeaa127fa, 0xd4ef3085, 0x04881d05, 0xd9d4d039, 0xe6db99e5, 0x1fa27cf8, 0xc4ac5665,
     0xf4292244, 0x432aff97, 0xab9423a7, 0xfc93a039, 0x655b59c3, 0x8f0ccc92, 0xffeff47d, 0x85845dd1,
     0x6fa87e4f, 0xfe2ce6e0, 0xa3014314, 0x4e0811a1, 0xf7537e82, 0xbd3af235, 0x2ad7d2bb, 0xeb86d391]"

definition rfc_index :: "nat \<Rightarrow> nat" where
  "rfc_index i =
     (if i < 16 then i
      else if i < 32 then (5 * i + 1) mod 16
      else if i < 48 then (3 * i + 5) mod 16
      else (7 * i) mod 16)"

definition rfc_shift :: "nat \<Rightarrow> nat" where
  "rfc_shift i = [[7, 12, 17, 22], [5, 9, 14, 20], [4, 11, 16, 23], [6, 10, 15, 21]] ! (i div 16) ! (i mod 4)"

type_synonym regs = "uint32 \<times> uint32 \<times> uint32 \<times> uint32"

definition rfc_op :: "uint32 list \<Rightarrow> nat \<Rightarrow> regs \<Rightarrow> regs" where
  "rfc_op x i = (\<lambda>(a, b, c, d).
     (d, b + word_rotl (rfc_shift i) (a + rfc_fun (i div 16) b c d + x ! rfc_index i + rfc_T ! i), b, c))"

definition add_regs :: "uint32 list \<Rightarrow> regs \<Rightarrow> uint32 list" where
  "add_regs buf = (\<lambda>(a, b, c, d). [buf ! 0 + a, buf ! 1 + b, buf ! 2 + c, buf ! 3 + d])"

fun words_le :: "byte list \<Rightarrow> uint32 list" where
  "words_le (a # b # c # d # r) = word_le [a, b, c, d] # words_le r"
| "words_le _ = []"

definition rfc_block :: "uint32 list \<Rightarrow> byte list \<Rightarrow> uint32 list" where
  "rfc_block buf block =
     add_regs buf (fold (rfc_op (words_le block)) [0..<64] (buf ! 0, buf ! 1, buf ! 2, buf ! 3))"

fun blocks :: "byte list \<Rightarrow> byte list list" where
  "blocks xs = (if length xs < 64 then [] else take 64 xs # blocks (drop 64 xs))"

declare blocks.simps [simp del]

definition rfc_pad :: "byte list \<Rightarrow> byte list" where
  "rfc_pad msg =
     (let n = 8 * length msg
      in msg @ [0x80] @ replicate ((119 - length msg mod 64) mod 64) 0 @
         bytes_le (of_nat n) @ bytes_le (of_nat (n div 2 ^ 32)))"

definition rfc_init :: "uint32 list" where
  "rfc_init = [0x67452301, 0xefcdab89, 0x98badcfe, 0x10325476]"

definition rfc_md5 :: "byte list \<Rightarrow> byte list" where
  "rfc_md5 msg = concat (map bytes_le (foldl rfc_block rfc_init (blocks (rfc_pad msg))))"

subsection \<open>The transformation computes the block function\<close>

text \<open>The registers of the code keep their names and are updated in turn; those of the reference rotate.  Each
  assignment of the code is one operation of the reference.\<close>

lemma rotl_or: "0 < s \<Longrightarrow> s < 32 \<Longrightarrow> push_bit s w OR drop_bit (32 - s) w = word_rotl s (w :: uint32)"
proof (rule bit_word_eqI)
  fix n assume s: "0 < s" "s < 32" and n: "n < LENGTH(32)"
  show "bit (push_bit s w OR drop_bit (32 - s) w) n = bit (word_rotl s w) n"
  proof (cases "s \<le> n")
    case True
    then have "(n + (32 - s mod 32)) mod 32 = n - s" using s n by (simp add: mod_if)
    moreover have "\<not> bit w (32 - s + n)" using True s by (auto dest: bit_imp_le_length)
    ultimately show ?thesis using True s n by (simp add: bit_word_rotl_iff bit_simps)
  next
    case False
    then have "(n + (32 - s mod 32)) mod 32 = 32 - s + n" using s n by (simp add: mod_if) linarith
    then show ?thesis using False s n by (simp add: bit_word_rotl_iff bit_simps)
  qed
qed

lemma F_rfc: "F1 = rfc_fun 0" "F2 = rfc_fun 1" "F3 = rfc_fun 2" "F4 = rfc_fun 3"
proof -
  have "z XOR (x AND (y XOR z)) = (x AND y) OR (NOT x AND z)" for x y z :: uint32
    by (rule bit_word_eqI) (auto simp: bit_simps)
  moreover have "y XOR (z AND (x XOR y)) = (x AND z) OR (y AND NOT z)" for x y z :: uint32
    by (rule bit_word_eqI) (auto simp: bit_simps)
  ultimately show "F1 = rfc_fun 0" "F2 = rfc_fun 1" "F3 = rfc_fun 2" "F4 = rfc_fun 3"
    by (intro ext; simp add: F1_def F2_def F3_def F4_def rfc_fun_def)+
qed

lemma step_op:
  assumes "f = rfc_fun (i div 16)" "s = rfc_shift i" "0 < s" "s < 32" "k = rfc_index i" "t = rfc_T ! i"
  shows "rfc_op x i (a, b, c, d) = (d, MD5STEP f a b c d (x ! k + t) s, b, c)"
  using rotl_or [OF assms(3,4)] assms
  by (simp add: rfc_op_def MD5STEP_def Let_def ac_simps)

lemma let_step:
  assumes "rfc_op x i (a, b, c, d) = (d, e, b, c)"
    and "\<And>w. L w = add_regs buf (fold (rfc_op x) is (d, w, b, c))"
  shows "Let e L = add_regs buf (fold (rfc_op x) (i # is) (a, b, c, d))"
  using assms by simp

lemma upt_64:
  "[0..<64] = [0, 1, 2, 3, 4, 5, 6, 7, 8, 9, 10, 11, 12, 13, 14, 15, 16, 17, 18, 19, 20, 21, 22, 23, 24, 25, 26,
     27, 28, 29, 30, 31, 32, 33, 34, 35, 36, 37, 38, 39, 40, 41, 42, 43, 44, 45, 46, 47, 48, 49, 50, 51, 52, 53,
     54, 55, 56, 57, 58, 59, 60, 61, 62, 63]"
  by (simp add: upt_rec)

lemma MD5Transform_ops:
  "MD5Transform buf x = add_regs buf (fold (rfc_op x) [0..<64] (buf ! 0, buf ! 1, buf ! 2, buf ! 3))"
  unfolding MD5Transform_def Let_def [of "buf ! _"] upt_64
  by ((rule let_step, rule step_op, simp add: F_rfc, simp add: rfc_shift_def, simp, simp,
        simp add: rfc_index_def, simp add: rfc_T_def)+) (simp add: add_regs_def)



lemma length_bytes_le [simp]: "length (bytes_le w) = 4"
  by (simp add: bytes_le_def)

lemma length_store32 [simp]: "length (store32 host w) = 4"
  by (simp add: store32_def split: host.split)

lemma word_le_bytes_le [simp]: "word_le (bytes_le w) = w"
proof (rule bit_word_eqI)
  fix n assume "n < LENGTH(32)"
  then consider "n < 8" | "8 \<le> n" "n < 16" | "16 \<le> n" "n < 24" | "24 \<le> n" "n < 32" by fastforce
  then show "bit (word_le (bytes_le w)) n = bit w n"
    by cases (auto simp: word_le_def bytes_le_def bit_simps)
qed

lemma bytes_le_word_le [simp]: "bytes_le (word_le [a, b, c, d]) = [a, b, c, d]"
proof -
  have "ucast (word_le [a, b, c, d]) = a" "ucast (drop_bit 8 (word_le [a, b, c, d])) = b"
    "ucast (drop_bit 16 (word_le [a, b, c, d])) = c" "ucast (drop_bit 24 (word_le [a, b, c, d])) = d"
    by (rule bit_word_eqI; auto simp: word_le_def bit_simps dest: bit_imp_le_length)+
  then show ?thesis by (simp add: bytes_le_def)
qed

lemma load_store [simp]: "load32 host (store32 host w @ r) = w"
  by (simp add: load32_def store32_def split: host.split)

lemma word_induct [consumes 1, case_names Nil Word]:
  assumes "length b = 4 * n" "P [] 0"
    and "\<And>w x y z r n. length r = 4 * n \<Longrightarrow> P r n \<Longrightarrow> P (w # x # y # z # r) (Suc n)"
  shows "P b n"
  using assms(1)
proof (induction n arbitrary: b)
  case (Suc n)
  then obtain w x y z r where "b = w # x # y # z # r" "length r = 4 * n"
    by (auto simp: length_Suc_conv numeral_eq_Suc)
  with Suc.IH assms(3) show ?case by blast
qed (simp add: assms(2))

lemma reverse_word:
  "push_bit 16 (push_bit 8 (ucast z) OR ucast y) OR (push_bit 8 (ucast x) OR ucast w) =
     word_le [w, x, y, z]"
  by (rule bit_word_eqI) (auto simp: word_le_def bit_simps)

lemma reverse_loop_step [simp]:
  "reverse_loop host (w # x # y # z # r) (Suc n) =
     store32 host (word_le [w, x, y, z]) @ reverse_loop host r n"
  by (simp add: reverse_word [symmetric])

declare reverse_loop.simps(2) [simp del]

lemma byteReverse_step [simp]:
  "byteReverse host (w # x # y # z # r) (Suc n) =
     (case host of Big_Endian \<Rightarrow> [z, y, x, w] | _ \<Rightarrow> [w, x, y, z]) @ byteReverse host r n"
  "byteReverse host r 0 = r"
  by (simp_all add: byteReverse_def store32_def split: host.split)

lemma as_words_reverse:
  "length b = 4 * n \<Longrightarrow> as_words host n (byteReverse host b n) = words_le b"
  by (induction b n rule: word_induct) (simp_all add: load32_def split: host.split)

lemma as_words_append:
  "length b = 4 * n \<Longrightarrow> as_words host (n + m) (b @ r) = as_words host n b @ as_words host m r"
  by (induction b n rule: word_induct) (simp_all add: load32_def split: host.split)

lemma reverse_append:
  "length b = 4 * n \<Longrightarrow> byteReverse host (b @ r) n = byteReverse host b n @ r"
  by (induction b n rule: word_induct) simp_all

lemma length_reverse [simp]: "length b = 4 * n \<Longrightarrow> length (byteReverse host b n) = 4 * n"
  by (induction b n rule: word_induct) (simp_all split: host.split)

lemma words_le_append: "length b = 4 * n \<Longrightarrow> words_le (b @ r) = words_le b @ words_le r"
  by (induction b n rule: word_induct) simp_all

lemma words_le_bytes [simp]: "words_le (bytes_le w) = [w]"
proof -
  have "words_le (bytes_le w) = [word_le (bytes_le w)]" by (simp add: bytes_le_def del: word_le_bytes_le)
  then show ?thesis by simp
qed

text \<open>The digest: the registers in little-endian order on every host.\<close>

lemma store_reverse:
  "byteReverse host (concat (map (store32 host) ws)) (length ws) = concat (map bytes_le ws)"
proof (induction ws)
  case (Cons w ws)
  have "\<exists>a b c d. bytes_le w = [a, b, c, d]" by (simp add: bytes_le_def)
  then obtain a b c d where w: "w = word_le [a, b, c, d]" by (metis word_le_bytes_le)
  have "word_le [d, c, b, a] = word_le [d, c, b, a]" by simp
  with Cons show ?case
    by (cases host) (simp_all add: byteReverse_def store32_def w)
qed (simp add: byteReverse_def split: host.split)

lemma transform_in_block:
  assumes "length (ctx_in ctx) = 64"
  shows "transform_in host ctx =
    ctx\<lparr>ctx_in := byteReverse host (ctx_in ctx) 16, ctx_buf := rfc_block (ctx_buf ctx) (ctx_in ctx)\<rparr>"
  using as_words_reverse [of "ctx_in ctx" 16 host] assms
  by (simp add: transform_in_def Let_def MD5Transform_ops rfc_block_def)

subsection \<open>Blocks\<close>

lemma blocks_Cons: "length b = 64 \<Longrightarrow> blocks (b @ r) = b # blocks r"
  by (subst blocks.simps) simp

lemma blocks_short: "length r < 64 \<Longrightarrow> blocks r = []"
  by (subst blocks.simps) simp

lemma blocks_append: "length m = 64 * k \<Longrightarrow> blocks (m @ r) = blocks m @ blocks r"
proof (induction k arbitrary: m)
  case (Suc k)
  have "blocks ((take 64 m @ drop 64 m) @ r) = take 64 m # blocks (drop 64 m @ r)"
    unfolding append_assoc using Suc.prems by (intro blocks_Cons) simp
  moreover have "blocks (take 64 m @ drop 64 m) = take 64 m # blocks (drop 64 m)"
    using Suc.prems by (intro blocks_Cons) simp
  ultimately show ?case using Suc.IH [of "drop 64 m"] Suc.prems by simp
qed (simp add: blocks_short)

definition rfc_state :: "byte list \<Rightarrow> uint32 list" where
  "rfc_state m = foldl rfc_block rfc_init (blocks m)"

lemma rfc_state_append:
  "length m = 64 * k \<Longrightarrow> length b = 64 \<Longrightarrow> rfc_state (m @ b) = rfc_block (rfc_state m) b"
  using blocks_append [of m k b] blocks_Cons [of b "[]"] by (simp add: rfc_state_def blocks_short)

text \<open>What a context stands for: the whole blocks of the message are in the registers, the rest in the
  buffer, and the two counters hold the number of bits modulo \<open>2 ^ 64\<close>.\<close>

definition ctx_split :: "MD5Context \<Rightarrow> byte list \<Rightarrow> byte list \<Rightarrow> bool" where
  "ctx_split ctx m r =
     (64 dvd length m \<and> length r < 64 \<and> length (ctx_in ctx) = 64 \<and> ctx_buf ctx = rfc_state m \<and>
      take (length r) (ctx_in ctx) = r)"

definition ctx_holds :: "MD5Context \<Rightarrow> byte list \<Rightarrow> bool" where
  "ctx_holds ctx msg =
     (let k = 64 * (length msg div 64)
      in ctx_split ctx (take k msg) (drop k msg) \<and> ctx_bits0 ctx = of_nat (8 * length msg) \<and>
         ctx_bits1 ctx = of_nat (8 * length msg div 2 ^ 32))"

lemma ctx_holds_iff:
  "ctx_holds ctx msg \<longleftrightarrow> (\<exists>m r. msg = m @ r \<and> ctx_split ctx m r) \<and>
     ctx_bits0 ctx = of_nat (8 * length msg) \<and> ctx_bits1 ctx = of_nat (8 * length msg div 2 ^ 32)"
proof -
  have "take (64 * (length (m @ r) div 64)) (m @ r) = m \<and> drop (64 * (length (m @ r) div 64)) (m @ r) = r"
    if "ctx_split ctx m r" for m r
    using that by (auto simp: ctx_split_def elim!: dvdE)
  then show ?thesis unfolding ctx_holds_def Let_def by (metis append_take_drop_id)
qed

lemma div_carry:
  assumes "0 < (m :: nat)"
  shows "(b + l) div m = b div m + l div m + (if (b + l) mod m < b mod m then 1 else 0)"
proof -
  define r r' where d: "r = b mod m" "r' = l mod m"
  with assms have r: "r < m" "r' < m" by simp_all
  have "(r + r') div m = (if (r + r') mod m < r then 1 else 0)"
  proof (cases "r + r' < m")
    case False
    then have "(r + r') div m = 1" "(r + r') mod m = r + r' - m"
      using r by (simp_all add: le_div_geq le_mod_geq)
    then show ?thesis using r False by simp
  qed simp
  then show ?thesis by (simp add: div_add1_eq [of b l] mod_add_eq flip: d)
      (simp add: d mod_simps)
qed

lemma bit_count:
  assumes "ctx_bits0 ctx = of_nat (8 * n)" "ctx_bits1 ctx = of_nat (8 * n div 2 ^ 32)" "len < 2 ^ 32"
  shows "ctx_bits0 (update_bits ctx len) = of_nat (8 * (n + len))"
    and "ctx_bits1 (update_bits ctx len) = of_nat (8 * (n + len) div 2 ^ 32)"
proof -
  have p: "push_bit 3 (of_nat len :: uint32) = of_nat (8 * len)" by (simp add: push_bit_eq_mult)
  have "unat (drop_bit 29 (of_nat len :: uint32)) = 8 * len div 2 ^ 32"
    using assms(3) by (simp add: unat_drop_bit_eq unat_of_nat drop_bit_eq_div [where ?'a = nat])
  from arg_cong [OF this, of "of_nat :: nat \<Rightarrow> uint32"]
  have d: "drop_bit 29 (of_nat len :: uint32) = of_nat (8 * len div 2 ^ 32)" by (simp only: of_nat_unat ucast_id)
  have lt: "(of_nat (8 * n) + of_nat (8 * len) :: uint32) < of_nat (8 * n) \<longleftrightarrow>
      (8 * n + 8 * len) mod 2 ^ 32 < 8 * n mod 2 ^ 32"
    unfolding of_nat_add [symmetric] word_less_nat_alt unat_of_nat by simp
  show "ctx_bits0 (update_bits ctx len) = of_nat (8 * (n + len))"
    using assms(1) p by (simp add: update_bits_def Let_def)
  show "ctx_bits1 (update_bits ctx len) = of_nat (8 * (n + len) div 2 ^ 32)"
    using div_carry [of "2 ^ 32" "8 * n" "8 * len"] lt
    by (simp add: update_bits_def Let_def assms(1,2) p d distrib_left del: of_nat_mult)
qed

lemma used_bytes: "unat (drop_bit 3 (of_nat (8 * n) :: uint32) AND 0x3f) = n mod 64"
proof -
  define w where "w = (of_nat (8 * n) :: uint32)"
  have w: "unat w = 8 * n mod 2 ^ 32" unfolding w_def unat_of_nat by simp
  have "unat (take_bit 6 (drop_bit 3 w)) = (8 * n mod 2 ^ 32 div 8) mod 64"
    by (simp add: unat_drop_bit_eq unsigned_take_bit_eq w take_bit_eq_mod [where ?'a = nat] drop_bit_eq_div [where ?'a = nat])
  moreover have "take_bit 6 (drop_bit 3 w) = drop_bit 3 w AND 0x3f"
    by (simp add: take_bit_eq_mask mask_eq_exp_minus_1)
  moreover have "(8 * n mod 2 ^ 32 div 8) mod 64 = n mod 64"
  proof -
    have "8 * n mod 2 ^ 32 = 8 * (n mod 2 ^ 29)" using mult_mod_right [of 8 n "2 ^ 29"] by simp
    then show ?thesis by (simp add: mod_mod_cancel)
  qed
  ultimately show ?thesis by (simp add: w_def)
qed

lemma update_bits_other [simp]:
  "ctx_buf (update_bits ctx len) = ctx_buf ctx" "ctx_in (update_bits ctx len) = ctx_in ctx"
  by (simp_all add: update_bits_def Let_def)

lemma length_memcpy [simp]: "off + n \<le> length dst \<Longrightarrow> n \<le> length src \<Longrightarrow> length (memcpy dst off src n) = length dst"
  by (simp add: memcpy_def)

lemma transform_split:
  assumes "64 dvd length m" "length (ctx_in ctx) = 64" "ctx_buf ctx = rfc_state m"
  shows "ctx_buf (transform_in host ctx) = rfc_state (m @ ctx_in ctx)"
    and "length (ctx_in (transform_in host ctx)) = 64"
    and "ctx_bits0 (transform_in host ctx) = ctx_bits0 ctx" "ctx_bits1 (transform_in host ctx) = ctx_bits1 ctx"
  using assms length_reverse [of "ctx_in ctx" 16 host]
  by (auto simp: transform_in_block rfc_state_append elim!: dvdE)

lemma update_rest_rec:
  "update_rest host ctx data len =
     (if 64 \<le> len
      then update_rest host (transform_in host (ctx\<lparr>ctx_in := memcpy (ctx_in ctx) 0 data 64\<rparr>))
             (drop 64 data) (len - 64)
      else ctx\<lparr>ctx_in := memcpy (ctx_in ctx) 0 data len\<rparr>)"
  by (simp add: update_rest_def update_loop.simps [of host ctx data len])

lemma update_rest_split:
  assumes "len \<le> length data" "64 dvd length m" "length (ctx_in ctx) = 64" "ctx_buf ctx = rfc_state m"
  shows "(\<exists>m' r. m @ take len data = m' @ r \<and> ctx_split (update_rest host ctx data len) m' r) \<and>
    ctx_bits0 (update_rest host ctx data len) = ctx_bits0 ctx \<and>
    ctx_bits1 (update_rest host ctx data len) = ctx_bits1 ctx"
  using assms
proof (induction len arbitrary: ctx data m rule: less_induct)
  case (less len)
  show ?case
  proof (cases "64 \<le> len")
    case True
    let ?c = "ctx\<lparr>ctx_in := memcpy (ctx_in ctx) 0 data 64\<rparr>"
    have b: "ctx_in ?c = take 64 data" using less.prems by (simp add: memcpy_def)
    note t = transform_split [of m ?c host, unfolded b]
    have "m @ take len data = (m @ take 64 data) @ take (len - 64) (drop 64 data)"
      using True by (metis append_assoc le_add_diff_inverse take_add)
    then show ?thesis
      using less.IH [of "len - 64" "drop 64 data" "m @ take 64 data" "transform_in host ?c"] t less.prems True
      by (subst (1 2 3) update_rest_rec) simp
  next
    case False
    then have "ctx_split (update_rest host ctx data len) m (take len data)"
      using less.prems by (subst update_rest_rec) (simp add: ctx_split_def memcpy_def)
    then show ?thesis using False by (subst (2 3) update_rest_rec) auto
  qed
qed

lemma MD5Update_holds:
  assumes "ctx_holds ctx msg" "len \<le> length data" "len < 2 ^ 32"
  shows "ctx_holds (MD5Update host ctx data len) (msg @ take len data)"
proof -
  from assms(1) obtain m r where msg: "msg = m @ r" and sp: "ctx_split ctx m r"
    and bits: "ctx_bits0 ctx = of_nat (8 * length msg)" "ctx_bits1 ctx = of_nat (8 * length msg div 2 ^ 32)"
    unfolding ctx_holds_iff by blast
  let ?u = "update_bits ctx len" and ?t = "length r"
  note bc = bit_count [OF bits assms(3)]
  have t: "unat (drop_bit 3 (ctx_bits0 ctx) AND 0x3f) = ?t"
    using sp unfolding bits(1) used_bytes by (auto simp: msg ctx_split_def elim!: dvdE)
  have "(\<exists>m' r'. msg @ take len data = m' @ r' \<and> ctx_split (MD5Update host ctx data len) m' r') \<and>
    ctx_bits0 (MD5Update host ctx data len) = ctx_bits0 ?u \<and>
    ctx_bits1 (MD5Update host ctx data len) = ctx_bits1 ?u"
  proof (cases "?t \<noteq> 0 \<and> len < 64 - ?t")
    case True
    then have "MD5Update host ctx data len = ?u\<lparr>ctx_in := memcpy (ctx_in ctx) ?t data len\<rparr>"
      by (simp add: MD5Update_def t)
    moreover from this have "ctx_split (MD5Update host ctx data len) m (r @ take len data)"
      using sp True assms(2) by (auto simp: ctx_split_def memcpy_def)
    ultimately show ?thesis using msg by auto
  next
    case False
    define c where "c = (if ?t = 0 then ?u else
      transform_in host (?u\<lparr>ctx_in := memcpy (ctx_in ctx) ?t data (64 - ?t)\<rparr>))"
    define k where "k = (if ?t = 0 then 0 else 64 - ?t)"
    have u: "MD5Update host ctx data len = update_rest host c (drop k data) (len - k)"
      using False by (auto simp: MD5Update_def t c_def k_def Let_def)
    have k: "k \<le> len" using False by (auto simp: k_def)
    have b: "memcpy (ctx_in ctx) ?t data (64 - ?t) = r @ take (64 - ?t) data" if "?t \<noteq> 0"
      using sp by (simp add: memcpy_def ctx_split_def)
    have c: "64 dvd length (m @ r @ take k data) \<and> length (ctx_in c) = 64 \<and>
        ctx_buf c = rfc_state (m @ r @ take k data) \<and> ctx_bits0 c = ctx_bits0 ?u \<and> ctx_bits1 c = ctx_bits1 ?u"
    proof (cases "?t = 0")
      case True
      then show ?thesis using sp by (simp add: c_def k_def ctx_split_def)
    next
      case False
      have l: "length (r @ take k data) = 64" using sp False k assms(2) by (simp add: k_def ctx_split_def)
      then show ?thesis using sp False transform_split [of m "?u\<lparr>ctx_in := r @ take k data\<rparr>" host] b
        by (simp add: c_def k_def ctx_split_def)
    qed
    have "take len data = take k data @ take (len - k) (drop k data)"
      using k by (metis le_add_diff_inverse take_add)
    then show ?thesis
      using update_rest_split [of "len - k" "drop k data" "m @ r @ take k data" c host] c k assms(2)
      by (simp add: u msg)
  qed
  then show ?thesis using bc assms(2) unfolding ctx_holds_iff by simp
qed

text \<open>The last block: 56 bytes in the byte order of the code, then the two counters as native words.\<close>

lemma last_block:
  assumes "length p = 56" "length q = 8"
  shows "as_words host 16 (memcpy (memcpy (byteReverse host (p @ q) 14) 56 (store32 host x) 4) 60
      (store32 host y) 4) = words_le (p @ bytes_le x @ bytes_le y)"
proof -
  have p: "length p = 4 * 14" using assms by simp
  let ?p = "byteReverse host p 14"
  have l: "length ?p = 4 * 14" by (rule length_reverse [OF p])
  have "memcpy (memcpy (?p @ q) 56 (store32 host x) 4) 60 (store32 host y) 4 =
      ?p @ store32 host x @ store32 host y"
    using l assms(2) by (simp add: memcpy_def)
  moreover have "as_words host (14 + 2) (?p @ store32 host x @ store32 host y) = words_le p @ [x, y]"
    unfolding as_words_append [OF l] as_words_reverse [OF p] by (simp add: numeral_2_eq_2 load_store [of _ _ "[]", simplified])
  moreover have "words_le (p @ bytes_le x @ bytes_le y) = words_le p @ [x, y]"
    using words_le_append [of "bytes_le x" 1] by (simp add: words_le_append [OF p])
  ultimately show ?thesis by (simp add: reverse_append [OF p])
qed

lemma length_rfc_block [simp]: "length (rfc_block s b) = 4"
  by (simp add: rfc_block_def add_regs_def split: prod.split)

lemma pad_in_split:
  assumes "ctx_split ctx m r" "unat (drop_bit 3 (ctx_bits0 ctx) AND 0x3f) = length r"
  shows "\<exists>m' p q. m' @ p = m @ r @ [0x80] @ replicate ((119 - length r) mod 64) 0 \<and> 64 dvd length m' \<and>
    length p = 56 \<and> length q = 8 \<and> ctx_in (pad_in host ctx) = p @ q \<and>
    ctx_buf (pad_in host ctx) = rfc_state m' \<and> ctx_bits0 (pad_in host ctx) = ctx_bits0 ctx \<and>
    ctx_bits1 (pad_in host ctx) = ctx_bits1 ctx"
proof -
  let ?t = "length r" and ?i = "(ctx_in ctx)[length r := 0x80]"
  from assms(1) have m: "64 dvd length m" and r: "?t < 64" and l: "length ?i = 64"
    and buf: "ctx_buf ctx = rfc_state m" and "take ?t (ctx_in ctx) = r"
    by (auto simp: ctx_split_def)
  then have i: "take (Suc ?t) ?i = r @ [0x80]"
    by (simp add: take_Suc_conv_app_nth)
  show ?thesis
  proof (cases "55 < ?t")
    case True
    define b where "b = r @ [0x80] @ replicate (63 - ?t) 0"
    have b: "memset ?i (Suc ?t) 0 (63 - ?t) = b" "length b = 64"
      using i l r by (simp_all add: memset_def b_def)
    let ?c = "transform_in host (ctx\<lparr>ctx_in := b\<rparr>)"
    have p: "pad_in host ctx = ?c\<lparr>ctx_in := replicate 56 0 @ drop 56 (ctx_in ?c)\<rparr>"
      using True r b(1) by (simp add: pad_in_def assms(2) Let_def memset_def)
    note c = transform_split [of m "ctx\<lparr>ctx_in := b\<rparr>" host]
    have "(119 - ?t) mod 64 = (63 - ?t) + 56" using True r by simp
    then have "(m @ b) @ replicate 56 0 = m @ r @ [0x80] @ replicate ((119 - ?t) mod 64) 0"
      by (simp add: b_def flip: replicate_add)
    then show ?thesis using c m b(2) buf
      by (intro exI [of _ "m @ b"] exI [of _ "replicate 56 0"] exI [of _ "drop 56 (ctx_in ?c)"]) (simp add: p)
  next
    case False
    have p: "pad_in host ctx = ctx\<lparr>ctx_in := (r @ [0x80] @ replicate (55 - ?t) 0) @ drop 56 ?i\<rparr>"
      using False i by (simp add: pad_in_def assms(2) Let_def memset_def)
    have "(119 - ?t) mod 64 = 55 - ?t" using False by (simp add: mod_if)
    then show ?thesis using m l buf False
      by (intro exI [of _ m] exI [of _ "r @ [0x80] @ replicate (55 - ?t) 0"] exI [of _ "drop 56 ?i"]) (simp add: p)
  qed
qed

lemma MD5Final_holds:
  assumes "ctx_holds ctx msg"
  shows "MD5Final host ctx = rfc_md5 msg"
proof -
  from assms obtain m r where msg: "msg = m @ r" and sp: "ctx_split ctx m r"
    and bits: "ctx_bits0 ctx = of_nat (8 * length msg)" "ctx_bits1 ctx = of_nat (8 * length msg div 2 ^ 32)"
    unfolding ctx_holds_iff by blast
  have md: "length msg mod 64 = length r" using sp by (auto simp: msg ctx_split_def elim!: dvdE)
  then have t: "unat (drop_bit 3 (ctx_bits0 ctx) AND 0x3f) = length r"
    unfolding bits(1) used_bytes .
  obtain m' p q where mp: "m' @ p = m @ r @ [0x80] @ replicate ((119 - length r) mod 64) 0"
    and l: "64 dvd length m'" "length p = 56" "length q = 8" and c: "ctx_in (pad_in host ctx) = p @ q"
    "ctx_buf (pad_in host ctx) = rfc_state m'" "ctx_bits0 (pad_in host ctx) = ctx_bits0 ctx"
    "ctx_bits1 (pad_in host ctx) = ctx_bits1 ctx"
    using pad_in_split [OF sp t, of host] by blast
  let ?b = "p @ bytes_le (ctx_bits0 ctx) @ bytes_le (ctx_bits1 ctx)"
  have "rfc_pad msg = m' @ ?b"
    using mp by (simp add: rfc_pad_def md bits Let_def) (simp add: msg)
  then have s: "rfc_md5 msg = concat (map bytes_le (rfc_block (rfc_state m') ?b))"
    using l rfc_state_append [of m' "length m' div 64" ?b] by (simp add: rfc_md5_def rfc_state_def)
  have "MD5Final host ctx =
      take 16 (byteReverse host (concat (map (store32 host) (rfc_block (rfc_state m') ?b))) 4)"
    using last_block [OF l(2,3)] by (simp add: MD5Final_def Let_def c MD5Transform_ops rfc_block_def)
  moreover have "length (concat (map bytes_le (rfc_block (rfc_state m') ?b))) = 16"
    by (simp add: length_concat comp_def sum_list_triv)
  ultimately show ?thesis using store_reverse [of host "rfc_block (rfc_state m') ?b"] by (simp add: s)
qed

subsection \<open>Hashing in pieces\<close>

text \<open>The contract of an incremental hash: \<open>holds ctx msg\<close> says that the context has absorbed the message.\<close>

locale incremental_hash =
  fixes init :: 'c
    and update :: "'b list \<Rightarrow> 'c \<Rightarrow> 'c"
    and digest :: "'c \<Rightarrow> 'd"
    and holds :: "'c \<Rightarrow> 'b list \<Rightarrow> bool"
    and accepts :: "'b list \<Rightarrow> bool"
    and spec :: "'b list \<Rightarrow> 'd"
  assumes holds_init: "holds init []"
    and holds_update: "holds ctx msg \<Longrightarrow> accepts b \<Longrightarrow> holds (update b ctx) (msg @ b)"
    and holds_digest: "holds ctx msg \<Longrightarrow> digest ctx = spec msg"
begin

lemma holds_fold: "holds ctx msg \<Longrightarrow> list_all accepts bs \<Longrightarrow> holds (fold update bs ctx) (msg @ concat bs)"
proof (induction bs arbitrary: ctx msg)
  case (Cons b bs)
  then show ?case using Cons.IH [of "update b ctx" "msg @ b"] by (simp add: holds_update)
qed simp

lemma digest_pieces: "list_all accepts bs \<Longrightarrow> digest (fold update bs init) = spec (concat bs)"
  using holds_digest holds_fold [OF holds_init] by force

end

lemma MD5Init_holds: "length (ctx_in junk) = 64 \<Longrightarrow> ctx_holds (MD5Init junk) []"
  by (simp add: ctx_holds_def ctx_split_def MD5Init_def rfc_state_def blocks_short rfc_init_def)

definition md5_update :: "host \<Rightarrow> byte list \<Rightarrow> MD5Context \<Rightarrow> MD5Context" where
  "md5_update host b ctx = MD5Update host ctx b (length b)"

definition zero_ctx :: MD5Context where
  "zero_ctx = \<lparr>ctx_buf = [], ctx_bits0 = 0, ctx_bits1 = 0, ctx_in = replicate 64 0\<rparr>"

interpretation md5_pieces: incremental_hash
  "MD5Init (if length (ctx_in junk) = 64 then junk else zero_ctx)" "md5_update host" "MD5Final host"
  ctx_holds "\<lambda>b. length b < 2 ^ 32" rfc_md5
  for junk host
  by unfold_locales
    (use MD5Update_holds in \<open>force simp: MD5Init_holds zero_ctx_def md5_update_def MD5Final_holds\<close>)+

text \<open>The stream is read in pieces of 4096 bytes into one buffer, whose stale end is not hashed.\<close>

lemma md5_loop_holds:
  assumes "ctx_holds ctx msg" "\<not> ifail st" "\<not> ieof st" "length buffer = 4096"
  shows "\<exists>ctx'. md5_loop host st buffer ctx = Some ctx' \<and> ctx_holds ctx' (msg @ ibuf st)"
  using assms
proof (induction "length (ibuf st)" arbitrary: st buffer ctx msg rule: less_induct)
  case less
  note rd = md5_loop.simps [of host st buffer ctx]
  show ?case
  proof (cases "length (ibuf st) < 4096")
    case True
    let ?b = "ibuf st @ drop (length (ibuf st)) buffer"
    have "ctx_holds (MD5Update host ctx ?b (length (ibuf st))) (msg @ ibuf st)"
      using MD5Update_holds [OF less.prems(1), of "length (ibuf st)" ?b host] True by simp
    then show ?thesis using less.prems True rd by (simp add: is_read_def md5_loop.simps)
  next
    case False
    let ?g = "take 4096 (ibuf st)" and ?s = "st\<lparr>ibuf := drop 4096 (ibuf st)\<rparr>"
    have h: "ctx_holds (MD5Update host ctx ?g 4096) (msg @ ?g)"
      using MD5Update_holds [OF less.prems(1), of 4096 ?g host] False by simp
    have "md5_loop host st buffer ctx = md5_loop host ?s ?g (MD5Update host ctx ?g 4096)"
      using less.prems False rd by (simp add: is_read_def min_def Let_def)
    then show ?thesis using less.hyps [OF _ h, of ?s ?g] less.prems False by simp
  qed
qed

lemma md5_loop_fails: "md5_loop host st buffer ctx = Some c \<Longrightarrow> ieof st \<or> \<not> ifail st"
proof (rule md5_loop.raw_induct [where P = "\<lambda>host st buffer ctx c. ieof st \<or> \<not> ifail st"], goal_cases)
  case (1 f host st buffer ctx c)
  show ?case
  proof (rule ccontr)
    assume bad: "\<not> (ieof st \<or> \<not> ifail st)"
    with 1(3) have "f host (st\<lparr>ifail := True\<rparr>) buffer (MD5Update host ctx buffer 0) = Some c"
      by (simp add: is_read_def)
    from 1(2) [OF this] bad show False by simp
  qed
qed

lemma md5_encode_cases:
  assumes "length (ctx_in junk) = 64" "length buffer = 4096"
  shows "md5_encode host junk buffer st =
     (if ieof st then Some (concat (map hex_digits (rfc_md5 [])))
      else if ifail st then None
      else Some (concat (map hex_digits (rfc_md5 (ibuf st)))))"
proof -
  note h = MD5Init_holds [OF assms(1)]
  consider "ieof st" | "\<not> ieof st" "ifail st" | "\<not> ieof st" "\<not> ifail st" by blast
  then show ?thesis
  proof cases
    case 1
    then show ?thesis by (simp add: md5_encode_def md5_loop.simps MD5Final_holds [OF h])
  next
    case 2
    then have "md5_loop host st buffer (MD5Init junk) = None" using md5_loop_fails by fastforce
    with 2 show ?thesis by (simp add: md5_encode_def)
  next
    case 3
    then show ?thesis using md5_loop_holds [OF h 3(2,1) assms(2), of host] MD5Final_holds
      by (auto simp: md5_encode_def)
  qed
qed

text \<open>The first test vector of RFC 1321, by evaluation, one round of 16 operations at a time.\<close>

definition empty_words :: "uint32 list" where
  "empty_words = [0x80, 0, 0, 0, 0, 0, 0, 0, 0, 0, 0, 0, 0, 0, 0, 0]"

lemma rfc_op_eval:
  "0 < rfc_shift i \<Longrightarrow> rfc_shift i < 32 \<Longrightarrow> rfc_op x i (a, b, c, d) =
     (d, MD5STEP (rfc_fun (i div 16)) a b c d (x ! rfc_index i + rfc_T ! i) (rfc_shift i), b, c)"
  by (rule step_op) simp_all

lemmas eval_op = rfc_op_eval rfc_shift_def rfc_fun_def rfc_index_def rfc_T_def empty_words_def MD5STEP_def Let_def

lemma empty_rounds:
  "fold (rfc_op empty_words) [0, 1, 2, 3, 4, 5, 6, 7, 8, 9, 10, 11, 12, 13, 14, 15]
     (0x67452301, 0xefcdab89, 0x98badcfe, 0x10325476) = (0xf56c7cf1, 0xd6819c6a, 0x5aa53f75, 0x374943a7)"
  "fold (rfc_op empty_words) [16, 17, 18, 19, 20, 21, 22, 23, 24, 25, 26, 27, 28, 29, 30, 31]
     (0xf56c7cf1, 0xd6819c6a, 0x5aa53f75, 0x374943a7) = (0x13707036, 0xa2205f1f, 0x1c31c384, 0xae7813db)"
  "fold (rfc_op empty_words) [32, 33, 34, 35, 36, 37, 38, 39, 40, 41, 42, 43, 44, 45, 46, 47]
     (0x13707036, 0xa2205f1f, 0x1c31c384, 0xae7813db) = (0x3f55edfd, 0xca7d2dbd, 0x68d84ea2, 0x22a31f54)"
  "fold (rfc_op empty_words) [48, 49, 50, 51, 52, 53, 54, 55, 56, 57, 58, 59, 60, 61, 62, 63]
     (0x3f55edfd, 0xca7d2dbd, 0x68d84ea2, 0x22a31f54) = (0x7246fad3, 0x14e45506, 0xff4ea3eb, 0x6e10a476)"
  by (simp_all add: eval_op)

lemma replicate_bytes: "replicate 63 (0 :: byte) =
   [0, 0, 0, 0, 0, 0, 0, 0, 0, 0, 0, 0, 0, 0, 0, 0, 0, 0, 0, 0, 0, 0, 0, 0, 0, 0, 0, 0, 0, 0, 0, 0,
    0, 0, 0, 0, 0, 0, 0, 0, 0, 0, 0, 0, 0, 0, 0, 0, 0, 0, 0, 0, 0, 0, 0, 0, 0, 0, 0, 0, 0, 0, 0]"
  by (simp add: numeral_eq_Suc)

lemma rfc_md5_empty:
  "rfc_md5 [] = [0xd4, 0x1d, 0x8c, 0xd9, 0x8f, 0x00, 0xb2, 0x04, 0xe9, 0x80, 0x09, 0x98, 0xec, 0xf8, 0x42, 0x7e]"
proof -
  define b where "b = rfc_pad []"
  have l: "b = 0x80 # replicate 63 0" by (simp add: b_def rfc_pad_def bytes_le_def) (simp add: numeral_eq_Suc)
  then have w: "words_le b = empty_words" by (simp add: replicate_bytes word_le_def empty_words_def)
  have u: "[0..<64] =
     [0, 1, 2, 3, 4, 5, 6, 7, 8, 9, 10, 11, 12, 13, 14, 15] @
     [16, 17, 18, 19, 20, 21, 22, 23, 24, 25, 26, 27, 28, 29, 30, 31] @
     [32, 33, 34, 35, 36, 37, 38, 39, 40, 41, 42, 43, 44, 45, 46, 47] @
     [48, 49, 50, 51, 52, 53, 54, 55, 56, 57, 58, 59, 60, 61, 62, 63]"
    by (simp add: upt_64)
  have "fold (rfc_op empty_words) [0..<64] (0x67452301, 0xefcdab89, 0x98badcfe, 0x10325476) = (0x7246fad3, 0x14e45506, 0xff4ea3eb, 0x6e10a476)"
    unfolding u fold_append comp_apply empty_rounds ..
  moreover have "blocks b = [b]" using l blocks_Cons [of b "[]"] by (simp add: blocks_short)
  ultimately show ?thesis
    by (simp add: rfc_md5_def rfc_block_def rfc_init_def w add_regs_def bytes_le_def flip: b_def)
qed

lemma hex_md5_empty: "concat (map hex_digits (rfc_md5 [])) = ''d41d8cd98f00b204e9800998ecf8427e''"
  unfolding rfc_md5_empty by code_simp

subsection \<open>Properties\<close>

text \<open>C5: The MD5 routines implement RFC 1321 on hosts of either byte order.  A message passed to
  \<open>MD5Update\<close> in any pieces shorter than 4 GiB has, after \<open>MD5Final\<close>, the digest the reference
  assigns to the concatenation of the pieces, whatever the uninitialised block buffer contained.\<close>
theorem md5_refines_rfc:
  assumes "length (ctx_in junk) = 64" "list_all (\<lambda>b. length b < 2 ^ 32) bs"
  shows "MD5Final host (fold (\<lambda>b ctx. MD5Update host ctx b (length b)) bs (MD5Init junk)) = rfc_md5 (concat bs)"
proof -
  have "md5_update host = (\<lambda>b ctx. MD5Update host ctx b (length b))" by (intro ext) (simp add: md5_update_def)
  then show ?thesis using md5_pieces.digest_pieces [of bs host junk] assms by simp
qed

theorem md5_refines_rfc_witness:
  "MD5Final Big_Endian (fold (\<lambda>b ctx. MD5Update Big_Endian ctx b (length b)) [[], []] (MD5Init zero_ctx)) =
     [0xd4, 0x1d, 0x8c, 0xd9, 0x8f, 0x00, 0xb2, 0x04, 0xe9, 0x80, 0x09, 0x98, 0xec, 0xf8, 0x42, 0x7e]"
  using md5_refines_rfc [of zero_ctx "[[], []]" Big_Endian] by (simp add: zero_ctx_def rfc_md5_empty)

text \<open>C33: \<open>encoder_md5::encode\<close> returns exactly when its stream is at its end or has not failed, and then it
  writes the digest of everything that was left to read, in hexadecimal.  On a stream that failed without
  reaching its end, such as a file that could not be opened, the loop on \<open>in.eof ()\<close> never ends.\<close>
theorem md5_encode_returns:
  assumes "length (ctx_in junk) = 64" "length buffer = 4096"
  shows "md5_encode host junk buffer st =
     (if ieof st then Some (concat (map hex_digits (rfc_md5 [])))
      else if ifail st then None
      else Some (concat (map hex_digits (rfc_md5 (ibuf st)))))"
  using assms by (rule md5_encode_cases)

theorem md5_encode_returns_witness:
  "md5_encode Little_Endian zero_ctx (replicate 4096 0) \<lparr>ibuf = [], ieof = False, ifail = False\<rparr> =
     Some ''d41d8cd98f00b204e9800998ecf8427e''"
  using md5_encode_returns [of zero_ctx "replicate 4096 0" Little_Endian
      "\<lparr>ibuf = [], ieof = False, ifail = False\<rparr>"]
  by (simp add: zero_ctx_def hex_md5_empty)

end
