(* ===== verification/Ordered_Map.thy ===== *)
theory Ordered_Map
  imports Prelude
begin

text \<open>
  \<open>std::map<K, V, Compare>\<close>: an ordered sequence of entries, at most one per equivalence class of the
  comparator.  \<open>map_assign\<close> is \<open>m[k] = v\<close>: where a key equivalent to \<open>k\<close> is present its entry
  keeps that key and takes the new value.  The locale \<open>strict_weak_order\<close> is what the standard asks of
  a comparator; \<open>key_store\<close> is the contract the classes of the library rely on.
\<close>

type_synonym ('k, 'v) omap = "('k \<times> 'v) list"

fun map_entry :: "('k \<Rightarrow> 'k \<Rightarrow> bool) \<Rightarrow> 'k \<Rightarrow> ('k, 'v) omap \<Rightarrow> ('k \<times> 'v) option" where
  "map_entry lt k [] = None"
| "map_entry lt k ((a, b) # m) =
     (if lt a k then map_entry lt k m else if lt k a then None else Some (a, b))"

definition map_find :: "('k \<Rightarrow> 'k \<Rightarrow> bool) \<Rightarrow> 'k \<Rightarrow> ('k, 'v) omap \<Rightarrow> 'v option" where
  "map_find lt k m = map_option snd (map_entry lt k m)"

fun map_assign :: "('k \<Rightarrow> 'k \<Rightarrow> bool) \<Rightarrow> 'k \<Rightarrow> 'v \<Rightarrow> ('k, 'v) omap \<Rightarrow> ('k, 'v) omap" where
  "map_assign lt k v [] = [(k, v)]"
| "map_assign lt k v ((a, b) # m) =
     (if lt a k then (a, b) # map_assign lt k v m
      else if lt k a then (k, v) # (a, b) # m
      else (a, v) # m)"

fun map_erase :: "('k \<Rightarrow> 'k \<Rightarrow> bool) \<Rightarrow> 'k \<Rightarrow> ('k, 'v) omap \<Rightarrow> ('k, 'v) omap" where
  "map_erase lt k [] = []"
| "map_erase lt k ((a, b) # m) =
     (if lt a k then (a, b) # map_erase lt k m else if lt k a then (a, b) # m else m)"

definition map_ok :: "('k \<Rightarrow> 'k \<Rightarrow> bool) \<Rightarrow> ('k, 'v) omap \<Rightarrow> bool" where
  "map_ok lt m = sorted_wrt lt (map fst m)"

definition key_equiv :: "('k \<Rightarrow> 'k \<Rightarrow> bool) \<Rightarrow> 'k \<Rightarrow> 'k \<Rightarrow> bool" where
  "key_equiv lt a b = (\<not> lt a b \<and> \<not> lt b a)"

lemma map_find_simps [simp]:
  "map_find lt k [] = None"
  "map_find lt k ((a, b) # m) =
     (if lt a k then map_find lt k m else if lt k a then None else Some b)"
  by (simp_all add: map_find_def)

lemma map_ok_Nil [simp]: "map_ok lt []"
  by (simp add: map_ok_def)

lemma map_ok_Cons [simp]:
  "map_ok lt ((a, b) # m) \<longleftrightarrow> (\<forall>x \<in> fst ` set m. lt a x) \<and> map_ok lt m"
  by (simp add: map_ok_def)

subsection \<open>The contract of a keyed store\<close>

locale key_store =
  fixes find :: "'k \<Rightarrow> 'm \<Rightarrow> 'v option"
    and assign :: "'k \<Rightarrow> 'v \<Rightarrow> 'm \<Rightarrow> 'm"
    and ok :: "'m \<Rightarrow> bool"
    and same :: "'k \<Rightarrow> 'k \<Rightarrow> bool"
  assumes find_assign: "ok m \<Longrightarrow> find k (assign k' v m) = (if same k k' then Some v else find k m)"
    and ok_assign: "ok m \<Longrightarrow> ok (assign k v m)"
    and same_refl: "same k k"
begin

lemma find_assign_same: "ok m \<Longrightarrow> find k (assign k v m) = Some v"
  by (simp add: find_assign same_refl)

lemma assign_twice: "ok m \<Longrightarrow> find k (assign k' v (assign k' w m)) = find k (assign k' v m)"
  by (simp add: find_assign ok_assign)

lemma assign_commute:
  "ok m \<Longrightarrow> \<not> same a b \<Longrightarrow> \<not> same b a \<Longrightarrow> (\<And>k. same k a \<Longrightarrow> same k b \<Longrightarrow> False) \<Longrightarrow>
     find k (assign a v (assign b w m)) = find k (assign b w (assign a v m))"
  by (auto simp: find_assign ok_assign)

text \<open>A sequence of assignments is read back as its last entry for the key.\<close>

lemma ok_fold: "ok m \<Longrightarrow> ok (fold (\<lambda>(k, v). assign k v) kvs m)"
  by (induction kvs arbitrary: m) (auto simp: ok_assign)

lemma find_fold_last:
  "ok m \<Longrightarrow> find k (fold (\<lambda>(k, v). assign k v) kvs m) =
     (case List.find (\<lambda>(k', v). same k k') (rev kvs) of Some (k', v) \<Rightarrow> Some v | None \<Rightarrow> find k m)"
proof (induction kvs rule: rev_induct)
  case (snoc p kvs)
  then show ?case by (cases p) (auto simp: find_assign ok_fold)
qed simp

end

subsection \<open>Comparators\<close>

locale strict_weak_order =
  fixes lt :: "'k \<Rightarrow> 'k \<Rightarrow> bool"
  assumes less_irrefl: "\<not> lt a a"
    and less_trans: "lt a b \<Longrightarrow> lt b c \<Longrightarrow> lt a c"
    and equiv_trans: "key_equiv lt a b \<Longrightarrow> key_equiv lt b c \<Longrightarrow> key_equiv lt a c"
begin

lemma less_asym: "lt a b \<Longrightarrow> \<not> lt b a"
  by (metis less_irrefl less_trans)

lemma equiv_refl: "key_equiv lt a a"
  by (simp add: key_equiv_def less_irrefl)

lemma equiv_sym: "key_equiv lt a b \<Longrightarrow> key_equiv lt b a"
  by (simp add: key_equiv_def)

lemma less_equiv_left: "key_equiv lt a b \<Longrightarrow> lt a c \<longleftrightarrow> lt b c"
  by (metis key_equiv_def equiv_trans less_asym less_trans)

lemma less_equiv_right: "key_equiv lt a b \<Longrightarrow> lt c a \<longleftrightarrow> lt c b"
  by (metis key_equiv_def equiv_trans less_asym less_trans)

lemma fst_set_assign: "fst ` set (map_assign lt k v m) \<subseteq> insert k (fst ` set m)"
proof (induction m)
  case (Cons p m)
  then show ?case by (cases p) auto
qed simp

lemma map_ok_assign: "map_ok lt m \<Longrightarrow> map_ok lt (map_assign lt k v m)"
proof (induction m)
  case (Cons p m)
  obtain a b where p: "p = (a, b)" by (cases p)
  have above: "\<forall>x \<in> fst ` set m. lt a x" and ok: "map_ok lt (map_assign lt k v m)"
    using Cons by (simp_all add: p)
  have "\<forall>x \<in> fst ` set (map_assign lt k v m). lt a x" if "lt a k"
    using above that fst_set_assign [of k v m] by blast
  moreover have "\<forall>x \<in> fst ` set m. lt k x" if "lt k a"
    using above that less_trans by blast
  ultimately show ?case using Cons.prems ok by (auto simp: p)
qed simp

text \<open>Assigning the entries of an ordered map one by one, in its order, rebuilds it.\<close>

lemma assign_above: "\<forall>x \<in> fst ` set m. lt x k \<Longrightarrow> map_assign lt k v m = m @ [(k, v)]"
proof (induction m)
  case (Cons p m)
  then show ?case by (cases p) auto
qed simp

lemma fold_assign_ordered:
  "map_ok lt (m @ n) \<Longrightarrow> fold (\<lambda>(k, v). map_assign lt k v) n m = m @ n"
proof (induction n arbitrary: m)
  case (Cons p n)
  obtain k v where p: "p = (k, v)" by (cases p)
  have "\<forall>x \<in> fst ` set m. lt x k" using Cons.prems by (auto simp: map_ok_def p sorted_wrt_append)
  then show ?case using Cons.IH [of "m @ [(k, v)]"] Cons.prems by (simp add: p assign_above)
qed simp

text \<open>Below the first entry of an ordered map there is nothing to find.\<close>

lemma map_find_below:
  "\<forall>x \<in> fst ` set m. lt k x \<Longrightarrow> map_find lt k m = None"
  using less_asym by (cases m) auto

lemma map_find_assign:
  "map_ok lt m \<Longrightarrow>
     map_find lt k (map_assign lt k' v m) =
       (if key_equiv lt k k' then Some v else map_find lt k m)"
proof (induction m)
  case Nil
  then show ?case by (simp add: key_equiv_def)
next
  case (Cons p m)
  obtain a b where p: "p = (a, b)" by (cases p)
  from Cons have IH: "map_find lt k (map_assign lt k' v m) =
      (if key_equiv lt k k' then Some v else map_find lt k m)" by (simp add: p)
  consider "lt a k'" | "lt k' a" "\<not> lt a k'" | "key_equiv lt a k'"
    by (auto simp: key_equiv_def)
  then show ?case
  proof cases
    case 1
    have "key_equiv lt k k' \<Longrightarrow> lt a k" using 1 less_equiv_right by blast
    with 1 IH show ?thesis by (auto simp: p)
  next
    case 2
    have "lt k k' \<Longrightarrow> lt k a" using 2(1) less_trans by blast
    moreover have "lt k k' \<Longrightarrow> \<not> lt k' k" "lt k a \<Longrightarrow> \<not> lt a k" by (auto dest: less_asym)
    ultimately show ?thesis using 2 by (auto simp: p key_equiv_def)
  next
    case 3
    then have "lt a k \<longleftrightarrow> lt k' k" "lt k a \<longleftrightarrow> lt k k'"
      using less_equiv_left less_equiv_right by blast+
    with 3 show ?thesis by (auto simp: p key_equiv_def)
  qed
qed

lemma set_erase_subset: "set (map_erase lt k m) \<subseteq> set m"
proof (induction m)
  case (Cons p m)
  then show ?case by (cases p) auto
qed simp

lemma map_ok_erase: "map_ok lt m \<Longrightarrow> map_ok lt (map_erase lt k m)"
proof (induction m)
  case (Cons p m)
  then show ?case using set_erase_subset [of k m] by (cases p) fastforce
qed simp

lemma map_find_erase:
  "map_ok lt m \<Longrightarrow>
     map_find lt k (map_erase lt k' m) = (if key_equiv lt k k' then None else map_find lt k m)"
proof (induction m)
  case (Cons p m)
  obtain a b where p: "p = (a, b)" by (cases p)
  from Cons have IH: "map_find lt k (map_erase lt k' m) =
      (if key_equiv lt k k' then None else map_find lt k m)"
    and above: "\<forall>x \<in> fst ` set m. lt a x" by (simp_all add: p)
  consider "lt a k'" | "lt k' a" "\<not> lt a k'" | "key_equiv lt a k'"
    by (auto simp: key_equiv_def)
  then show ?case
  proof cases
    case 1
    have "key_equiv lt k k' \<Longrightarrow> lt a k" using 1 less_equiv_right by blast
    with 1 IH show ?thesis by (auto simp: p)
  next
    case 2
    then have "key_equiv lt k k' \<Longrightarrow> lt k a \<and> \<not> lt a k"
      using less_equiv_left less_equiv_right less_asym by blast
    with 2 show ?thesis by (auto simp: p)
  next
    case 3
    then have eq: "lt a k \<longleftrightarrow> lt k' k" "lt k a \<longleftrightarrow> lt k k'"
      using less_equiv_left less_equiv_right by blast+
    have "map_find lt k m = None" if "\<not> lt k' k"
    proof -
      have "lt k x" if x: "x \<in> fst ` set m" for x
      proof (cases "lt k a")
        case True
        then show ?thesis using above x less_trans by blast
      next
        case False
        then have "key_equiv lt a k" using \<open>\<not> lt k' k\<close> eq by (simp add: key_equiv_def)
        then show ?thesis using above x less_equiv_left by blast
      qed
      then show ?thesis by (simp add: map_find_below)
    qed
    with 3 eq show ?thesis by (auto simp: p key_equiv_def)
  qed
qed simp

end

sublocale strict_weak_order \<subseteq> key_store "map_find lt" "map_assign lt" "map_ok lt" "key_equiv lt"
  by unfold_locales (auto simp: map_find_assign map_ok_assign equiv_refl)

subsection \<open>Lexicographic comparators\<close>

text \<open>\<open>std::lexicographical_compare\<close> and \<open>memcmp\<close>: the elements are compared by a natural number.\<close>

fun lex_less :: "('a \<Rightarrow> nat) \<Rightarrow> 'a list \<Rightarrow> 'a list \<Rightarrow> bool" where
  "lex_less f [] [] = False"
| "lex_less f [] (b # t) = True"
| "lex_less f (a # s) [] = False"
| "lex_less f (a # s) (b # t) = (if f a < f b then True else if f b < f a then False else lex_less f s t)"

lemma lex_less_irrefl: "\<not> lex_less f s s"
  by (induction s) auto

lemma lex_less_trans: "lex_less f s t \<Longrightarrow> lex_less f t u \<Longrightarrow> lex_less f s u"
proof (induction f s t arbitrary: u rule: lex_less.induct)
  case (2 f b t)
  then show ?case by (cases u) auto
next
  case (4 f a s b t)
  then show ?case by (cases u) (auto split: if_splits)
qed auto

lemma lex_less_equiv: "key_equiv (lex_less f) s t \<longleftrightarrow> map f s = map f t"
  by (induction f s t rule: lex_less.induct) (auto simp: key_equiv_def split: if_splits)

lemma lex_less_order: "strict_weak_order (lex_less f)"
proof
  show "\<not> lex_less f a a" for a by (rule lex_less_irrefl)
  show "lex_less f a c" if "lex_less f a b" "lex_less f b c" for a b c using that by (rule lex_less_trans)
  show "key_equiv (lex_less f) a c" if "key_equiv (lex_less f) a b" "key_equiv (lex_less f) b c" for a b c
    using that by (simp add: lex_less_equiv)
qed

end
