(* ===== verification/Uuid.thy ===== *)
theory Uuid
  imports Streams Codec Ordered_Map
begin

text \<open>
  \<open>src/dcl/uuid.cpp\<close>: a UUID is its array of 16 bytes.  \<open>assign\<close> reads hexadecimal digits in pairs and
  skips everything else; \<open>str\<close> prints the canonical text; the comparison is lexicographic.  The clock
  and the random generator are parameters of \<open>generate\<close>.
\<close>

type_synonym uuid = "byte list"

definition uuid_size :: nat where "uuid_size = 16"

definition uuid_ok :: "uuid \<Rightarrow> bool" where
  "uuid_ok d = (length d = uuid_size)"

definition uuid_clear :: uuid where
  "uuid_clear = replicate uuid_size 0"

definition uuid_empty :: "uuid \<Rightarrow> bool" where
  "uuid_empty d = list_all (\<lambda>b. b = 0) d"

definition hex_byte :: "string \<Rightarrow> byte" where
  "hex_byte buf = of_int (strtol 16 buf)"

fun assign_loop :: "string \<Rightarrow> string \<Rightarrow> nat \<Rightarrow> uuid \<Rightarrow> uuid" where
  "assign_loop [] buf j d = (if buf \<noteq> [] then d[j := hex_byte buf] else d)"
| "assign_loop (c # s) buf j d =
     (if is_xdigit c then
        (let buf = buf @ [c]
         in if length buf = 2 then
              (let d = d[j := hex_byte buf]
               in if j + 1 = uuid_size then d else assign_loop s [] (j + 1) d)
            else assign_loop s buf j d)
      else assign_loop s buf j d)"

definition uuid_assign :: "string \<Rightarrow> uuid" where
  "uuid_assign value = assign_loop value [] 0 uuid_clear"

definition hex2 :: "byte \<Rightarrow> string" where
  "hex2 b = [hex_char (unat b div 16), hex_char (unat b mod 16)]"

fun str_loop :: "nat \<Rightarrow> uuid \<Rightarrow> string" where
  "str_loop i [] = []"
| "str_loop i (b # d) =
     hex2 b @ (if i = 3 \<or> i = 5 \<or> i = 7 \<or> i = 9 then ''-'' else []) @ str_loop (i + 1) d"

definition uuid_str :: "uuid \<Rightarrow> string" where
  "uuid_str d = str_loop 0 d"

definition uuid_eq :: "uuid \<Rightarrow> uuid \<Rightarrow> bool" where
  "uuid_eq a b = list_all2 (=) a b"

fun uuid_less :: "uuid \<Rightarrow> uuid \<Rightarrow> bool" where
  "uuid_less [] [] = False"
| "uuid_less [] (y # ys) = True"
| "uuid_less (x # xs) [] = False"
| "uuid_less (x # xs) (y # ys) = (x < y \<or> (\<not> y < x \<and> uuid_less xs ys))"

definition uuid_generate :: "64 word \<Rightarrow> (nat \<Rightarrow> nat) \<Rightarrow> uuid" where
  "uuid_generate t rand =
     [ucast t, ucast (drop_bit 8 t), ucast (drop_bit 16 t), ucast (drop_bit 24 t)]
     @ map (\<lambda>i. of_nat (rand i mod 0xFF)) [4..<16]"

subsection \<open>Reading\<close>

lemma length_assign_loop [simp]: "length (assign_loop s buf j d) = length d"
  by (induction s buf j d rule: assign_loop.induct) (auto simp: Let_def)

lemma assign_loop_filter: "assign_loop (filter is_xdigit s) buf j d = assign_loop s buf j d"
  by (induction s buf j d rule: assign_loop.induct) (auto simp: Let_def)

lemma hex2_props: "hex_byte (hex2 b) = b" "list_all is_xdigit (hex2 b)"
proof -
  have "unat b < 256" using unsigned_less [of b] by simp
  then have "unat b div 16 < 16" "unat b mod 16 < 16" by auto
  then show "list_all is_xdigit (hex2 b)" and "hex_byte (hex2 b) = b"
    by (simp_all add: hex2_def hex_byte_def hex_char_props strtol_16_pair)
qed

lemma not_xdigit_dash [simp]: "\<not> is_xdigit CHR ''-''"
  by (simp add: is_xdigit_def is_digit_def)

lemma assign_loop_hex2:
  "assign_loop (hex2 b @ s) [] j d =
     (if j + 1 = uuid_size then d[j := b] else assign_loop s [] (j + 1) (d[j := b]))"
  using hex2_props [of b] by (simp add: hex2_def Let_def)

lemma assign_loop_str:
  "length d + j = uuid_size \<Longrightarrow> length acc = j \<Longrightarrow> length rest = length d \<Longrightarrow>
     assign_loop (str_loop j d) [] j (acc @ rest) = acc @ d"
proof (induction d arbitrary: j acc rest)
  case (Cons b d)
  obtain x xs where rest: "rest = x # xs" using Cons.prems by (cases rest) auto
  have upd: "(acc @ rest)[j := b] = (acc @ [b]) @ xs"
    using Cons.prems(2) by (simp add: rest list_update_append)
  have dash: "assign_loop ((if P then ''-'' else []) @ t) [] i e = assign_loop t [] i e" for P t i e
    by simp
  show ?case
  proof (cases "j + 1 = uuid_size")
    case True
    moreover have "length (b # d) + j = uuid_size" by (rule Cons.prems(1))
    ultimately have "length d = 0" by (simp only: list.size)
    then have "d = []" "xs = []" using Cons.prems rest by simp_all
    with True upd show ?thesis by (simp add: assign_loop_hex2)
  next
    case False
    have "assign_loop (str_loop (j + 1) d) [] (j + 1) ((acc @ [b]) @ xs) = (acc @ [b]) @ d"
      using Cons.prems rest by (intro Cons.IH) auto
    with False upd show ?thesis by (simp only: str_loop.simps assign_loop_hex2 dash) simp
  qed
qed simp

lemma uuid_assign_str: "uuid_ok d \<Longrightarrow> uuid_assign (uuid_str d) = d"
  using assign_loop_str [of d 0 "[]" uuid_clear]
  by (simp add: uuid_assign_def uuid_str_def uuid_ok_def uuid_clear_def)

interpretation uuid_text: partial_codec uuid_ok uuid_str uuid_assign
  by unfold_locales (rule uuid_assign_str)

subsection \<open>Order\<close>

lemma uuid_less_irrefl: "\<not> uuid_less a a"
  by (induction a) auto

lemma uuid_less_trans: "uuid_less a b \<Longrightarrow> uuid_less b c \<Longrightarrow> uuid_less a c"
proof (induction a b arbitrary: c rule: uuid_less.induct)
  case (2 y ys)
  then show ?case by (cases c) auto
next
  case (4 x xs y ys)
  then show ?case by (cases c) (simp, fastforce)
qed auto

lemma uuid_less_linear: "uuid_less a b \<or> a = b \<or> uuid_less b a"
  by (induction a b rule: uuid_less.induct) auto

interpretation uuid_order: strict_weak_order uuid_less
proof
  show "key_equiv uuid_less a b \<Longrightarrow> key_equiv uuid_less b c \<Longrightarrow> key_equiv uuid_less a c" for a b c
    using uuid_less_linear by (metis key_equiv_def)
qed (auto simp: uuid_less_irrefl intro: uuid_less_trans)

subsection \<open>Properties\<close>

text \<open>The canonical text of a UUID reads back as the same 16 bytes; reading any text at all gives
  16 bytes and depends on its hexadecimal digits only.\<close>
theorem uuid_text_roundtrip:
  "(uuid_ok d \<longrightarrow> uuid_assign (uuid_str d) = d) \<and> uuid_ok (uuid_assign s) \<and>
   uuid_assign s = uuid_assign (filter is_xdigit s)"
  using uuid_text.decode_encode
  by (simp add: uuid_ok_def uuid_assign_def uuid_clear_def assign_loop_filter)

theorem uuid_text_roundtrip_witness:
  "uuid_ok (replicate 16 0xa7) \<and> uuid_assign (uuid_str (replicate 16 0xa7)) = replicate 16 0xa7"
proof -
  have ok: "uuid_ok (replicate 16 0xa7)" by (simp add: uuid_ok_def uuid_size_def)
  show ?thesis using ok uuid_text_roundtrip [of "replicate 16 0xa7"] by simp
qed

text \<open>The comparison of UUIDs is a strict total order, so that a UUID can key an ordered container,
  and equality of the order is equality of the bytes.\<close>
theorem uuid_total_order:
  "\<not> uuid_less a a \<and> (uuid_less a b \<and> uuid_less b c \<longrightarrow> uuid_less a c) \<and>
   (uuid_less a b \<or> uuid_eq a b \<or> uuid_less b a) \<and> (key_equiv uuid_less a b \<longleftrightarrow> uuid_eq a b)"
  using uuid_less_irrefl uuid_less_linear [of a b] uuid_order.less_trans
  by (auto simp: uuid_eq_def list_all2_eq [symmetric] key_equiv_def)

theorem uuid_total_order_witness:
  "uuid_less [1, 2] [1, 3] \<and> uuid_less [1, 3] [2, 0] \<and> uuid_less [1, 2] [2, 0]"
  using uuid_total_order [of "[1, 2]" "[1, 3]" "[2, 0]"] by simp

end
