(* ===== verification/Locmap_Table.thy ===== *)
theory Locmap_Table
  imports Prelude
begin

text \<open>
  The static tables of \<open>src/dcl/win32/locmap.c\<close>: one list of (LCID, POSIX identifier) pairs per
  language, in the order of the source, and the table of tables \<open>gPosixIDmap\<close>.  The macro
  \<open>ILCID_POSIX_ELEMENT_ARRAY\<close> is the function \<open>element_array\<close>.
\<close>

type_synonym lcid = "32 word"
type_synonym lcid_posix = "lcid \<times> string"

definition LANGUAGE_LCID :: "lcid \<Rightarrow> lcid" where
  "LANGUAGE_LCID hostID = and 0x03FF hostID"

definition element_array :: "lcid \<Rightarrow> string \<Rightarrow> string \<Rightarrow> lcid_posix list" where
  "element_array hostID languageID posixID = [(LANGUAGE_LCID hostID, languageID), (hostID, posixID)]"

definition locmap_af :: "lcid_posix list" where
  "locmap_af = element_array 0x0436 ''af'' ''af_ZA''"

definition locmap_ar :: "lcid_posix list" where
  "locmap_ar =
    [(0x01, ''ar''), (0x3801, ''ar_AE''), (0x3c01, ''ar_BH''), (0x1401, ''ar_DZ''),
     (0x0c01, ''ar_EG''), (0x0801, ''ar_IQ''), (0x2c01, ''ar_JO''), (0x3401, ''ar_KW''),
     (0x3001, ''ar_LB''), (0x1001, ''ar_LY''), (0x1801, ''ar_MA''), (0x2001, ''ar_OM''),
     (0x4001, ''ar_QA''), (0x0401, ''ar_SA''), (0x2801, ''ar_SY''), (0x1c01, ''ar_TN''),
     (0x2401, ''ar_YE'')]"

definition locmap_as :: "lcid_posix list" where
  "locmap_as = element_array 0x044d ''as'' ''as_IN''"

definition locmap_am :: "lcid_posix list" where
  "locmap_am = element_array 0x045e ''am'' ''am_ET''"

definition locmap_arn :: "lcid_posix list" where
  "locmap_arn = element_array 0x047a ''arn'' ''arn_CL''"

definition locmap_az :: "lcid_posix list" where
  "locmap_az =
    [(0x2c, ''az''), (0x082c, ''az_Cyrl_AZ''), (0x742c, ''az_Cyrl''), (0x042c, ''az_Latn_AZ''),
     (0x782c, ''az_Latn''), (0x042c, ''az_AZ'')]"

definition locmap_ba :: "lcid_posix list" where
  "locmap_ba = element_array 0x046d ''ba'' ''ba_RU''"

definition locmap_be :: "lcid_posix list" where
  "locmap_be = element_array 0x0423 ''be'' ''be_BY''"

definition locmap_ber :: "lcid_posix list" where
  "locmap_ber =
    [(0x5f, ''ber''), (0x045f, ''ber_Arab_DZ''), (0x045f, ''ber_Arab''),
     (0x085f, ''ber_Latn_DZ''), (0x085f, ''ber_Latn'')]"

definition locmap_bg :: "lcid_posix list" where
  "locmap_bg = element_array 0x0402 ''bg'' ''bg_BG''"

definition locmap_bn :: "lcid_posix list" where
  "locmap_bn =
    [(0x45, ''bn''), (0x0845, ''bn_BD''), (0x0445, ''bn_IN'')]"

definition locmap_bo :: "lcid_posix list" where
  "locmap_bo =
    [(0x51, ''bo''), (0x0851, ''bo_BT''), (0x0451, ''bo_CN'')]"

definition locmap_br :: "lcid_posix list" where
  "locmap_br = element_array 0x047e ''br'' ''br_FR''"

definition locmap_ca :: "lcid_posix list" where
  "locmap_ca = element_array 0x0403 ''ca'' ''ca_ES''"

definition locmap_co :: "lcid_posix list" where
  "locmap_co = element_array 0x0483 ''co'' ''co_FR''"

definition locmap_chr :: "lcid_posix list" where
  "locmap_chr = element_array 0x045c ''chr'' ''chr_US''"

definition locmap_cs :: "lcid_posix list" where
  "locmap_cs = element_array 0x0405 ''cs'' ''cs_CZ''"

definition locmap_cy :: "lcid_posix list" where
  "locmap_cy = element_array 0x0452 ''cy'' ''cy_GB''"

definition locmap_da :: "lcid_posix list" where
  "locmap_da = element_array 0x0406 ''da'' ''da_DK''"

definition locmap_de :: "lcid_posix list" where
  "locmap_de =
    [(0x07, ''de''), (0x0c07, ''de_AT''), (0x0807, ''de_CH''), (0x0407, ''de_DE''),
     (0x1407, ''de_LI''), (0x1007, ''de_LU''), (0x10407, ''de_DE@collation=phonebook''),
     (0x10407, ''de@collation=phonebook'')]"

definition locmap_dv :: "lcid_posix list" where
  "locmap_dv = element_array 0x0465 ''dv'' ''dv_MV''"

definition locmap_el :: "lcid_posix list" where
  "locmap_el = element_array 0x0408 ''el'' ''el_GR''"

definition locmap_en :: "lcid_posix list" where
  "locmap_en =
    [(0x09, ''en''), (0x0c09, ''en_AU''), (0x2809, ''en_BZ''), (0x1009, ''en_CA''),
     (0x0809, ''en_GB''), (0x1809, ''en_IE''), (0x4009, ''en_IN''), (0x2009, ''en_JM''),
     (0x4409, ''en_MY''), (0x1409, ''en_NZ''), (0x3409, ''en_PH''), (0x4809, ''en_SG''),
     (0x2c09, ''en_TT''), (0x0409, ''en_US''), (0x007f, ''en_US_POSIX''), (0x2409, ''en_VI''),
     (0x1c09, ''en_ZA''), (0x3009, ''en_ZW''), (0x2409, ''en_029''), (0x0409, ''en_AS''),
     (0x0409, ''en_GU''), (0x0409, ''en_MH''), (0x0409, ''en_MP''), (0x0409, ''en_UM'')]"

definition locmap_en_US_POSIX :: "lcid_posix list" where
  "locmap_en_US_POSIX =
    [(0x007f, ''en_US_POSIX'')]"

definition locmap_es :: "lcid_posix list" where
  "locmap_es =
    [(0x0a, ''es''), (0x2c0a, ''es_AR''), (0x400a, ''es_BO''), (0x340a, ''es_CL''),
     (0x240a, ''es_CO''), (0x140a, ''es_CR''), (0x1c0a, ''es_DO''), (0x300a, ''es_EC''),
     (0x0c0a, ''es_ES''), (0x100a, ''es_GT''), (0x480a, ''es_HN''), (0x080a, ''es_MX''),
     (0x4c0a, ''es_NI''), (0x180a, ''es_PA''), (0x280a, ''es_PE''), (0x500a, ''es_PR''),
     (0x3c0a, ''es_PY''), (0x440a, ''es_SV''), (0x540a, ''es_US''), (0x380a, ''es_UY''),
     (0x200a, ''es_VE''), (0x040a, ''es_ES@collation=traditional''),
     (0x040a, ''es@collation=traditional'')]"

definition locmap_et :: "lcid_posix list" where
  "locmap_et = element_array 0x0425 ''et'' ''et_EE''"

definition locmap_eu :: "lcid_posix list" where
  "locmap_eu = element_array 0x042d ''eu'' ''eu_ES''"

definition locmap_fa :: "lcid_posix list" where
  "locmap_fa =
    [(0x29, ''fa''), (0x0429, ''fa_IR''), (0x048c, ''fa_AF'')]"

definition locmap_fa_AF :: "lcid_posix list" where
  "locmap_fa_AF =
    [(0x8c, ''fa_AF''), (0x048c, ''fa_AF'')]"

definition locmap_fi :: "lcid_posix list" where
  "locmap_fi = element_array 0x040b ''fi'' ''fi_FI''"

definition locmap_fil :: "lcid_posix list" where
  "locmap_fil = element_array 0x0464 ''fil'' ''fil_PH''"

definition locmap_fo :: "lcid_posix list" where
  "locmap_fo = element_array 0x0438 ''fo'' ''fo_FO''"

definition locmap_fr :: "lcid_posix list" where
  "locmap_fr =
    [(0x0c, ''fr''), (0x080c, ''fr_BE''), (0x0c0c, ''fr_CA''), (0x240c, ''fr_CD''),
     (0x100c, ''fr_CH''), (0x300c, ''fr_CI''), (0x2c0c, ''fr_CM''), (0x040c, ''fr_FR''),
     (0x3c0c, ''fr_HT''), (0x140c, ''fr_LU''), (0x380c, ''fr_MA''), (0x180c, ''fr_MC''),
     (0x340c, ''fr_ML''), (0x200c, ''fr_RE''), (0x280c, ''fr_SN'')]"

definition locmap_fy :: "lcid_posix list" where
  "locmap_fy = element_array 0x0462 ''fy'' ''fy_NL''"

definition locmap_ga :: "lcid_posix list" where
  "locmap_ga = element_array 0x083c ''ga'' ''ga_IE''"

definition locmap_gd :: "lcid_posix list" where
  "locmap_gd = element_array 0x0491 ''gd'' ''gd_GB''"

definition locmap_gl :: "lcid_posix list" where
  "locmap_gl = element_array 0x0456 ''gl'' ''gl_ES''"

definition locmap_gu :: "lcid_posix list" where
  "locmap_gu = element_array 0x0447 ''gu'' ''gu_IN''"

definition locmap_gn :: "lcid_posix list" where
  "locmap_gn = element_array 0x0474 ''gn'' ''gn_PY''"

definition locmap_gsw :: "lcid_posix list" where
  "locmap_gsw = element_array 0x0484 ''gsw'' ''gsw_FR''"

definition locmap_ha :: "lcid_posix list" where
  "locmap_ha =
    [(0x68, ''ha''), (0x7c68, ''ha_Latn''), (0x0468, ''ha_Latn_NG'')]"

definition locmap_haw :: "lcid_posix list" where
  "locmap_haw = element_array 0x0475 ''haw'' ''haw_US''"

definition locmap_he :: "lcid_posix list" where
  "locmap_he = element_array 0x040d ''he'' ''he_IL''"

definition locmap_hi :: "lcid_posix list" where
  "locmap_hi = element_array 0x0439 ''hi'' ''hi_IN''"

definition locmap_hr :: "lcid_posix list" where
  "locmap_hr =
    [(0x1a, ''hr''), (0x141a, ''bs_Latn_BA''), (0x681a, ''bs_Latn''), (0x141a, ''bs_BA''),
     (0x781a, ''bs''), (0x201a, ''bs_Cyrl_BA''), (0x641a, ''bs_Cyrl''), (0x101a, ''hr_BA''),
     (0x041a, ''hr_HR''), (0x2c1a, ''sr_Latn_ME''), (0x241a, ''sr_Latn_RS''),
     (0x181a, ''sr_Latn_BA''), (0x081a, ''sr_Latn_CS''), (0x701a, ''sr_Latn''),
     (0x1c1a, ''sr_Cyrl_BA''), (0x0c1a, ''sr_Cyrl_CS''), (0x301a, ''sr_Cyrl_ME''),
     (0x281a, ''sr_Cyrl_RS''), (0x6c1a, ''sr_Cyrl''), (0x7c1a, ''sr'')]"

definition locmap_hu :: "lcid_posix list" where
  "locmap_hu = element_array 0x040e ''hu'' ''hu_HU''"

definition locmap_hy :: "lcid_posix list" where
  "locmap_hy = element_array 0x042b ''hy'' ''hy_AM''"

definition locmap_id :: "lcid_posix list" where
  "locmap_id = element_array 0x0421 ''id'' ''id_ID''"

definition locmap_ig :: "lcid_posix list" where
  "locmap_ig = element_array 0x0470 ''ig'' ''ig_NG''"

definition locmap_ii :: "lcid_posix list" where
  "locmap_ii = element_array 0x0478 ''ii'' ''ii_CN''"

definition locmap_is :: "lcid_posix list" where
  "locmap_is = element_array 0x040f ''is'' ''is_IS''"

definition locmap_it :: "lcid_posix list" where
  "locmap_it =
    [(0x10, ''it''), (0x0810, ''it_CH''), (0x0410, ''it_IT'')]"

definition locmap_iu :: "lcid_posix list" where
  "locmap_iu =
    [(0x5d, ''iu''), (0x045d, ''iu_Cans_CA''), (0x785d, ''iu_Cans''), (0x085d, ''iu_Latn_CA''),
     (0x7c5d, ''iu_Latn'')]"

definition locmap_iw :: "lcid_posix list" where
  "locmap_iw = element_array 0x040d ''iw'' ''iw_IL''"

definition locmap_ja :: "lcid_posix list" where
  "locmap_ja = element_array 0x0411 ''ja'' ''ja_JP''"

definition locmap_ka :: "lcid_posix list" where
  "locmap_ka = element_array 0x0437 ''ka'' ''ka_GE''"

definition locmap_kk :: "lcid_posix list" where
  "locmap_kk = element_array 0x043f ''kk'' ''kk_KZ''"

definition locmap_kl :: "lcid_posix list" where
  "locmap_kl = element_array 0x046f ''kl'' ''kl_GL''"

definition locmap_km :: "lcid_posix list" where
  "locmap_km = element_array 0x0453 ''km'' ''km_KH''"

definition locmap_kn :: "lcid_posix list" where
  "locmap_kn = element_array 0x044b ''kn'' ''kn_IN''"

definition locmap_ko :: "lcid_posix list" where
  "locmap_ko =
    [(0x12, ''ko''), (0x0812, ''ko_KP''), (0x0412, ''ko_KR'')]"

definition locmap_kok :: "lcid_posix list" where
  "locmap_kok = element_array 0x0457 ''kok'' ''kok_IN''"

definition locmap_kr :: "lcid_posix list" where
  "locmap_kr = element_array 0x0471 ''kr'' ''kr_NG''"

definition locmap_ks :: "lcid_posix list" where
  "locmap_ks =
    [(0x60, ''ks''), (0x0860, ''ks_IN''), (0x0460, ''ks_Arab_IN'')]"

definition locmap_ky :: "lcid_posix list" where
  "locmap_ky = element_array 0x0440 ''ky'' ''ky_KG''"

definition locmap_la :: "lcid_posix list" where
  "locmap_la = element_array 0x0476 ''la'' ''la_IT''"

definition locmap_lb :: "lcid_posix list" where
  "locmap_lb = element_array 0x046e ''lb'' ''lb_LU''"

definition locmap_lo :: "lcid_posix list" where
  "locmap_lo = element_array 0x0454 ''lo'' ''lo_LA''"

definition locmap_lt :: "lcid_posix list" where
  "locmap_lt = element_array 0x0427 ''lt'' ''lt_LT''"

definition locmap_lv :: "lcid_posix list" where
  "locmap_lv = element_array 0x0426 ''lv'' ''lv_LV''"

definition locmap_mi :: "lcid_posix list" where
  "locmap_mi = element_array 0x0481 ''mi'' ''mi_NZ''"

definition locmap_mk :: "lcid_posix list" where
  "locmap_mk = element_array 0x042f ''mk'' ''mk_MK''"

definition locmap_ml :: "lcid_posix list" where
  "locmap_ml = element_array 0x044c ''ml'' ''ml_IN''"

definition locmap_mn :: "lcid_posix list" where
  "locmap_mn =
    [(0x50, ''mn''), (0x0450, ''mn_MN''), (0x7c50, ''mn_Mong''), (0x0850, ''mn_Mong_CN''),
     (0x0850, ''mn_CN''), (0x7850, ''mn_Cyrl'')]"

definition locmap_mni :: "lcid_posix list" where
  "locmap_mni = element_array 0x0458 ''mni'' ''mni_IN''"

definition locmap_moh :: "lcid_posix list" where
  "locmap_moh = element_array 0x047c ''moh'' ''moh_CA''"

definition locmap_mr :: "lcid_posix list" where
  "locmap_mr = element_array 0x044e ''mr'' ''mr_IN''"

definition locmap_ms :: "lcid_posix list" where
  "locmap_ms =
    [(0x3e, ''ms''), (0x083e, ''ms_BN''), (0x043e, ''ms_MY'')]"

definition locmap_mt :: "lcid_posix list" where
  "locmap_mt = element_array 0x043a ''mt'' ''mt_MT''"

definition locmap_my :: "lcid_posix list" where
  "locmap_my = element_array 0x0455 ''my'' ''my_MM''"

definition locmap_ne :: "lcid_posix list" where
  "locmap_ne =
    [(0x61, ''ne''), (0x0861, ''ne_IN''), (0x0461, ''ne_NP'')]"

definition locmap_nl :: "lcid_posix list" where
  "locmap_nl =
    [(0x13, ''nl''), (0x0813, ''nl_BE''), (0x0413, ''nl_NL'')]"

definition locmap_no :: "lcid_posix list" where
  "locmap_no =
    [(0x14, ''no''), (0x7c14, ''nb''), (0x0414, ''nb_NO''), (0x0414, ''no_NO''),
     (0x0814, ''nn_NO''), (0x7814, ''nn''), (0x0814, ''no_NO_NY'')]"

definition locmap_nso :: "lcid_posix list" where
  "locmap_nso = element_array 0x046c ''nso'' ''nso_ZA''"

definition locmap_oc :: "lcid_posix list" where
  "locmap_oc = element_array 0x0482 ''oc'' ''oc_FR''"

definition locmap_om :: "lcid_posix list" where
  "locmap_om = element_array 0x0472 ''om'' ''om_ET''"

definition locmap_or_IN :: "lcid_posix list" where
  "locmap_or_IN =
    [(0x48, ''or''), (0x0448, ''or_IN'')]"

definition locmap_pa :: "lcid_posix list" where
  "locmap_pa =
    [(0x46, ''pa''), (0x0446, ''pa_IN''), (0x0846, ''pa_PK'')]"

definition locmap_pl :: "lcid_posix list" where
  "locmap_pl = element_array 0x0415 ''pl'' ''pl_PL''"

definition locmap_ps :: "lcid_posix list" where
  "locmap_ps = element_array 0x0463 ''ps'' ''ps_AF''"

definition locmap_pt :: "lcid_posix list" where
  "locmap_pt =
    [(0x16, ''pt''), (0x0416, ''pt_BR''), (0x0816, ''pt_PT'')]"

definition locmap_qu :: "lcid_posix list" where
  "locmap_qu =
    [(0x6b, ''qu''), (0x046b, ''qu_BO''), (0x086b, ''qu_EC''), (0x0c6b, ''qu_PE'')]"

definition locmap_qut :: "lcid_posix list" where
  "locmap_qut = element_array 0x0486 ''qut'' ''qut_GT''"

definition locmap_rm :: "lcid_posix list" where
  "locmap_rm = element_array 0x0417 ''rm'' ''rm_CH''"

definition locmap_ro :: "lcid_posix list" where
  "locmap_ro = element_array 0x0418 ''ro'' ''ro_RO''"

definition locmap_root :: "lcid_posix list" where
  "locmap_root =
    [(0x00, ''root'')]"

definition locmap_ru :: "lcid_posix list" where
  "locmap_ru = element_array 0x0419 ''ru'' ''ru_RU''"

definition locmap_rw :: "lcid_posix list" where
  "locmap_rw = element_array 0x0487 ''rw'' ''rw_RW''"

definition locmap_sa :: "lcid_posix list" where
  "locmap_sa = element_array 0x044f ''sa'' ''sa_IN''"

definition locmap_sah :: "lcid_posix list" where
  "locmap_sah = element_array 0x0485 ''sah'' ''sah_RU''"

definition locmap_sd :: "lcid_posix list" where
  "locmap_sd =
    [(0x59, ''sd''), (0x0459, ''sd_IN''), (0x0859, ''sd_PK'')]"

definition locmap_se :: "lcid_posix list" where
  "locmap_se =
    [(0x3b, ''se''), (0x0c3b, ''se_FI''), (0x043b, ''se_NO''), (0x083b, ''se_SE''),
     (0x783b, ''sma''), (0x183b, ''sma_NO''), (0x1c3b, ''sma_SE''), (0x7c3b, ''smj''),
     (0x703b, ''smn''), (0x743b, ''sms''), (0x103b, ''smj_NO''), (0x143b, ''smj_SE''),
     (0x243b, ''smn_FI''), (0x203b, ''sms_FI'')]"

definition locmap_si :: "lcid_posix list" where
  "locmap_si = element_array 0x045b ''si'' ''si_LK''"

definition locmap_sk :: "lcid_posix list" where
  "locmap_sk = element_array 0x041b ''sk'' ''sk_SK''"

definition locmap_sl :: "lcid_posix list" where
  "locmap_sl = element_array 0x0424 ''sl'' ''sl_SI''"

definition locmap_so :: "lcid_posix list" where
  "locmap_so = element_array 0x0477 ''so'' ''so_ET''"

definition locmap_sq :: "lcid_posix list" where
  "locmap_sq = element_array 0x041c ''sq'' ''sq_AL''"

definition locmap_sv :: "lcid_posix list" where
  "locmap_sv =
    [(0x1d, ''sv''), (0x081d, ''sv_FI''), (0x041d, ''sv_SE'')]"

definition locmap_sw :: "lcid_posix list" where
  "locmap_sw = element_array 0x0441 ''sw'' ''sw_KE''"

definition locmap_syr :: "lcid_posix list" where
  "locmap_syr = element_array 0x045A ''syr'' ''syr_SY''"

definition locmap_ta :: "lcid_posix list" where
  "locmap_ta = element_array 0x0449 ''ta'' ''ta_IN''"

definition locmap_te :: "lcid_posix list" where
  "locmap_te = element_array 0x044a ''te'' ''te_IN''"

definition locmap_tg :: "lcid_posix list" where
  "locmap_tg =
    [(0x28, ''tg''), (0x7c28, ''tg_Cyrl''), (0x0428, ''tg_Cyrl_TJ'')]"

definition locmap_th :: "lcid_posix list" where
  "locmap_th = element_array 0x041e ''th'' ''th_TH''"

definition locmap_ti :: "lcid_posix list" where
  "locmap_ti =
    [(0x73, ''ti''), (0x0873, ''ti_ER''), (0x0473, ''ti_ET'')]"

definition locmap_tk :: "lcid_posix list" where
  "locmap_tk = element_array 0x0442 ''tk'' ''tk_TM''"

definition locmap_tn :: "lcid_posix list" where
  "locmap_tn = element_array 0x0432 ''tn'' ''tn_BW''"

definition locmap_tr :: "lcid_posix list" where
  "locmap_tr = element_array 0x041f ''tr'' ''tr_TR''"

definition locmap_tt :: "lcid_posix list" where
  "locmap_tt = element_array 0x0444 ''tt'' ''tt_RU''"

definition locmap_tzm :: "lcid_posix list" where
  "locmap_tzm =
    [(0x5f, ''tzm''), (0x7c5f, ''tzm_Latn''), (0x085f, ''tzm_Latn_DZ'')]"

definition locmap_ug :: "lcid_posix list" where
  "locmap_ug = element_array 0x0480 ''ug'' ''ug_CN''"

definition locmap_uk :: "lcid_posix list" where
  "locmap_uk = element_array 0x0422 ''uk'' ''uk_UA''"

definition locmap_ur :: "lcid_posix list" where
  "locmap_ur =
    [(0x20, ''ur''), (0x0820, ''ur_IN''), (0x0420, ''ur_PK'')]"

definition locmap_uz :: "lcid_posix list" where
  "locmap_uz =
    [(0x43, ''uz''), (0x0843, ''uz_Cyrl_UZ''), (0x7843, ''uz_Cyrl''), (0x0843, ''uz_UZ''),
     (0x0443, ''uz_Latn_UZ''), (0x7c43, ''uz_Latn'')]"

definition locmap_ve :: "lcid_posix list" where
  "locmap_ve = element_array 0x0433 ''ve'' ''ve_ZA''"

definition locmap_vi :: "lcid_posix list" where
  "locmap_vi = element_array 0x042a ''vi'' ''vi_VN''"

definition locmap_wen :: "lcid_posix list" where
  "locmap_wen =
    [(0x2e, ''wen''), (0x042e, ''wen_DE''), (0x042e, ''hsb_DE''), (0x082e, ''dsb_DE''),
     (0x7c2e, ''dsb''), (0x2e, ''hsb'')]"

definition locmap_wo :: "lcid_posix list" where
  "locmap_wo = element_array 0x0488 ''wo'' ''wo_SN''"

definition locmap_xh :: "lcid_posix list" where
  "locmap_xh = element_array 0x0434 ''xh'' ''xh_ZA''"

definition locmap_yo :: "lcid_posix list" where
  "locmap_yo = element_array 0x046a ''yo'' ''yo_NG''"

definition locmap_zh :: "lcid_posix list" where
  "locmap_zh =
    [(0x0004, ''zh_Hans''), (0x7804, ''zh''), (0x0804, ''zh_CN''), (0x0804, ''zh_Hans_CN''),
     (0x0c04, ''zh_Hant_HK''), (0x0c04, ''zh_HK''), (0x1404, ''zh_Hant_MO''), (0x1404, ''zh_MO''),
     (0x1004, ''zh_Hans_SG''), (0x1004, ''zh_SG''), (0x0404, ''zh_Hant_TW''),
     (0x7c04, ''zh_Hant''), (0x0404, ''zh_TW''), (0x30404, ''zh_Hant_TW''), (0x30404, ''zh_TW''),
     (0x20404, ''zh_Hant_TW@collation=stroke''), (0x20404, ''zh_TW@collation=stroke''),
     (0x20804, ''zh_Hans_CN@collation=stroke''), (0x20804, ''zh_CN@collation=stroke'')]"

definition locmap_zu :: "lcid_posix list" where
  "locmap_zu = element_array 0x0435 ''zu'' ''zu_ZA''"

definition gPosixIDmap :: "lcid_posix list list" where
  "gPosixIDmap =
    [locmap_af, locmap_am, locmap_ar, locmap_arn, locmap_as, locmap_az, locmap_ba, locmap_be,
     locmap_bg, locmap_bn, locmap_bo, locmap_br, locmap_ca, locmap_chr, locmap_co, locmap_cs,
     locmap_cy, locmap_da, locmap_de, locmap_dv, locmap_el, locmap_en, locmap_en_US_POSIX,
     locmap_es, locmap_et, locmap_eu, locmap_fa, locmap_fa_AF, locmap_fi, locmap_fil, locmap_fo,
     locmap_fr, locmap_fy, locmap_ga, locmap_gd, locmap_gl, locmap_gn, locmap_gsw, locmap_gu,
     locmap_ha, locmap_haw, locmap_he, locmap_hi, locmap_hr, locmap_hu, locmap_hy, locmap_id,
     locmap_ig, locmap_ii, locmap_is, locmap_it, locmap_iu, locmap_iw, locmap_ja, locmap_ka,
     locmap_kk, locmap_kl, locmap_km, locmap_kn, locmap_ko, locmap_kok, locmap_kr, locmap_ks,
     locmap_ky, locmap_lb, locmap_la, locmap_lo, locmap_lt, locmap_lv, locmap_mi, locmap_mk,
     locmap_ml, locmap_mn, locmap_mni, locmap_moh, locmap_mr, locmap_ms, locmap_mt, locmap_my,
     locmap_ne, locmap_nl, locmap_no, locmap_nso, locmap_oc, locmap_om, locmap_or_IN, locmap_pa,
     locmap_pl, locmap_ps, locmap_pt, locmap_qu, locmap_qut, locmap_rm, locmap_ro, locmap_root,
     locmap_ru, locmap_rw, locmap_sa, locmap_sah, locmap_sd, locmap_se, locmap_si, locmap_sk,
     locmap_sl, locmap_so, locmap_sq, locmap_sv, locmap_sw, locmap_syr, locmap_ta, locmap_te,
     locmap_tg, locmap_th, locmap_ti, locmap_tk, locmap_tn, locmap_tr, locmap_tt, locmap_tzm,
     locmap_ug, locmap_uk, locmap_ur, locmap_uz, locmap_ve, locmap_vi, locmap_wen, locmap_wo,
     locmap_xh, locmap_yo, locmap_zh, locmap_zu]"

lemmas locmap_tables = locmap_af_def locmap_am_def locmap_ar_def locmap_arn_def locmap_as_def locmap_az_def locmap_ba_def locmap_be_def locmap_bg_def locmap_bn_def locmap_bo_def locmap_br_def locmap_ca_def locmap_chr_def locmap_co_def locmap_cs_def locmap_cy_def locmap_da_def locmap_de_def locmap_dv_def locmap_el_def locmap_en_def locmap_en_US_POSIX_def locmap_es_def locmap_et_def locmap_eu_def locmap_fa_def locmap_fa_AF_def locmap_fi_def locmap_fil_def locmap_fo_def locmap_fr_def locmap_fy_def locmap_ga_def locmap_gd_def locmap_gl_def locmap_gn_def locmap_gsw_def locmap_gu_def locmap_ha_def locmap_haw_def locmap_he_def locmap_hi_def locmap_hr_def locmap_hu_def locmap_hy_def locmap_id_def locmap_ig_def locmap_ii_def locmap_is_def locmap_it_def locmap_iu_def locmap_iw_def locmap_ja_def locmap_ka_def locmap_kk_def locmap_kl_def locmap_km_def locmap_kn_def locmap_ko_def locmap_kok_def locmap_kr_def locmap_ks_def locmap_ky_def locmap_lb_def locmap_la_def locmap_lo_def locmap_lt_def locmap_lv_def locmap_mi_def locmap_mk_def locmap_ml_def locmap_mn_def locmap_mni_def locmap_moh_def locmap_mr_def locmap_ms_def locmap_mt_def locmap_my_def locmap_ne_def locmap_nl_def locmap_no_def locmap_nso_def locmap_oc_def locmap_om_def locmap_or_IN_def locmap_pa_def locmap_pl_def locmap_ps_def locmap_pt_def locmap_qu_def locmap_qut_def locmap_rm_def locmap_ro_def locmap_root_def locmap_ru_def locmap_rw_def locmap_sa_def locmap_sah_def locmap_sd_def locmap_se_def locmap_si_def locmap_sk_def locmap_sl_def locmap_so_def locmap_sq_def locmap_sv_def locmap_sw_def locmap_syr_def locmap_ta_def locmap_te_def locmap_tg_def locmap_th_def locmap_ti_def locmap_tk_def locmap_tn_def locmap_tr_def locmap_tt_def locmap_tzm_def locmap_ug_def locmap_uk_def locmap_ur_def locmap_uz_def locmap_ve_def locmap_vi_def locmap_wen_def locmap_wo_def locmap_xh_def locmap_yo_def locmap_zh_def locmap_zu_def

end
