(* ===== verification/Locmap.thy ===== *)
theory Locmap
  imports Locmap_Table "HOL-Library.Sublist"
begin

text \<open>
  \<open>src/dcl/win32/locmap.c\<close>: the conversion between Windows locale identifiers (LCID) and POSIX locale
  names, without the optional \<open>USE_WINDOWS_LOCALE_API\<close>.  C strings are read with a terminating NUL
  (\<open>c_at\<close>).  The status that the functions write through a pointer is passed in and returned.
\<close>

datatype status = U_USING_FALLBACK_WARNING | U_ILLEGAL_ARGUMENT_ERROR | U_ZERO_ERROR

definition c_at :: "string \<Rightarrow> nat \<Rightarrow> char" where
  "c_at s i = (if i < length s then s ! i else CHR 0x00)"

fun idCmp :: "string \<Rightarrow> string \<Rightarrow> nat" where
  "idCmp (a # s) (b # t) = (if a = b then Suc (idCmp s t) else 0)"
| "idCmp _ _ = 0"

text \<open>The loop of \<open>getHostID\<close> from index \<open>idx\<close> on: \<^const>\<open>Inl\<close> for the early return on an exact match,
  \<^const>\<open>Inr\<close> for the best index and the length of its match at the end.\<close>

fun host_loop :: "lcid_posix list \<Rightarrow> string \<Rightarrow> nat \<Rightarrow> nat \<Rightarrow> nat \<Rightarrow> lcid + nat \<times> nat" where
  "host_loop [] posixID idx bestIdx bestIdxDiff = Inr (bestIdx, bestIdxDiff)"
| "host_loop ((h, p) # rs) posixID idx bestIdx bestIdxDiff =
     (let sameChars = idCmp posixID p
      in if sameChars > bestIdxDiff \<and> c_at p sameChars = CHR 0x00 then
           (if length posixID = sameChars then Inl h
            else host_loop rs posixID (idx + 1) idx sameChars)
         else host_loop rs posixID (idx + 1) bestIdx bestIdxDiff)"

definition getHostID :: "lcid_posix list \<Rightarrow> string \<Rightarrow> status \<Rightarrow> lcid \<times> status" where
  "getHostID regions posixID st =
     (case host_loop regions posixID 0 0 0 of
        Inl h \<Rightarrow> (h, st)
      | Inr (bestIdx, bestIdxDiff) \<Rightarrow>
          (if (c_at posixID bestIdxDiff = CHR ''_'' \<or> c_at posixID bestIdxDiff = CHR ''@'')
              \<and> c_at (snd (regions ! bestIdx)) bestIdxDiff = CHR 0x00
           then (fst (regions ! bestIdx), U_USING_FALLBACK_WARNING)
           else (fst (regions ! 0), U_ILLEGAL_ARGUMENT_ERROR)))"

text \<open>
  The loop of \<open>getPosixID\<close> runs to \<open>i <= numRegions\<close> and so reads one element past the array; what
  that memory holds is the parameter \<open>beyond\<close>.
\<close>

definition getPosixID :: "lcid_posix \<Rightarrow> lcid_posix list \<Rightarrow> lcid \<Rightarrow> string" where
  "getPosixID beyond regions hostID =
     (case List.find (\<lambda>r. fst r = hostID) (regions @ [beyond]) of
        Some r \<Rightarrow> snd r
      | None \<Rightarrow> snd (regions ! 0))"

definition convertToPosix :: "lcid_posix \<Rightarrow> lcid_posix list list \<Rightarrow> lcid \<Rightarrow> status \<Rightarrow> string option \<times> status" where
  "convertToPosix beyond tbl hostid st =
     (case List.find (\<lambda>m. LANGUAGE_LCID hostid = fst (m ! 0)) tbl of
        Some m \<Rightarrow> (Some (getPosixID beyond m hostid), st)
      | None \<Rightarrow> (None, U_ILLEGAL_ARGUMENT_ERROR))"

fun strcmp :: "string \<Rightarrow> string \<Rightarrow> int" where
  "strcmp [] [] = 0"
| "strcmp [] (b # t) = -1"
| "strcmp (a # s) [] = 1"
| "strcmp (a # s) (b # t) =
     (if a = b then strcmp s t else if (of_char a :: nat) < of_char b then -1 else 1)"

text \<open>The binary search of \<open>convertToLCID\<close>, over the first name of each table.\<close>

function bsearch :: "string list \<Rightarrow> string \<Rightarrow> nat \<Rightarrow> nat \<Rightarrow> nat \<Rightarrow> nat option" where
  "bsearch names langID low high oldmid =
     (if high > low then
        (let mid = (high + low) div 2
         in if mid = oldmid then None
            else if strcmp langID (names ! mid) < 0 then bsearch names langID low mid mid
            else if strcmp langID (names ! mid) > 0 then bsearch names langID mid high mid
            else Some mid)
      else None)"
  by pat_completeness auto
termination
  by (relation "measure (\<lambda>(names, l, low, high, old).
        2 * (high - low) + (if old = (high + low) div 2 then 0 else 1))") (auto simp: Let_def)

declare bsearch.simps [simp del]

fun lcid_scan :: "lcid_posix list list \<Rightarrow> string \<Rightarrow> lcid \<Rightarrow> lcid + lcid" where
  "lcid_scan [] posixID fallback = Inr fallback"
| "lcid_scan (m # ms) posixID fallback =
     (case getHostID m posixID U_ZERO_ERROR of
        (v, U_ZERO_ERROR) \<Rightarrow> Inl v
      | (v, U_USING_FALLBACK_WARNING) \<Rightarrow> lcid_scan ms posixID v
      | (v, U_ILLEGAL_ARGUMENT_ERROR) \<Rightarrow> lcid_scan ms posixID fallback)"

definition convertToLCID ::
  "lcid_posix list list \<Rightarrow> string option \<Rightarrow> string option \<Rightarrow> status \<Rightarrow> lcid \<times> status" where
  "convertToLCID tbl langID posixID st =
     (case (langID, posixID) of
        (Some l, Some p) \<Rightarrow>
          (if length l < 2 \<or> length p < 2 then (0, st)
           else case bsearch (map (\<lambda>m. snd (m ! 0)) tbl) l 0 (length tbl) 0 of
                  Some mid \<Rightarrow> getHostID (tbl ! mid) p st
                | None \<Rightarrow>
                    (case lcid_scan tbl p (-1) of
                       Inl v \<Rightarrow> (v, st)
                     | Inr fb \<Rightarrow> if fb \<noteq> -1 then (fb, U_USING_FALLBACK_WARNING)
                                else (0, U_ILLEGAL_ARGUMENT_ERROR)))
      | _ \<Rightarrow> (0, st))"

subsection \<open>Matching a name against the regions of a table\<close>

definition c_string :: "string \<Rightarrow> bool" where
  "c_string s = (CHR 0x00 \<notin> set s)"

lemma idCmp_le: "idCmp s t \<le> length t" "idCmp s t \<le> length s"
  by (induction s t rule: idCmp.induct) auto

lemma idCmp_prefix_iff: "idCmp s t = length t \<longleftrightarrow> prefix t s"
  by (induction s t rule: idCmp.induct) auto

lemma c_at_end_iff: "c_string t \<Longrightarrow> i \<le> length t \<Longrightarrow> c_at t i = CHR 0x00 \<longleftrightarrow> i = length t"
  by (metis c_at_def c_string_def le_neq_implies_less less_irrefl nth_mem)

lemma idCmp_hit_iff: "c_string t \<Longrightarrow> c_at t (idCmp s t) = CHR 0x00 \<longleftrightarrow> prefix t s"
  by (simp add: c_at_end_iff idCmp_le idCmp_prefix_iff)

text \<open>The regions before \<open>i\<close> that are a prefix of the name are shorter, those after it no longer.\<close>

definition best_match :: "lcid_posix list \<Rightarrow> string \<Rightarrow> nat \<Rightarrow> bool" where
  "best_match regions p i =
     (i < length regions \<and> prefix (snd (regions ! i)) p \<and>
      (\<forall>j < length regions. prefix (snd (regions ! j)) p \<longrightarrow>
         length (snd (regions ! j)) \<le> length (snd (regions ! i)) \<and>
         (j < i \<longrightarrow> length (snd (regions ! j)) < length (snd (regions ! i)))))"

definition names_ok :: "lcid_posix list \<Rightarrow> bool" where
  "names_ok regions = list_all (\<lambda>r. snd r \<noteq> [] \<and> c_string (snd r)) regions"

lemma names_okD: "names_ok rs \<Longrightarrow> r \<in> set rs \<Longrightarrow> snd r \<noteq> [] \<and> c_string (snd r)"
  by (simp add: names_ok_def list_all_iff)

lemma host_loop_exact:
  "List.find (\<lambda>r. snd r = p) rs = Some (h, p) \<Longrightarrow> names_ok rs \<Longrightarrow> d < length p \<Longrightarrow>
     host_loop rs p k b d = Inl h"
proof (induction rs p k b d rule: host_loop.induct)
  case (2 h' q rs p k b d)
  have q: "c_string q" "names_ok rs" using "2.prems" by (auto simp: names_ok_def)
  show ?case
  proof (cases "q = p")
    case True
    then show ?thesis using "2.prems" q idCmp_prefix_iff [of p p] by (simp add: c_at_end_iff Let_def)
  next
    case False
    have "idCmp p q < length p" if "prefix q p"
      using that False idCmp_prefix_iff [of p q] by (auto simp: prefix_def)
    then show ?thesis using 2 False q by (auto simp: Let_def idCmp_hit_iff)
  qed
qed simp

text \<open>The loop's invariant: \<open>b\<close> is the best index of the regions already passed, \<open>d\<close> its length.\<close>

definition best_so_far :: "lcid_posix list \<Rightarrow> string \<Rightarrow> nat \<Rightarrow> nat \<Rightarrow> bool" where
  "best_so_far done p b d =
     (if d = 0 then b = 0 \<and> (\<forall>r \<in> set done. \<not> prefix (snd r) p)
      else best_match done p b \<and> d = length (snd (done ! b)))"

lemma best_so_far_skip:
  assumes "best_so_far done p b d" "c_string (snd r)" "snd r \<noteq> []"
    "\<not> (idCmp p (snd r) > d \<and> c_at (snd r) (idCmp p (snd r)) = CHR 0x00)"
  shows "best_so_far (done @ [r]) p b d"
proof -
  have "prefix (snd r) p \<Longrightarrow> length (snd r) \<le> d"
    using assms(2,4) idCmp_prefix_iff [of p "snd r"] by (auto simp: idCmp_hit_iff)
  then show ?thesis using assms(1,3)
    by (auto simp: best_so_far_def best_match_def nth_append less_Suc_eq split: if_splits)
qed

lemma best_so_far_take:
  assumes "best_so_far done p b d" "c_string (snd r)"
    "idCmp p (snd r) > d" "c_at (snd r) (idCmp p (snd r)) = CHR 0x00"
  shows "best_so_far (done @ [r]) p (length done) (idCmp p (snd r))"
proof -
  have r: "prefix (snd r) p" "idCmp p (snd r) = length (snd r)"
    using assms(2,4) by (simp_all add: idCmp_hit_iff idCmp_prefix_iff)
  have "prefix (snd (done ! j)) p \<Longrightarrow> j < length done \<Longrightarrow> length (snd (done ! j)) < length (snd r)" for j
    using assms(1,3) r(2) nth_mem [of j "done"]
    by (fastforce simp: best_so_far_def best_match_def split: if_splits)
  then show ?thesis using assms(3) r
    by (auto simp: best_so_far_def best_match_def nth_append less_Suc_eq less_imp_le)
qed

lemma host_loop_best:
  "\<forall>r \<in> set rs. snd r \<noteq> p \<Longrightarrow> names_ok rs \<Longrightarrow> best_so_far done p b d \<Longrightarrow> k = length done \<Longrightarrow>
     \<exists>b' d'. host_loop rs p k b d = Inr (b', d') \<and> best_so_far (done @ rs) p b' d'"
proof (induction rs arbitrary: "done" k b d)
  case (Cons r rs)
  obtain h q where r: "r = (h, q)" by (cases r)
  have q: "c_string q" "q \<noteq> []" "names_ok rs" "q \<noteq> p" using Cons.prems by (auto simp: names_ok_def r)
  let ?s = "idCmp p q"
  show ?case
  proof (cases "?s > d \<and> c_at q ?s = CHR 0x00")
    case True
    then have "length p \<noteq> ?s"
      using q(1,4) idCmp_prefix_iff [of p q] by (auto simp: idCmp_hit_iff prefix_def)
    moreover have "best_so_far (done @ [r]) p (length done) ?s"
      using best_so_far_take [of "done" p b d r] Cons.prems q True by (simp add: r)
    ultimately show ?thesis using Cons.IH [of "done @ [r]"] Cons.prems q True by (simp add: r)
  next
    case False
    then have "best_so_far (done @ [r]) p b d"
      using best_so_far_skip [of "done" p b d r] Cons.prems q by (simp add: r)
    with False show ?thesis using Cons.IH [of "done @ [r]" b d] Cons.prems q by (auto simp: r Let_def)
  qed
qed simp

lemma best_match_unique: "best_match rs p i \<Longrightarrow> best_match rs p j \<Longrightarrow> i = j"
  unfolding best_match_def by (metis leD linorder_neqE_nat)

lemma best_so_far_match:
  assumes "best_so_far rs p b d" "best_match rs p i" "names_ok rs"
  shows "b = i \<and> d = length (snd (rs ! i))"
proof (cases "d = 0")
  case True
  then show ?thesis using assms nth_mem [of i rs] by (auto simp: best_so_far_def best_match_def)
next
  case False
  then show ?thesis using assms best_match_unique by (auto simp: best_so_far_def)
qed

text \<open>What \<open>getHostID\<close> promises, on each of its three exits.\<close>

lemma getHostID_exact:
  "List.find (\<lambda>r. snd r = p) rs = Some (h, p) \<Longrightarrow> names_ok rs \<Longrightarrow> p \<noteq> [] \<Longrightarrow> getHostID rs p st = (h, st)"
  by (simp add: getHostID_def host_loop_exact)

lemma host_loop_start:
  assumes "\<forall>r \<in> set rs. snd r \<noteq> p" "names_ok rs"
  obtains b d where "host_loop rs p 0 0 0 = Inr (b, d)" "best_so_far rs p b d"
  using host_loop_best [of rs p "[]" 0 0 0] assms by (auto simp: best_so_far_def)

lemma getHostID_fallback:
  assumes "\<forall>r \<in> set rs. snd r \<noteq> p" "names_ok rs" "best_match rs p i"
    "p ! length (snd (rs ! i)) = CHR ''_'' \<or> p ! length (snd (rs ! i)) = CHR ''@''"
  shows "getHostID rs p st = (fst (rs ! i), U_USING_FALLBACK_WARNING)"
proof -
  obtain b d where "host_loop rs p 0 0 0 = Inr (b, d)" "best_so_far rs p b d"
    using host_loop_start [OF assms(1,2)] .
  with assms(2,3) have hl: "host_loop rs p 0 0 0 = Inr (i, length (snd (rs ! i)))"
    using best_so_far_match by blast
  have i: "i < length rs" "prefix (snd (rs ! i)) p" "snd (rs ! i) \<noteq> p"
    using assms(1,3) nth_mem [of i rs] by (auto simp: best_match_def)
  then have "length (snd (rs ! i)) < length p" by (auto simp: prefix_def)
  with assms(4) show ?thesis by (auto simp: getHostID_def hl c_at_def)
qed

lemma getHostID_illegal:
  assumes "\<forall>r \<in> set rs. snd r \<noteq> p" "names_ok rs" "rs \<noteq> []"
    "\<And>i. best_match rs p i \<Longrightarrow> p ! length (snd (rs ! i)) \<notin> {CHR ''_'', CHR ''@''}"
  shows "getHostID rs p st = (fst (hd rs), U_ILLEGAL_ARGUMENT_ERROR)"
proof -
  obtain b d where hl: "host_loop rs p 0 0 0 = Inr (b, d)" and bd: "best_so_far rs p b d"
    using host_loop_start [OF assms(1,2)] .
  have "snd (rs ! 0) \<noteq> []" "c_string (snd (rs ! 0))"
    using names_okD [OF assms(2)] assms(3) by simp_all
  then have "c_at (snd (rs ! 0)) 0 \<noteq> CHR 0x00" by (simp add: c_at_end_iff)
  moreover have "c_at p d \<notin> {CHR ''_'', CHR ''@''}" if "d \<noteq> 0"
    using bd that assms(4) [of b] by (auto simp: best_so_far_def c_at_def)
  ultimately show ?thesis using bd assms(3)
    by (cases "d = 0") (auto simp: getHostID_def hl hd_conv_nth best_so_far_def)
qed

subsection \<open>The binary search\<close>

lemma strcmp_0_iff: "strcmp s t = 0 \<longleftrightarrow> s = t"
  by (induction s t rule: strcmp.induct) auto

lemma strcmp_refl [simp]: "strcmp s s = 0"
  by (simp add: strcmp_0_iff)

lemma strcmp_neg_pos: "strcmp s t < 0 \<longleftrightarrow> strcmp t s > 0"
  by (induction s t rule: strcmp.induct) auto

lemma strcmp_trans: "strcmp s t < 0 \<Longrightarrow> strcmp t u < 0 \<Longrightarrow> strcmp s u < 0"
proof (induction s t arbitrary: u rule: strcmp.induct)
  case (2 b t)
  then show ?case by (cases u) auto
next
  case (4 a s b t)
  then show ?case by (cases u) (auto split: if_splits)
qed auto

lemma bsearch_sound: "bsearch names l lo hi old = Some mid \<Longrightarrow> names ! mid = l \<and> mid < hi"
proof (induction names l lo hi old rule: bsearch.induct)
  case (1 names l lo hi old)
  from "1.prems" have hl: "lo < hi" by (subst (asm) bsearch.simps) (auto split: if_splits)
  let ?m = "(hi + lo) div 2"
  have m: "?m < hi" using hl by auto
  from "1.prems" have ne: "?m \<noteq> old" by (subst (asm) bsearch.simps) (auto simp: Let_def split: if_splits)
  consider "strcmp l (names ! ?m) < 0" | "strcmp l (names ! ?m) > 0" | "strcmp l (names ! ?m) = 0" by linarith
  then show ?case
  proof cases
    case 1
    have "bsearch names l lo ?m ?m = Some mid"
      using "1.prems" hl ne 1 by (subst (asm) bsearch.simps) (simp add: Let_def)
    then show ?thesis using "1.IH"(1) [OF hl refl ne 1] m by auto
  next
    case 2
    then have n: "\<not> strcmp l (names ! ?m) < 0" by simp
    have "bsearch names l ?m hi ?m = Some mid"
      using "1.prems" hl ne n 2 by (subst (asm) bsearch.simps) (simp add: Let_def)
    then show ?thesis using "1.IH"(2) [OF hl refl ne n 2] by auto
  next
    case 3
    then show ?thesis using "1.prems" hl ne m
      by (subst (asm) bsearch.simps) (auto simp: Let_def strcmp_0_iff)
  qed
qed

text \<open>
  The search finds every name around which the list is partitioned, whatever the order of the others:
  \<open>pivot names k\<close>.  The previous midpoint is \<open>low\<close> or \<open>high\<close> at every step but the first.
\<close>

definition pivot :: "string list \<Rightarrow> nat \<Rightarrow> bool" where
  "pivot names k = (k < length names \<and>
     (\<forall>i < k. strcmp (names ! i) (names ! k) < 0) \<and>
     (\<forall>i < length names. k < i \<longrightarrow> strcmp (names ! k) (names ! i) < 0))"

lemma bsearch_pivot_aux:
  "pivot names k \<Longrightarrow> lo \<le> k \<Longrightarrow> k < hi \<Longrightarrow> hi \<le> length names \<Longrightarrow>
     old = hi \<or> (old = lo \<and> lo < k) \<or> (old = lo \<and> lo + 1 < hi) \<Longrightarrow> bsearch names (names ! k) lo hi old = Some k"
proof (induction "hi - lo" arbitrary: lo hi old rule: less_induct)
  case less
  let ?m = "(hi + lo) div 2"
  have m: "lo \<le> ?m" "?m < hi" using less.prems by auto
  have ne: "?m \<noteq> old" using less.prems m by auto
  consider "k < ?m" | "?m < k" | "k = ?m" by linarith
  then show ?case
  proof cases
    case 1
    then have "strcmp (names ! k) (names ! ?m) < 0"
      using less.prems m by (auto simp: pivot_def)
    moreover have "bsearch names (names ! k) lo ?m ?m = Some k"
      using less.hyps [of ?m lo ?m] less.prems 1 m by auto
    ultimately show ?thesis using less.prems ne by (subst bsearch.simps) (simp add: Let_def)
  next
    case 2
    then have "strcmp (names ! ?m) (names ! k) < 0" using less.prems by (auto simp: pivot_def)
    then have "strcmp (names ! k) (names ! ?m) > 0" by (simp add: strcmp_neg_pos)
    moreover have "lo < ?m" using 2 less.prems by auto
    then have "bsearch names (names ! k) ?m hi ?m = Some k"
      using less.hyps [of hi ?m ?m] less.prems 2 m by auto
    ultimately show ?thesis using less.prems ne by (subst bsearch.simps) (simp add: Let_def)
  next
    case 3
    then show ?thesis using less.prems ne m
      by (subst bsearch.simps) (simp add: Let_def strcmp_0_iff [THEN iffD2])
  qed
qed

lemma bsearch_pivot:
  "pivot names k \<Longrightarrow> 2 \<le> length names \<Longrightarrow> bsearch names (names ! k) 0 (length names) 0 = Some k"
  by (rule bsearch_pivot_aux) (auto simp: pivot_def)

subsection \<open>The table of the program\<close>

fun strcmp_sorted :: "string list \<Rightarrow> bool" where
  "strcmp_sorted (x # y # r) = (strcmp x y < 0 \<and> strcmp_sorted (y # r))"
| "strcmp_sorted _ = True"

abbreviation strcmp_less :: "string \<Rightarrow> string \<Rightarrow> bool" where
  "strcmp_less \<equiv> (\<lambda>a b. strcmp a b < 0)"

lemma strcmp_sorted_wrt: "strcmp_sorted xs \<Longrightarrow> sorted_wrt strcmp_less xs"
proof (induction xs rule: strcmp_sorted.induct)
  case (1 x y r)
  then show ?case by (auto intro: strcmp_trans)
qed auto

text \<open>Two neighbours out of order leave every other element a pivot.\<close>

lemma pivot_swapped:
  assumes a: "strcmp_sorted (A @ x # B)" and b: "strcmp_sorted (A @ y # B)"
    and k: "k < length (A @ x # y # B)" "k \<noteq> length A" "k \<noteq> Suc (length A)"
  shows "pivot (A @ x # y # B) k"
proof -
  let ?n = "A @ x # y # B"
  have s: "sorted_wrt strcmp_less A" "sorted_wrt strcmp_less B" "\<forall>v \<in> set A. \<forall>w \<in> set (x # y # B). strcmp v w < 0"
    "\<forall>w \<in> set B. strcmp x w < 0 \<and> strcmp y w < 0"
    using strcmp_sorted_wrt [OF a] strcmp_sorted_wrt [OF b] by (auto simp: sorted_wrt_append)
  show ?thesis
  proof (cases "k < length A")
    case True
    have "strcmp (A ! k) (?n ! i) < 0" if "k < i" "i < length ?n" for i
    proof (cases "i < length A")
      case True
      then show ?thesis using s(1) that by (simp add: nth_append sorted_wrt_iff_nth_less)
    next
      case False
      then have "?n ! i \<in> set (x # y # B)" using that False nth_mem [of "i - length A" "x # y # B"] by (simp add: nth_append)
      then show ?thesis using s(3) True by (meson nth_mem)
    qed
    then show ?thesis using True s(1) k(1) by (auto simp: pivot_def nth_append sorted_wrt_iff_nth_less)
  next
    case False
    then obtain j where j: "k = length A + 2 + j" "j < length B"
      using k that [of "k - length A - 2"] by fastforce
    have n: "?n ! k = B ! j" by (simp add: j nth_append)
    have lo: "strcmp (?n ! i) (B ! j) < 0" if "i < k" for i
    proof (cases "i < length A + 2")
      case True
      then have "?n ! i \<in> set (A @ [x, y])"
        by (cases "i < length A"; cases "i = length A") (auto simp: nth_append less_Suc_eq)
      then show ?thesis using s(3,4) j(2) by auto
    next
      case False
      then obtain i' where "i = length A + 2 + i'" by (metis add_diff_inverse_nat)
      then show ?thesis using s(2) that j by (simp add: nth_append sorted_wrt_iff_nth_less)
    qed
    have hi: "strcmp (B ! j) (?n ! i) < 0" if "k < i" "i < length ?n" for i
    proof -
      define i' where "i' = i - length A - 2"
      then have "i = length A + 2 + i'" using that(1) j(1) by simp
      then show ?thesis using s(2) that j by (simp add: nth_append sorted_wrt_iff_nth_less)
    qed
    show ?thesis using lo hi k(1) by (simp add: pivot_def n)
  qed
qed

definition table_names :: "lcid_posix list list \<Rightarrow> string list" where
  "table_names tbl = map (\<lambda>m. snd (m ! 0)) tbl"

lemma gPosixIDmap_names:
  "table_names gPosixIDmap = take 64 (table_names gPosixIDmap) @ ''lb'' # ''la'' # drop 66 (table_names gPosixIDmap)"
  unfolding table_names_def gPosixIDmap_def by (simp add: locmap_tables element_array_def)

lemma gPosixIDmap_sorted:
  "strcmp_sorted (take 64 (table_names gPosixIDmap) @ ''lb'' # drop 66 (table_names gPosixIDmap))"
  "strcmp_sorted (take 64 (table_names gPosixIDmap) @ ''la'' # drop 66 (table_names gPosixIDmap))"
  unfolding table_names_def gPosixIDmap_def by (simp_all add: locmap_tables element_array_def)

lemma gPosixIDmap_length: "length gPosixIDmap = 131"
  by (simp add: gPosixIDmap_def)

lemma gPosixIDmap_names_ok: "list_all (\<lambda>m. names_ok m \<and> 2 \<le> length (snd (m ! 0))) gPosixIDmap"
  unfolding gPosixIDmap_def
  by (simp add: locmap_tables element_array_def names_ok_def c_string_def)

lemma gPosixIDmap_pivot:
  assumes "k < length gPosixIDmap" "table_names gPosixIDmap ! k \<notin> {''lb'', ''la''}"
  shows "pivot (table_names gPosixIDmap) k"
proof -
  let ?n = "table_names gPosixIDmap"
  have len: "length ?n = 131" by (simp add: table_names_def gPosixIDmap_length)
  have "?n ! 64 = ''lb''" "?n ! 65 = ''la''"
    by (subst gPosixIDmap_names, simp add: nth_append len)+
  with assms(2) have "k \<noteq> 64" "k \<noteq> 65" by auto
  then have "pivot (take 64 ?n @ ''lb'' # ''la'' # drop 66 ?n) k"
    using assms(1) by (intro pivot_swapped gPosixIDmap_sorted) (simp_all add: len gPosixIDmap_length)
  then show ?thesis using gPosixIDmap_names by simp
qed

lemma gPosixIDmap_bsearch:
  assumes "k < length gPosixIDmap" "table_names gPosixIDmap ! k \<notin> {''lb'', ''la''}"
  shows "bsearch (table_names gPosixIDmap) (table_names gPosixIDmap ! k) 0 (length gPosixIDmap) 0 = Some k"
  using bsearch_pivot [OF gPosixIDmap_pivot [OF assms]]
  by (simp add: table_names_def gPosixIDmap_length)

lemma convertToLCID_found:
  assumes "2 \<le> length l" "2 \<le> length p" "bsearch (table_names tbl) l 0 (length tbl) 0 = Some k"
  shows "convertToLCID tbl (Some l) (Some p) st = getHostID (tbl ! k) p st"
  using assms by (simp add: convertToLCID_def table_names_def)

lemma gPosixIDmap_nth:
  assumes "k < length gPosixIDmap"
  shows "names_ok (gPosixIDmap ! k)" "2 \<le> length (table_names gPosixIDmap ! k)"
  using gPosixIDmap_names_ok assms by (auto simp: list_all_length table_names_def)

subsection \<open>Properties\<close>

text \<open>C13: \<open>getHostID\<close> on a table of proper names has exactly three outcomes.  A name that is listed gives
  the LCID of its first entry and leaves the status alone.  A name that is not listed, but whose longest listed
  prefix ends before \<open>_\<close> or \<open>@\<close>, gives the LCID of (the first) longest prefix and the
  fallback warning.  Everything else gives the LCID of the table's first entry and the error.\<close>

theorem getHostID_outcomes:
  assumes "names_ok rs" "rs \<noteq> []" "p \<noteq> []"
  shows "getHostID rs p st =
    (case List.find (\<lambda>r. snd r = p) rs of
       Some r \<Rightarrow> (fst r, st)
     | None \<Rightarrow>
         (case List.find (best_match rs p) [0..<length rs] of
            Some i \<Rightarrow> (if p ! length (snd (rs ! i)) \<in> {CHR ''_'', CHR ''@''}
                       then (fst (rs ! i), U_USING_FALLBACK_WARNING)
                       else (fst (hd rs), U_ILLEGAL_ARGUMENT_ERROR))
          | None \<Rightarrow> (fst (hd rs), U_ILLEGAL_ARGUMENT_ERROR)))"
proof (cases "List.find (\<lambda>r. snd r = p) rs")
  case (Some r)
  moreover from this have "snd r = p" by (auto simp: find_Some_iff)
  ultimately show ?thesis using getHostID_exact [of p rs "fst r" st] assms by (cases r) simp
next
  case None
  then have un: "\<forall>r \<in> set rs. snd r \<noteq> p" by (auto simp: find_None_iff)
  show ?thesis
  proof (cases "List.find (best_match rs p) [0..<length rs]")
    case None
    then have "\<not> best_match rs p i" for i by (auto simp: find_None_iff best_match_def)
    then show ?thesis
      using getHostID_illegal [OF un assms(1,2)] \<open>List.find (\<lambda>r. snd r = p) rs = None\<close> None by simp
  next
    case (Some i)
    then have i: "best_match rs p i" by (auto simp: find_Some_iff)
    then have "best_match rs p j \<Longrightarrow> j = i" for j using best_match_unique by blast
    then show ?thesis
      using getHostID_illegal [OF un assms(1,2), of st] getHostID_fallback [OF un assms(1) i, of st]
        \<open>List.find (\<lambda>r. snd r = p) rs = None\<close> Some by auto
  qed
qed

theorem getHostID_outcomes_witness:
  "getHostID locmap_si ''si_LK'' U_ZERO_ERROR = (0x045b, U_ZERO_ERROR) \<and>
   getHostID locmap_si ''si_XX'' U_ZERO_ERROR = (0x5b, U_USING_FALLBACK_WARNING) \<and>
   getHostID locmap_si ''sid'' U_ZERO_ERROR = (0x5b, U_ILLEGAL_ARGUMENT_ERROR)"
proof -
  have t: "locmap_si = [(0x5b, ''si''), (0x045b, ''si_LK'')]"
    by (simp add: locmap_si_def element_array_def LANGUAGE_LCID_def)
  have "names_ok locmap_si" by (simp add: t names_ok_def c_string_def)
  then show ?thesis
    by (simp add: getHostID_outcomes t best_match_def All_less_Suc upt_conv_Cons)
qed



lemma getHostID_unlisted:
  assumes "\<forall>r \<in> set m. snd r \<noteq> p" "names_ok m"
  shows "snd (getHostID m p st) \<noteq> U_ZERO_ERROR"
proof -
  obtain b d where "host_loop m p 0 0 0 = Inr (b, d)"
    using host_loop_start [OF assms] .
  then show ?thesis by (simp add: getHostID_def)
qed

lemma lcid_scan_listed:
  "list_all names_ok tbl \<Longrightarrow> p \<noteq> [] \<Longrightarrow> List.find (\<lambda>r. snd r = p) (concat tbl) = Some (h, p) \<Longrightarrow>
     lcid_scan tbl p fb = Inl h"
proof (induction tbl arbitrary: fb)
  case (Cons m tbl)
  show ?case
  proof (cases "List.find (\<lambda>r. snd r = p) m")
    case None
    then have "\<forall>r \<in> set m. snd r \<noteq> p" by (auto simp: find_None_iff)
    then have st: "snd (getHostID m p U_ZERO_ERROR) \<noteq> U_ZERO_ERROR"
      using Cons.prems(1) getHostID_unlisted by simp
    have "List.find (\<lambda>r. snd r = p) (concat tbl) = Some (h, p)"
      using Cons.prems(3) None by (simp add: find_append)
    with Cons st show ?thesis
      by (cases "getHostID m p U_ZERO_ERROR"; cases "snd (getHostID m p U_ZERO_ERROR)") auto
  next
    case (Some r)
    then show ?thesis
      using Cons.prems getHostID_exact [of p m h U_ZERO_ERROR] by (simp add: find_append)
  qed
qed simp

text \<open>where the binary search does not find the language (\<open>zh\<close>, whose first entry is \<open>zh_Hans\<close>, or
  \<open>lb\<close>, which stands out of order), the linear scan still converts every name that some table lists, to the
  LCID of its first listing, with the caller's status untouched.\<close>

theorem linear_scan_recovers:
  assumes "list_all names_ok tbl" "2 \<le> length l" "2 \<le> length p"
    "bsearch (map (\<lambda>m. snd (m ! 0)) tbl) l 0 (length tbl) 0 = None"
    "List.find (\<lambda>r. snd r = p) (concat tbl) = Some (h, p)"
  shows "convertToLCID tbl (Some l) (Some p) st = (h, st)"
proof -
  have "p \<noteq> []" using assms(3) by auto
  then have "lcid_scan tbl p (-1) = Inl h" using lcid_scan_listed assms(1,5) by blast
  then show ?thesis using assms(2-4) by (simp add: convertToLCID_def)
qed

lemma lb_not_found: "bsearch (table_names gPosixIDmap) ''lb'' 0 (length gPosixIDmap) 0 = None"
proof -
  let ?n = "table_names gPosixIDmap"
  have "?n ! 65 = ''la''" "?n ! 66 = ''lo''" "?n ! 67 = ''lt''" "?n ! 69 = ''mi''" "?n ! 73 = ''mni''"
    "?n ! 81 = ''no''" "?n ! 98 = ''sah''"
    by (simp_all add: table_names_def gPosixIDmap_def locmap_tables element_array_def)
  then show ?thesis by (simp add: bsearch.simps gPosixIDmap_length Let_def)
qed

theorem linear_scan_recovers_witness:
  "bsearch (map (\<lambda>m. snd (m ! 0)) gPosixIDmap) ''lb'' 0 (length gPosixIDmap) 0 = None \<and>
   convertToLCID gPosixIDmap (Some ''lb'') (Some ''lb_LU'') U_ZERO_ERROR = (0x046e, U_ZERO_ERROR)"
proof -
  have 1: "bsearch (map (\<lambda>m. snd (m ! 0)) gPosixIDmap) ''lb'' 0 (length gPosixIDmap) 0 = None"
    using lb_not_found by (simp add: table_names_def)
  have 2: "list_all names_ok gPosixIDmap"
    using gPosixIDmap_names_ok by (simp add: list_all_iff)
  have 3: "List.find (\<lambda>r. snd r = ''lb_LU'') (concat gPosixIDmap) = Some (0x046e, ''lb_LU'')"
  proof (rule find_concat_hit [of 64])
    show "list_all (list_all (\<lambda>r. snd r \<noteq> ''lb_LU'')) (take 64 gPosixIDmap)"
      by (simp add: gPosixIDmap_def locmap_tables element_array_def)
    have "gPosixIDmap ! 64 = locmap_lb" by (simp add: gPosixIDmap_def)
    then show "List.find (\<lambda>r. snd r = ''lb_LU'') (gPosixIDmap ! 64) = Some (0x046e, ''lb_LU'')"
      by (simp add: locmap_lb_def element_array_def)
  qed (simp add: gPosixIDmap_length)
  show ?thesis using linear_scan_recovers [OF 2 _ _ 1 3] 1 by simp
qed

text \<open>for an LCID that its table lists, \<open>convertToPosix\<close> gives the first name listed for it.  For an LCID of
  a known language that the table does not list, the loop bound \<open>i <= numRegions\<close> makes the
  answer depend on the element after the array: the wildcard name of the language unless that memory
  happens to hold the LCID, and then whatever name stands there.\<close>

theorem lcid_to_locale_name:
  assumes "List.find (\<lambda>m. LANGUAGE_LCID h = fst (m ! 0)) tbl = Some m"
  shows "convertToPosix beyond tbl h st =
    (Some (case List.find (\<lambda>r. fst r = h) m of
             Some r \<Rightarrow> snd r
           | None \<Rightarrow> if fst beyond = h then snd beyond else snd (m ! 0)), st)"
  using assms by (simp add: convertToPosix_def getPosixID_def find_append split: option.splits)

theorem lcid_to_locale_name_witness:
  "convertToPosix (0, ''??'') gPosixIDmap 0x0419 U_ZERO_ERROR = (Some ''ru_RU'', U_ZERO_ERROR) \<and>
   convertToPosix (0, ''??'') gPosixIDmap 0x7c19 U_ZERO_ERROR = (Some ''ru'', U_ZERO_ERROR) \<and>
   convertToPosix (0x7c19, ''??'') gPosixIDmap 0x7c19 U_ZERO_ERROR = (Some ''??'', U_ZERO_ERROR)"
proof -
  have f: "List.find (\<lambda>m. LANGUAGE_LCID 0x0419 = fst (m ! 0)) gPosixIDmap = Some locmap_ru"
    "List.find (\<lambda>m. LANGUAGE_LCID 0x7c19 = fst (m ! 0)) gPosixIDmap = Some locmap_ru"
    by (simp_all add: gPosixIDmap_def locmap_tables element_array_def LANGUAGE_LCID_def)
  show ?thesis
    by (simp add: lcid_to_locale_name [OF f(1)] lcid_to_locale_name [OF f(2)])
       (simp add: locmap_ru_def element_array_def LANGUAGE_LCID_def)
qed

end
