(* ===== verification/Strptime.thy ===== *)
theory Strptime
  imports Prelude "HOL-Library.Signed_Division" "HOL-Library.Sublist"
begin

text \<open>
  \<open>src/dcl/win32/strptime.h\<close>: the date parser used where the C library has none.  The read
  pointer \<open>bp\<close> is the rest of the input, with \<^const>\<open>None\<close> for the null pointer; \<open>struct tm\<close> is a record
  that is returned also when the parse fails, because the fields set so far keep their values.
  The conversions that the source implements by recursion terminate because the formats they expand to are lighter.
\<close>

record tm =
  tm_sec :: int
  tm_min :: int
  tm_hour :: int
  tm_mday :: int
  tm_mon :: int
  tm_year :: int
  tm_wday :: int
  tm_yday :: int

definition abday :: "string list" where
  "abday = [''Sun'', ''Mon'', ''Tue'', ''Wed'', ''Thu'', ''Fri'', ''Sat'']"

definition day :: "string list" where
  "day = [''Sunday'', ''Monday'', ''Tuesday'', ''Wednesday'', ''Thursday'', ''Friday'', ''Saturday'']"

definition abmon :: "string list" where
  "abmon = [''Jan'', ''Feb'', ''Mar'', ''Apr'', ''May'', ''Jun'',
            ''Jul'', ''Aug'', ''Sep'', ''Oct'', ''Nov'', ''Dec'']"

definition mon :: "string list" where
  "mon = [''January'', ''February'', ''March'', ''April'', ''May'', ''June'',
          ''July'', ''August'', ''September'', ''October'', ''November'', ''December'']"

definition am_pm :: "string list" where
  "am_pm = [''AM'', ''PM'']"

definition d_t_fmt :: string where "d_t_fmt = ''%a %Ef %T %Y''"
definition t_fmt_ampm :: string where "t_fmt_ampm = ''%I:%M:%S %p''"
definition t_fmt :: string where "t_fmt = ''%H:%M:%S''"
definition d_fmt :: string where "d_fmt = ''%m/%d/%y''"

definition TM_YEAR_BASE :: int where "TM_YEAR_BASE = 1900"

text \<open>The modifier flag: no bit, \<open>ALT_E\<close> or \<open>ALT_O\<close>; a second modifier is refused.\<close>

datatype alt = NO_ALT | ALT_E | ALT_O

definition legal_alt :: "alt list \<Rightarrow> alt \<Rightarrow> bool" where
  "legal_alt xs a = (a = NO_ALT \<or> a \<in> set xs)"

text \<open>The loop of \<open>conv_num\<close>: the digits read so far, and how many more the limit admits.\<close>

fun conv_loop :: "string \<Rightarrow> nat \<Rightarrow> nat \<Rightarrow> nat \<Rightarrow> nat \<times> string" where
  "conv_loop [] result rulim ulim = (result, [])"
| "conv_loop (ch # buf) result rulim ulim =
     (let result = result * 10 + (of_char ch - 48);
          rulim = rulim div 10
      in if result * 10 \<le> ulim \<and> rulim \<noteq> 0 \<and> (case buf of [] \<Rightarrow> False | c # _ \<Rightarrow> is_digit c)
         then conv_loop buf result rulim ulim
         else (result, buf))"

definition conv_num :: "string \<Rightarrow> int \<Rightarrow> nat \<Rightarrow> nat \<Rightarrow> string option \<times> int" where
  "conv_num buf dest llim ulim =
     (case buf of
        [] \<Rightarrow> (None, dest)
      | ch # _ \<Rightarrow>
          if \<not> is_digit ch then (None, dest)
          else (case conv_loop buf 0 ulim ulim of (result, rest) \<Rightarrow>
                  if result < llim \<or> result > ulim then (None, dest)
                  else (Some rest, int result)))"

definition strncasecmp_eq :: "string \<Rightarrow> string \<Rightarrow> bool" where
  "strncasecmp_eq n bp = (map to_lower (take (length n) bp) = map to_lower n)"

fun find_in :: "string \<Rightarrow> nat \<Rightarrow> string list \<Rightarrow> (string \<times> nat) option" where
  "find_in bp i [] = None"
| "find_in bp i (n # ns) =
     (if strncasecmp_eq n bp then Some (drop (length n) bp, i) else find_in bp (i + 1) ns)"

definition find_string :: "string \<Rightarrow> int \<Rightarrow> string list \<Rightarrow> string list \<Rightarrow> string option \<times> int" where
  "find_string bp tgt n1 n2 =
     (case find_in bp 0 n1 of
        Some (r, i) \<Rightarrow> (Some r, int i)
      | None \<Rightarrow> (case find_in bp 0 n2 of
                   Some (r, i) \<Rightarrow> (Some r, int i)
                 | None \<Rightarrow> (None, tgt)))"

definition literal :: "char \<Rightarrow> string \<Rightarrow> string option" where
  "literal c bp = (case bp of [] \<Rightarrow> None | b # r \<Rightarrow> if c = b then Some r else None)"

text \<open>\<open>LEGAL_ALT\<close> after a conversion: the fields are set, the parse may still be refused.\<close>

definition check_alt :: "alt list \<Rightarrow> alt \<Rightarrow> string option \<times> bool \<times> tm \<Rightarrow> string option \<times> bool \<times> tm" where
  "check_alt xs a r = (if legal_alt xs a then r else (None, snd r))"

text \<open>The elementary conversions: the new read pointer, \<open>split_year\<close> and the fields.\<close>

definition conv_C :: "string \<Rightarrow> bool \<Rightarrow> tm \<Rightarrow> string option \<times> bool \<times> tm" where
  "conv_C bp split_year t =
     (let (r, i) = conv_num bp 20 0 99;
          i = i * 100 - TM_YEAR_BASE;
          i = (if split_year then i + tm_year t smod 100 else i)
      in (r, True, t\<lparr>tm_year := i\<rparr>))"

definition conv_I :: "string \<Rightarrow> tm \<Rightarrow> string option \<times> tm" where
  "conv_I bp t =
     (let (r, i) = conv_num bp (tm_hour t) 1 12
      in (r, t\<lparr>tm_hour := (if i = 12 then 0 else i)\<rparr>))"

definition conv_p :: "alt \<Rightarrow> string \<Rightarrow> bool \<Rightarrow> tm \<Rightarrow> string option \<times> bool \<times> tm" where
  "conv_p a bp split_year t =
     (let (r, i) = find_string bp 0 am_pm []
      in if tm_hour t > 11 then (None, split_year, t)
         else check_alt [] a (r, split_year, t\<lparr>tm_hour := tm_hour t + i * 12\<rparr>))"

definition conv_y :: "string \<Rightarrow> bool \<Rightarrow> tm \<Rightarrow> string option \<times> bool \<times> tm" where
  "conv_y bp split_year t =
     (let (r, i) = conv_num bp 0 0 99
      in (r, True,
          t\<lparr>tm_year := (if split_year then i + (tm_year t sdiv 100) * 100
                         else if i \<le> 68 then i + 2000 - TM_YEAR_BASE
                         else i + 1900 - TM_YEAR_BASE)\<rparr>))"

definition conv :: "alt \<Rightarrow> char \<Rightarrow> string \<Rightarrow> bool \<Rightarrow> tm \<Rightarrow> string option \<times> bool \<times> tm" where
  "conv a c bp sy t =
     (if c = CHR ''%'' then check_alt [] a (literal c bp, sy, t)
      else if c = CHR ''A'' \<or> c = CHR ''a'' then
        (let (r, i) = find_string bp (tm_wday t) day abday in check_alt [] a (r, sy, t\<lparr>tm_wday := i\<rparr>))
      else if c = CHR ''B'' \<or> c = CHR ''b'' \<or> c = CHR ''h'' then
        (let (r, i) = find_string bp (tm_mon t) mon abmon in check_alt [] a (r, sy, t\<lparr>tm_mon := i\<rparr>))
      else if c = CHR ''C'' then check_alt [ALT_E] a (conv_C bp sy t)
      else if c = CHR ''d'' \<or> c = CHR ''e'' then
        (let (r, i) = conv_num bp (tm_mday t) 1 31 in check_alt [ALT_O] a (r, sy, t\<lparr>tm_mday := i\<rparr>))
      else if c = CHR ''k'' \<and> \<not> legal_alt [] a then (None, sy, t)
      else if c = CHR ''k'' \<or> c = CHR ''H'' then
        (let (r, i) = conv_num bp (tm_hour t) 0 23 in check_alt [ALT_O] a (r, sy, t\<lparr>tm_hour := i\<rparr>))
      else if c = CHR ''l'' \<and> \<not> legal_alt [] a then (None, sy, t)
      else if c = CHR ''l'' \<or> c = CHR ''I'' then
        (let (r, t') = conv_I bp t in check_alt [ALT_O] a (r, sy, t'))
      else if c = CHR ''j'' then
        (let (r, i) = conv_num bp 1 1 366 in check_alt [] a (r, sy, t\<lparr>tm_yday := i - 1\<rparr>))
      else if c = CHR ''M'' then
        (let (r, i) = conv_num bp (tm_min t) 0 59 in check_alt [ALT_O] a (r, sy, t\<lparr>tm_min := i\<rparr>))
      else if c = CHR ''m'' then
        (let (r, i) = conv_num bp 1 1 12 in check_alt [ALT_O] a (r, sy, t\<lparr>tm_mon := i - 1\<rparr>))
      else if c = CHR ''p'' then conv_p a bp sy t
      else if c = CHR ''S'' then
        (let (r, i) = conv_num bp (tm_sec t) 0 61 in check_alt [ALT_O] a (r, sy, t\<lparr>tm_sec := i\<rparr>))
      else if c = CHR ''U'' \<or> c = CHR ''W'' then
        check_alt [ALT_O] a (fst (conv_num bp 0 0 53), sy, t)
      else if c = CHR ''w'' then
        (let (r, i) = conv_num bp (tm_wday t) 0 6 in check_alt [ALT_O] a (r, sy, t\<lparr>tm_wday := i\<rparr>))
      else if c = CHR ''Y'' then
        (let (r, i) = conv_num bp TM_YEAR_BASE 0 9999
         in check_alt [ALT_E] a (r, sy, t\<lparr>tm_year := i - TM_YEAR_BASE\<rparr>))
      else if c = CHR ''y'' then conv_y bp sy t
      else if c = CHR ''n'' \<or> c = CHR ''t'' then check_alt [] a (Some (dropWhile is_space bp), sy, t)
      else (None, sy, t))"

text \<open>The complex conversions: the format they expand to, and whether a modifier is refused at once.\<close>

definition complex_fmt :: "char \<Rightarrow> (string \<times> bool) option" where
  "complex_fmt c =
     (if c = CHR ''c'' then Some (d_t_fmt, False)
      else if c = CHR ''D'' then Some (''%m/%d/%y'', True)
      else if c = CHR ''R'' then Some (''%H:%M'', True)
      else if c = CHR ''r'' then Some (t_fmt_ampm, True)
      else if c = CHR ''T'' then Some (''%H:%M:%S'', True)
      else if c = CHR ''X'' then Some (t_fmt, False)
      else if c = CHR ''x'' then Some (d_fmt, False)
      else None)"

definition read_alt :: "string \<Rightarrow> alt \<times> string" where
  "read_alt fmt = (case fmt of
     [] \<Rightarrow> (NO_ALT, [])
   | c # r \<Rightarrow> if c = CHR ''E'' then (ALT_E, r) else if c = CHR ''O'' then (ALT_O, r) else (NO_ALT, fmt))"

definition char_weight :: "char \<Rightarrow> nat" where
  "char_weight c = (if c = CHR ''c'' then 100
     else if c \<in> set ''DRrTXx'' then 20 else 1)"

definition weight :: "string \<Rightarrow> nat" where
  "weight fmt = sum_list (map char_weight fmt)"

lemma weight_simps [simp]: "weight [] = 0" "weight (c # s) = char_weight c + weight s"
  by (simp_all add: weight_def)

lemma char_weight_pos [simp]: "0 < char_weight c"
  by (simp add: char_weight_def)

lemma char_weight_percent [simp]: "char_weight CHR ''%'' = 1"
  by (simp add: char_weight_def)

lemma read_alt_weight: "read_alt fmt = (a, r) \<Longrightarrow> weight r \<le> weight fmt"
  by (cases fmt) (auto simp: read_alt_def split: if_splits)

lemma complex_weight: "complex_fmt c = Some (f, b) \<Longrightarrow> weight f < char_weight c"
  by (auto simp: complex_fmt_def d_t_fmt_def t_fmt_ampm_def t_fmt_def d_fmt_def char_weight_def
      split: if_splits)

function strptime_loop :: "string \<Rightarrow> string \<Rightarrow> bool \<Rightarrow> tm \<Rightarrow> string option \<times> tm" where
  "strptime_loop bp [] sy t = (Some bp, t)"
| "strptime_loop bp (c # fmt) sy t =
     (if is_space c then strptime_loop (dropWhile is_space bp) fmt sy t
      else if c \<noteq> CHR ''%'' then
        (case literal c bp of None \<Rightarrow> (None, t) | Some r \<Rightarrow> strptime_loop r fmt sy t)
      else (case read_alt fmt of
          (a, []) \<Rightarrow> (None, t)
        | (a, d # fmt') \<Rightarrow>
            (case complex_fmt d of
               Some (new_fmt, refuse) \<Rightarrow>
                 if refuse \<and> \<not> legal_alt [] a then (None, t)
                 else (case strptime_loop bp new_fmt False t of
                         (None, t') \<Rightarrow> (None, t')
                       | (Some r, t') \<Rightarrow>
                           if legal_alt [ALT_E] a then strptime_loop r fmt' sy t' else (None, t'))
             | None \<Rightarrow>
                 (case conv a d bp sy t of
                    (None, sy', t') \<Rightarrow> (None, t')
                  | (Some r, sy', t') \<Rightarrow> strptime_loop r fmt' sy' t'))))"
  by pat_completeness auto
termination
  by (relation "measure (\<lambda>(bp, fmt, sy, t). weight fmt)")
     (auto dest!: read_alt_weight [OF sym] complex_weight)

declare strptime_loop.simps(2) [simp del]

definition strptime :: "string \<Rightarrow> string \<Rightarrow> tm \<Rightarrow> string option \<times> tm" where
  "strptime buf fmt t = strptime_loop buf fmt False t"

subsection \<open>Numbers\<close>

lemma conv_num_range:
  "conv_num bp d l u = (r, i) \<Longrightarrow> int l \<le> d \<Longrightarrow> d \<le> int u \<Longrightarrow> int l \<le> i \<and> i \<le> int u"
  by (auto simp: conv_num_def split: list.splits if_splits prod.splits)

lemma conv_loop_suffix: "buf \<noteq> [] \<Longrightarrow> strict_suffix (snd (conv_loop buf res ru ul)) buf"
proof (induction buf arbitrary: res ru)
  case (Cons ch buf)
  have "snd (conv_loop (ch # buf) res ru ul) = buf \<or>
      (buf \<noteq> [] \<and> (\<exists>r u. snd (conv_loop (ch # buf) res ru ul) = snd (conv_loop buf r u ul)))"
    by (subst (1 2) conv_loop.simps) (cases buf; auto simp: Let_def simp del: conv_loop.simps)
  then have "suffix (snd (conv_loop (ch # buf) res ru ul)) buf"
    using Cons.IH by (metis strict_suffix_def suffix_order.refl)
  moreover have "strict_suffix s (ch # buf)" if "suffix s buf" for s
    using suffix_length_le [OF that] that by (auto simp: strict_suffix_def suffix_ConsI)
  ultimately show ?case by blast
qed simp

text \<open>The unsigned arithmetic of the loop does not wrap: it stops before ten times the limit.\<close>

lemma conv_loop_bound:
  "res * 10 \<le> ul \<Longrightarrow> list_all is_digit (take 1 buf) \<Longrightarrow> fst (conv_loop buf res ru ul) \<le> ul + 9"
proof (induction buf res ru ul rule: conv_loop.induct)
  case (2 ch buf res ru ul)
  have "of_char ch - 48 \<le> (9::nat)" using "2.prems" by (auto simp: is_digit_def)
  with 2 show ?case by (cases buf) (auto simp: Let_def)
qed simp

lemma conv_num_suffix: "conv_num bp d l u = (Some r, i) \<Longrightarrow> strict_suffix r bp"
  using conv_loop_suffix [of bp 0 u u]
  by (auto simp: conv_num_def split: list.splits if_splits prod.splits)

text \<open>Numbers printed with leading zeros to the width of the limit are read back.\<close>

definition pad2 :: "nat \<Rightarrow> string" where
  "pad2 n = [digit_char (n div 10), digit_char (n mod 10)]"

definition pad4 :: "nat \<Rightarrow> string" where
  "pad4 n = pad2 (n div 100) @ pad2 (n mod 100)"

lemma digit_char_value [simp]: "d < 10 \<Longrightarrow> (of_char (digit_char d) :: nat) = 48 + d"
  by (simp add: digit_char_def)

lemma conv_num_pad2:
  assumes "l \<le> n" "n \<le> u" "10 \<le> u" "u < 100"
  shows "conv_num (pad2 n @ rest) d l u = (Some rest, int n)"
proof -
  have "n div 10 < 10" "n div 10 * 10 \<le> u" "u div 10 \<noteq> 0" "u div 10 div 10 = 0"
    using assms by auto
  then show ?thesis using assms by (auto simp: conv_num_def pad2_def Let_def)
qed

lemma conv_num_digits4:
  assumes "a < 10" "b < 10" "c < 10" "e < 10"
  shows "conv_num (map digit_char [a, b, c, e] @ rest) d 0 9999 =
    (Some rest, int (((a * 10 + b) * 10 + c) * 10 + e))"
  using assms by (simp add: conv_num_def)

lemma conv_num_pad4:
  assumes "n \<le> 9999"
  shows "conv_num (pad4 n @ rest) d 0 9999 = (Some rest, int n)"
proof -
  let ?a = "n div 100 div 10" and ?b = "n div 100 mod 10" and ?c = "n mod 100 div 10" and ?e = "n mod 100 mod 10"
  have "?a * 10 + ?b = n div 100" "?c * 10 + ?e = n mod 100" "n div 100 * 100 + n mod 100 = n"
    by simp_all
  moreover have "(x * 10 + z) * 10 + w = x * 100 + (z * 10 + w)" for x z w :: nat
    by simp
  ultimately have "((?a * 10 + ?b) * 10 + ?c) * 10 + ?e = n" by (simp only:)
  moreover have "?a < 10" "?c < 10" using assms by auto
  ultimately show ?thesis
    using conv_num_digits4 [of ?a ?b ?c ?e rest d] by (simp add: pad4_def pad2_def)
qed

subsection \<open>Names\<close>

lemma find_in_SomeD:
  "find_in bp k ns = Some (r, i) \<Longrightarrow>
     k \<le> i \<and> i < k + length ns \<and> strncasecmp_eq (ns ! (i - k)) bp \<and> r = drop (length (ns ! (i - k))) bp"
proof (induction ns arbitrary: k)
  case (Cons n ns)
  show ?case
  proof (cases "strncasecmp_eq n bp")
    case False
    then have "Suc k \<le> i \<and> i < Suc k + length ns \<and> strncasecmp_eq (ns ! (i - Suc k)) bp
        \<and> r = drop (length (ns ! (i - Suc k))) bp"
      using Cons.IH [of "Suc k"] Cons.prems by simp
    then show ?thesis by (auto simp: nth_Cons')
  qed (use Cons.prems in auto)
qed simp

lemma find_string_range:
  "find_string bp d n1 n2 = (r, i) \<Longrightarrow> length n1 = n \<Longrightarrow> length n2 \<le> n \<Longrightarrow> 0 \<le> d \<Longrightarrow> d < int n \<Longrightarrow>
     0 \<le> i \<and> i < int n"
  by (fastforce simp: find_string_def dest!: find_in_SomeD split: option.splits)

lemma find_string_suffix: "find_string bp d n1 n2 = (Some r, i) \<Longrightarrow> suffix r bp"
  by (auto simp: find_string_def dest!: find_in_SomeD intro: suffix_drop split: option.splits)

subsection \<open>The invariant of the fields\<close>

definition tm_ok :: "tm \<Rightarrow> bool" where
  "tm_ok t = (0 \<le> tm_sec t \<and> tm_sec t \<le> 61 \<and> 0 \<le> tm_min t \<and> tm_min t \<le> 59 \<and>
     0 \<le> tm_hour t \<and> tm_hour t \<le> 23 \<and> 1 \<le> tm_mday t \<and> tm_mday t \<le> 31 \<and>
     0 \<le> tm_mon t \<and> tm_mon t \<le> 11 \<and> -1999 \<le> tm_year t \<and> tm_year t \<le> 8099 \<and>
     0 \<le> tm_wday t \<and> tm_wday t \<le> 6 \<and> 0 \<le> tm_yday t \<and> tm_yday t \<le> 365)"

lemmas name_tables = day_def abday_def mon_def abmon_def am_pm_def

lemma smod_100: "\<bar>x smod 100\<bar> < (100 :: int)"
  by (simp add: signed_modulo_int_def abs_mult)

lemma sdiv_100_range:
  "-1999 \<le> (x::int) \<Longrightarrow> x \<le> 8099 \<Longrightarrow> -1900 \<le> (x sdiv 100) * 100 \<and> (x sdiv 100) * 100 \<le> 8000"
  by (simp add: signed_divide_int_def sgn_if) linarith

lemma conv_C_ok:
  assumes "tm_ok t"
  shows "tm_ok (snd (snd (conv_C bp sy t)))"
proof -
  obtain r i where n: "conv_num bp 20 0 99 = (r, i)" by (cases "conv_num bp 20 0 99")
  then have "0 \<le> i" "i \<le> 99" using conv_num_range [OF n] by auto
  then show ?thesis using assms smod_100 [of "tm_year t"]
    by (auto simp: conv_C_def n tm_ok_def TM_YEAR_BASE_def Let_def)
qed

lemma conv_y_ok:
  assumes "tm_ok t"
  shows "tm_ok (snd (snd (conv_y bp sy t)))"
proof -
  obtain r i where n: "conv_num bp 0 0 99 = (r, i)" by (cases "conv_num bp 0 0 99")
  then have "0 \<le> i" "i \<le> 99" using conv_num_range [OF n] by auto
  then show ?thesis using assms sdiv_100_range [of "tm_year t"]
    by (auto simp: conv_y_def n tm_ok_def TM_YEAR_BASE_def Let_def)
qed

lemma conv_I_ok: "tm_ok t \<Longrightarrow> tm_ok (snd (conv_I bp t))"
  by (auto simp: conv_I_def tm_ok_def conv_num_def split: prod.splits list.splits if_splits)

lemma conv_p_ok: "tm_ok t \<Longrightarrow> tm_ok (snd (snd (conv_p a bp sy t)))"
  using find_string_range [of bp 0 am_pm "[]"]
  by (fastforce simp: conv_p_def tm_ok_def check_alt_def am_pm_def split: prod.splits)

lemma conv_ok:
  assumes t: "tm_ok t"
  shows "tm_ok (snd (snd (conv a c bp sy t)))"
proof -
  have num: "int l \<le> snd (conv_num bp d l u) \<and> snd (conv_num bp d l u) \<le> int u"
    if "int l \<le> d" "d \<le> int u" for d l u
    using conv_num_range [of bp d l u] that by (cases "conv_num bp d l u") auto
  have str: "0 \<le> snd (find_string bp d ns ms) \<and> snd (find_string bp d ns ms) < int n"
    if "length ns = n" "length ms \<le> n" "0 \<le> d" "d < int n" for d ns ms n
    using find_string_range [of bp d ns ms] that by (cases "find_string bp d ns ms") auto
  have upd: "tm_ok (t\<lparr>tm_wday := snd (find_string bp (tm_wday t) day abday)\<rparr>)"
    "tm_ok (t\<lparr>tm_mon := snd (find_string bp (tm_mon t) mon abmon)\<rparr>)"
    "tm_ok (t\<lparr>tm_mday := snd (conv_num bp (tm_mday t) 1 31)\<rparr>)"
    "tm_ok (t\<lparr>tm_hour := snd (conv_num bp (tm_hour t) 0 23)\<rparr>)"
    "tm_ok (t\<lparr>tm_yday := snd (conv_num bp 1 1 366) - 1\<rparr>)"
    "tm_ok (t\<lparr>tm_min := snd (conv_num bp (tm_min t) 0 59)\<rparr>)"
    "tm_ok (t\<lparr>tm_mon := snd (conv_num bp 1 1 12) - 1\<rparr>)"
    "tm_ok (t\<lparr>tm_sec := snd (conv_num bp (tm_sec t) 0 61)\<rparr>)"
    "tm_ok (t\<lparr>tm_wday := snd (conv_num bp (tm_wday t) 0 6)\<rparr>)"
    "tm_ok (t\<lparr>tm_year := snd (conv_num bp TM_YEAR_BASE 0 9999) - TM_YEAR_BASE\<rparr>)"
    using t str [of day 7 abday "tm_wday t"] str [of mon 12 abmon "tm_mon t"]
      num [of 1 "tm_mday t" 31] num [of 0 "tm_hour t" 23] num [of 1 1 366] num [of 0 "tm_min t" 59]
      num [of 1 1 12] num [of 0 "tm_sec t" 61] num [of 0 "tm_wday t" 6] num [of 0 TM_YEAR_BASE 9999]
    by (simp_all add: tm_ok_def name_tables TM_YEAR_BASE_def)
  then show ?thesis
    using t conv_C_ok [OF t, of bp sy] conv_y_ok [OF t, of bp sy] conv_I_ok [OF t, of bp]
      conv_p_ok [OF t, of a bp sy]
    by (simp add: conv_def check_alt_def Let_def case_prod_beta)
qed

lemma conv_suffix: "fst (conv a c bp sy t) = Some r \<Longrightarrow> suffix r bp"
proof -
  assume r: "fst (conv a c bp sy t) = Some r"
  have num: "fst (conv_num bp d l u) = Some r \<Longrightarrow> suffix r bp" for d l u
    using conv_num_suffix [of bp d l u r] by (cases "conv_num bp d l u") (auto simp: strict_suffix_def)
  have str: "fst (find_string bp d ns ms) = Some r \<Longrightarrow> suffix r bp" for d ns ms
    using find_string_suffix [of bp d ns ms r] by (cases "find_string bp d ns ms") auto
  have lit: "literal c bp = Some r \<Longrightarrow> suffix r bp"
    by (auto simp: literal_def suffix_def split: list.splits if_splits)
  have "suffix (dropWhile is_space bp) bp" by (rule suffix_dropWhile)
  with r num str lit show ?thesis
    by (auto simp: conv_def check_alt_def Let_def case_prod_beta conv_C_def conv_y_def conv_I_def conv_p_def
        split: if_splits)
qed

text \<open>What every conversion keeps of the fields, the whole parse keeps, whether it succeeds or not.\<close>

lemma strptime_loop_keeps:
  assumes step: "\<And>a c bp sy t. P t \<Longrightarrow> P (snd (snd (conv a c bp sy t)))"
  shows "P t \<Longrightarrow> P (snd (strptime_loop bp fmt sy t))"
proof (induction bp fmt sy t rule: strptime_loop.induct)
  case (2 bp c fmt sy t)
  have "P t'" if "conv a d bp sy t = (r, sy', t')" for a d r sy' t'
    using step [OF "2.prems", of a d bp sy] that by simp
  with 2 show ?case
    by (simp add: strptime_loop.simps(2)) (fastforce split: option.split list.split prod.split)
qed simp

lemma strptime_loop_suffix: "fst (strptime_loop bp fmt sy t) = Some r \<Longrightarrow> suffix r bp"
proof (induction bp fmt sy t arbitrary: r rule: strptime_loop.induct)
  case (2 bp c fmt sy t)
  have conv: "suffix r' bp" if "conv a d bp sy t = (Some r', sy', t')" for a d r' sy' t'
    using conv_suffix [of a d bp sy t r'] that by simp
  have lit_suffix: "suffix r' bp" if "literal c bp = Some r'" for r'
    using that by (auto simp: literal_def suffix_def split: list.splits if_splits)
  note trans = suffix_order.trans
  consider (space) "is_space c" | (lit) "\<not> is_space c" "c \<noteq> CHR ''%''" | (pct) "\<not> is_space c" "c = CHR ''%''"
    by blast
  then show ?case
  proof cases
    case space
    then have "suffix r (dropWhile is_space bp)" using 2 by (simp add: strptime_loop.simps(2))
    then show ?thesis using suffix_dropWhile trans by blast
  next
    case lit
    then obtain r1 where r1: "literal c bp = Some r1" "fst (strptime_loop r1 fmt sy t) = Some r"
      using "2.prems" by (auto simp: strptime_loop.simps(2) split: option.splits)
    then have "suffix r r1" using "2.IH"(2) lit by blast
    then show ?thesis using lit_suffix [OF r1(1)] by (rule trans)
  next
    case pct
    then obtain a d fmt' where ra: "read_alt fmt = (a, d # fmt')"
      using "2.prems" by (auto simp: strptime_loop.simps(2) split: list.splits prod.splits)
    show ?thesis
    proof (cases "complex_fmt d")
      case None
      obtain r1 sy1 t1 where r1: "conv a d bp sy t = (Some r1, sy1, t1)"
        and r: "fst (strptime_loop r1 fmt' sy1 t1) = Some r"
        using "2.prems" pct ra None
        by (auto simp: strptime_loop.simps(2) split: option.splits prod.splits)
      have "suffix r r1"
        using "2.IH"(3) [OF pct(1) _ ra [symmetric] refl None r1 [symmetric] refl refl r] pct by simp
      then show ?thesis using conv [OF r1] by (rule trans)
    next
      case (Some q)
      obtain f b where q: "q = (f, b)" by (cases q)
      obtain r1 t1 where r1: "strptime_loop bp f False t = (Some r1, t1)"
        and r: "fst (strptime_loop r1 fmt' sy t1) = Some r" and leg: "\<not> (b \<and> \<not> legal_alt [] a)" "legal_alt [ALT_E] a"
        using "2.prems" pct ra Some q
        by (auto simp: strptime_loop.simps(2) split: option.splits prod.splits if_splits)
      have "suffix r r1"
        using "2.IH"(5) [OF pct(1) _ ra [symmetric] refl Some q [symmetric] leg(1) r1 [symmetric] refl leg(2) r] pct by simp
      moreover have "suffix r1 bp"
        using "2.IH"(4) [OF pct(1) _ ra [symmetric] refl Some q [symmetric] leg(1)] pct r1 by simp
      ultimately show ?thesis by (rule trans)
    qed
  qed
qed simp

subsection \<open>Properties\<close>

text \<open>C10: \<open>strptime\<close> keeps every field of \<open>struct tm\<close> in its range (seconds 0..61, hours 0..23, days 1..31,
  months 0..11, the year within -1999..8099 of 1900, and so on), for every input and every format, on success and
  on every early return; and the pointer it returns points into the input.\<close>

theorem strptime_fields_in_range:
  assumes "tm_ok t"
  shows "tm_ok (snd (strptime buf fmt t)) \<and> pred_option (\<lambda>r. suffix r buf) (fst (strptime buf fmt t))"
  using strptime_loop_keeps [of tm_ok, OF conv_ok assms] strptime_loop_suffix [of buf fmt False t]
  by (auto simp: strptime_def option.pred_set split: option.splits)

definition tm0 :: tm where
  "tm0 = \<lparr>tm_sec = 0, tm_min = 0, tm_hour = 0, tm_mday = 1, tm_mon = 0, tm_year = 0, tm_wday = 0, tm_yday = 0\<rparr>"

theorem strptime_fields_in_range_witness:
  "tm_ok tm0 \<and> tm_ok (snd (strptime ''12:30:61 PM x'' ''%r y'' tm0))"
  using strptime_fields_in_range [of tm0 "''12:30:61 PM x''" "''%r y''"] by (simp add: tm_ok_def tm0_def)

text \<open>A date and time in the format of the library's string form is read back, field by field.\<close>

definition print_tm :: "nat \<Rightarrow> nat \<Rightarrow> nat \<Rightarrow> nat \<Rightarrow> nat \<Rightarrow> nat \<Rightarrow> string" where
  "print_tm y mo d h mi s =
     pad4 y @ ''-'' @ pad2 mo @ ''-'' @ pad2 d @ '' '' @ pad2 h @ '':'' @ pad2 mi @ '':'' @ pad2 s"

lemma strptime_loop_step:
  assumes "\<not> is_space c" "c \<noteq> CHR ''%''"
  shows "strptime_loop (c # bp) (c # fmt) sy t = strptime_loop bp fmt sy t"
  using assms by (simp add: strptime_loop.simps(2) literal_def)

lemma strptime_loop_conv:
  assumes "complex_fmt c = None" "c \<noteq> CHR ''E''" "c \<noteq> CHR ''O''"
  shows "strptime_loop bp (CHR ''%'' # c # fmt) sy t =
    (case conv NO_ALT c bp sy t of
       (None, sy', t') \<Rightarrow> (None, t')
     | (Some r, sy', t') \<Rightarrow> strptime_loop r fmt sy' t')"
  using assms by (simp add: strptime_loop.simps(2) read_alt_def is_space_def)

lemma strptime_loop_space:
  "is_space c \<Longrightarrow> strptime_loop bp (c # fmt) sy t = strptime_loop (dropWhile is_space bp) fmt sy t"
  by (simp add: strptime_loop.simps(2))

lemma dropWhile_pad2: "n < 100 \<Longrightarrow> dropWhile is_space (pad2 n @ s) = pad2 n @ s"
  by (simp add: pad2_def)

text \<open>a calendar date and time printed as \<open>YYYY-MM-DD hh:mm:ss\<close> is parsed by the format
  \<open>%Y-%m-%d %H:%M:%S\<close> back into exactly its fields, with the whole input consumed and the other
  fields untouched.\<close>

theorem strptime_reads_back:
  assumes "y \<le> 9999" "1 \<le> mo" "mo \<le> 12" "1 \<le> d" "d \<le> 31" "h \<le> 23" "mi \<le> 59" "s \<le> 61"
  shows "strptime (print_tm y mo d h mi s) ''%Y-%m-%d %H:%M:%S'' t =
    (Some [], t\<lparr>tm_year := int y - 1900, tm_mon := int mo - 1, tm_mday := int d,
                tm_hour := int h, tm_min := int mi, tm_sec := int s\<rparr>)"
proof -
  have "h < 100" using assms by simp
  then show ?thesis
    using assms conv_num_pad2 [of 0 s 61 "[]"]
    by (simp add: strptime_def print_tm_def strptime_loop_conv strptime_loop_step strptime_loop_space
        complex_fmt_def conv_def check_alt_def legal_alt_def conv_num_pad2 conv_num_pad4 dropWhile_pad2
        TM_YEAR_BASE_def is_space_def)
qed

theorem strptime_reads_back_witness:
  "strptime (print_tm 2024 2 29 23 59 60) ''%Y-%m-%d %H:%M:%S'' tm0 =
     (Some [], tm0\<lparr>tm_year := 124, tm_mon := 1, tm_mday := 29, tm_hour := 23, tm_min := 59, tm_sec := 60\<rparr>)"
  using strptime_reads_back [of 2024 2 29 23 59 60 tm0] by simp

text \<open>the conversion \<open>%c\<close> fails on every input: its expansion \<open>%a %Ef %T %Y\<close> contains \<open>%f\<close>, which is not
  a conversion.  The weekday may already be set when it fails.\<close>

theorem strptime_c_always_fails: "fst (strptime buf (''%c'' @ fmt) t) = None"
proof -
  have "fst (strptime_loop bp (''%Ef %T %Y'') sy u) = None" for bp sy u
    by (simp add: strptime_loop.simps(2) read_alt_def complex_fmt_def conv_def is_space_def)
  then have "fst (strptime_loop buf d_t_fmt False t) = None"
    by (auto simp: d_t_fmt_def strptime_loop_conv complex_fmt_def strptime_loop_space is_space_def
        split: option.split prod.split)
  then obtain t' where "strptime_loop buf d_t_fmt False t = (None, t')"
    by (cases "strptime_loop buf d_t_fmt False t") auto
  then show ?thesis
    by (simp add: strptime_def strptime_loop.simps(2) read_alt_def complex_fmt_def is_space_def)
qed

end
