(* ===== verification/Calendar.thy ===== *)
theory Calendar
  imports Strptime
begin

text \<open>
  The calendar behind the C library's \<open>gmtime\<close>, \<open>localtime\<close>, \<open>mktime\<close> and \<open>strftime\<close>: the proleptic
  Gregorian calendar, with a time zone that is a fixed number of seconds east of Greenwich
  (daylight saving is not modelled, \<open>struct tm\<close> has no \<open>tm_isdst\<close> here) and the names of the C locale.
  \<open>time_t\<close> is an unbounded \<^typ>\<open>int\<close>.
\<close>

definition leap :: "int \<Rightarrow> bool" where
  "leap y = (y mod 4 = 0 \<and> (y mod 100 \<noteq> 0 \<or> y mod 400 = 0))"

text \<open>Days from 1 January of year 1 to 1 January of year \<open>y\<close>.\<close>

definition year_start :: "int \<Rightarrow> int" where
  "year_start y = 365 * (y - 1) + (y - 1) div 4 - (y - 1) div 100 + (y - 1) div 400"

lemma div_step:
  assumes "0 < k"
  shows "(y::int) div k = (y - 1) div k + (if y mod k = 0 then 1 else 0)"
proof (cases "y mod k = 0")
  case True
  then have "y - 1 = k * (y div k - 1) + (k - 1)" using div_mult_mod_eq [of y k] by (simp add: algebra_simps)
  then have "(y - 1) div k = y div k - 1" using assms by (intro int_div_pos_eq [where r = "k - 1"]) auto
  then show ?thesis using True by simp
next
  case False
  have b: "0 \<le> y mod k" "y mod k < k" using assms by simp_all
  have "y - 1 = k * (y div k) + (y mod k - 1)" by simp
  moreover have "0 \<le> y mod k - 1" "y mod k - 1 < k" using False b by linarith+
  ultimately have "(y - 1) div k = y div k" by (rule int_div_pos_eq)
  then show ?thesis using False by simp
qed

lemma year_start_next: "year_start (y + 1) = year_start y + (if leap y then 366 else 365)"
proof -
  define a b c a' b' c' where d: "a = y div 4" "b = y div 100" "c = y div 400"
    "a' = (y - 1) div 4" "b' = (y - 1) div 100" "c' = (y - 1) div 400"
  define p q r where e: "p = (y mod 4 = 0)" "q = (y mod 100 = 0)" "r = (y mod 400 = 0)"
  have "q \<Longrightarrow> p" unfolding e using mod_mod_cancel [of 4 100 y] by simp
  moreover have "r \<Longrightarrow> q" unfolding e using mod_mod_cancel [of 100 400 y] by simp
  moreover have "a = a' + (if p then 1 else 0)" "b = b' + (if q then 1 else 0)" "c = c' + (if r then 1 else 0)"
    unfolding d e by (rule div_step, simp)+
  moreover have "year_start (y + 1) = 365 * y + a - b + c" "year_start y = 365 * (y - 1) + a' - b' + c'"
    by (simp_all add: year_start_def d)
  moreover have "leap y = (p \<and> (\<not> q \<or> r))" by (simp only: leap_def e)
  ultimately show ?thesis by (cases p; cases q; cases r) simp_all
qed

lemma year_start_prev: "year_start y = year_start (y - 1) + (if leap (y - 1) then 366 else 365)"
  using year_start_next [of "y - 1"] by simp

lemma year_start_mono: "y < z \<Longrightarrow> year_start (y + 1) \<le> year_start z"
proof (induction "nat (z - y)" arbitrary: z rule: less_induct)
  case less
  show ?case
  proof (cases "z = y + 1")
    case False
    then have "year_start (y + 1) \<le> year_start (z - 1)" using less by auto
    then show ?thesis using year_start_prev [of z] by (auto split: if_splits)
  qed simp
qed

text \<open>The year of a day number: from an estimate, up or down to the year that contains it.\<close>

function year_of :: "int \<Rightarrow> int \<Rightarrow> int" where
  "year_of d y =
     (if year_start (y + 1) \<le> d then year_of d (y + 1)
      else if d < year_start y then year_of d (y - 1)
      else y)"
  by pat_completeness auto
termination
proof (relation "measure (\<lambda>(d, y). if d < year_start y then nat (year_start y - d) + 400 else nat (d - year_start y))",
    goal_cases)
  case (2 d y)
  then show ?case using year_start_next [of y] by (auto split: if_splits)
next
  case (3 d y)
  then show ?case using year_start_prev [of y] by (auto split: if_splits)
qed simp

declare year_of.simps [simp del]

lemma year_of_spec: "year_start (year_of d y) \<le> d \<and> d < year_start (year_of d y + 1)"
proof (induction d y rule: year_of.induct)
  case (1 d y)
  then show ?case by (subst (1 2) year_of.simps) auto
qed

lemma year_of_eq: "year_start z \<le> d \<Longrightarrow> d < year_start (z + 1) \<Longrightarrow> year_of d y = z"
  using year_of_spec [of d y] year_start_mono [of z "year_of d y"] year_start_mono [of "year_of d y" z]
  by linarith

definition month_starts :: "int list" where
  "month_starts = [0, 31, 59, 90, 120, 151, 181, 212, 243, 273, 304, 334]"

definition month_start :: "bool \<Rightarrow> nat \<Rightarrow> int" where
  "month_start lp m = month_starts ! m + (if lp \<and> 2 \<le> m then 1 else 0)"

definition year_length :: "bool \<Rightarrow> int" where
  "year_length lp = (if lp then 366 else 365)"

definition month_length :: "bool \<Rightarrow> nat \<Rightarrow> int" where
  "month_length lp m = (if m = 11 then year_length lp else month_start lp (Suc m)) - month_start lp m"

definition month_of :: "bool \<Rightarrow> int \<Rightarrow> nat" where
  "month_of lp yd = length (filter (\<lambda>m. month_start lp m \<le> yd) [0..<12]) - 1"

lemma less_12_cases: "m < 12 \<Longrightarrow> m \<in> {0, 1, 2, 3, 4, 5, 6, 7, 8, 9, 10, 11 :: nat}"
  by (simp, presburger)

lemmas month_defs = month_start_def month_starts_def month_length_def year_length_def

lemma upt_12: "[0..<12] = [0, 1, 2, 3, 4, 5, 6, 7, 8, 9, 10, 11 :: nat]"
  by (simp add: upt_rec)

lemma month_start_sorted: "sorted (map (month_start lp) [0..<12])"
  by (cases lp) (simp_all add: upt_12 month_defs)

lemma month_start_mono: "m \<le> k \<Longrightarrow> k < 12 \<Longrightarrow> month_start lp m \<le> month_start lp k"
  using sorted_nth_mono [OF month_start_sorted, of m k lp] by simp

lemma month_of_start:
  assumes "m < 12" "1 \<le> d" "d \<le> month_length lp m"
  shows "month_of lp (month_start lp m + d - 1) = m"
proof -
  let ?x = "month_start lp m + d - 1"
  have "filter (\<lambda>k. month_start lp k \<le> ?x) [0..<Suc m] = [0..<Suc m]"
  proof (rule filter_True, rule ballI)
    fix k assume "k \<in> set [0..<Suc m]"
    then have "month_start lp k \<le> month_start lp m" using month_start_mono [of k m lp] assms(1) by auto
    then show "month_start lp k \<le> ?x" using assms(2) by simp
  qed
  moreover have "\<not> month_start lp k \<le> ?x" if "Suc m \<le> k" "k < 12" for k
    using month_start_mono [OF that, of lp] assms that by (auto simp: month_length_def)
  then have "filter (\<lambda>k. month_start lp k \<le> ?x) [Suc m..<12] = []" by (simp add: filter_empty_conv)
  moreover have "[0..<12] = [0..<Suc m] @ [Suc m..<12]"
    using assms(1) upt_add_eq_append [of 0 "Suc m" "12 - Suc m"] by simp
  ultimately show ?thesis by (simp add: month_of_def del: upt_Suc)
qed

lemma bracket: "f 0 \<le> (x::int) \<Longrightarrow> x < f n \<Longrightarrow> \<exists>m < n. f m \<le> x \<and> x < f (Suc m)"
  by (induction n) (auto, metis less_Suc_eq not_le)

lemma month_of_spec:
  assumes "0 \<le> yd" "yd < year_length lp"
  shows "month_of lp yd < 12 \<and> month_start lp (month_of lp yd) \<le> yd \<and>
    yd < month_start lp (month_of lp yd) + month_length lp (month_of lp yd)"
proof -
  let ?f = "\<lambda>m. if m = 12 then year_length lp else month_start lp m"
  have "?f 0 \<le> yd" "yd < ?f 12" using assms by (simp_all add: month_defs)
  then obtain m where "m < 12" "?f m \<le> yd" "yd < ?f (Suc m)" using bracket [of ?f yd 12] by auto
  then have m: "m < 12" "month_start lp m \<le> yd" "yd < month_start lp m + month_length lp m"
    by (auto simp: month_length_def split: if_splits)
  then have "month_of lp yd = m"
    using month_of_start [of m "yd - month_start lp m + 1" lp] by simp
  with m show ?thesis by simp
qed

subsection \<open>Broken-down time\<close>

definition epoch :: int where "epoch = 719162"

definition gmtime :: "int \<Rightarrow> tm" where
  "gmtime t =
     (let d = t div 86400;
          s = t mod 86400;
          y = year_of (d + epoch) (1970 + d div 366);
          yd = d + epoch - year_start y;
          m = month_of (leap y) yd
      in \<lparr>tm_sec = s mod 60, tm_min = s div 60 mod 60, tm_hour = s div 3600,
          tm_mday = yd - month_start (leap y) m + 1, tm_mon = int m, tm_year = y - 1900,
          tm_wday = (d + 4) mod 7, tm_yday = yd\<rparr>)"

text \<open>\<open>timegm\<close> normalises: a month outside 0..11 moves the year, every other field is just added.\<close>

definition timegm :: "tm \<Rightarrow> int" where
  "timegm t =
     (let y = tm_year t + 1900 + tm_mon t div 12;
          m = nat (tm_mon t mod 12)
      in (year_start y - epoch + month_start (leap y) m + tm_mday t - 1) * 86400
         + tm_hour t * 3600 + tm_min t * 60 + tm_sec t)"

definition localtime :: "int \<Rightarrow> int \<Rightarrow> tm" where
  "localtime tz t = gmtime (t + tz)"

definition mktime :: "int \<Rightarrow> tm \<Rightarrow> int" where
  "mktime tz t = timegm t - tz"

lemma clock_split: "s div 3600 * 3600 + s div 60 mod 60 * 60 + s mod 60 = (s::int)"
proof -
  have "s div 60 div 60 = s div 3600" by (simp flip: zdiv_zmult2_eq)
  then have "s div 60 = s div 3600 * 60 + s div 60 mod 60" by (metis div_mult_mod_eq)
  moreover have "s = s div 60 * 60 + s mod 60" by simp
  moreover have "h * 3600 + m * 60 + r = s" if "q = h * 60 + m" "s = q * 60 + r" for h m q r :: int
    using that by simp
  ultimately show ?thesis by blast
qed

text \<open>A broken-down time that names a moment of the calendar.\<close>

definition civil :: "tm \<Rightarrow> bool" where
  "civil t = (0 \<le> tm_sec t \<and> tm_sec t < 60 \<and> 0 \<le> tm_min t \<and> tm_min t < 60 \<and>
     0 \<le> tm_hour t \<and> tm_hour t < 24 \<and> 0 \<le> tm_mon t \<and> tm_mon t < 12 \<and>
     1 \<le> tm_mday t \<and> tm_mday t \<le> month_length (leap (tm_year t + 1900)) (nat (tm_mon t)))"

definition clock :: "tm \<Rightarrow> int \<times> int \<times> int \<times> int \<times> int \<times> int" where
  "clock t = (tm_year t, tm_mon t, tm_mday t, tm_hour t, tm_min t, tm_sec t)"

lemma gmtime_year_day:
  defines "y \<equiv> \<lambda>t. year_of (t div 86400 + epoch) (1970 + t div 86400 div 366)"
  shows "0 \<le> t div 86400 + epoch - year_start (y t)"
    "t div 86400 + epoch - year_start (y t) < year_length (leap (y t))"
  using year_of_spec [of "t div 86400 + epoch" "1970 + t div 86400 div 366"] year_start_next [of "y t"]
  by (auto simp: y_def year_length_def)

lemma timegm_gmtime: "timegm (gmtime t) = t"
proof -
  let ?y = "year_of (t div 86400 + epoch) (1970 + t div 86400 div 366)"
  let ?yd = "t div 86400 + epoch - year_start ?y"
  have m: "month_of (leap ?y) ?yd < 12"
    using month_of_spec [OF gmtime_year_day [of t]] by simp
  let ?s = "t mod 86400"
  have "timegm (gmtime t) = t div 86400 * 86400 + (?s div 3600 * 3600 + ?s div 60 mod 60 * 60 + ?s mod 60)"
    using m by (simp add: timegm_def gmtime_def Let_def div_pos_pos_trivial mod_pos_pos_trivial)
  also have "\<dots> = t" unfolding clock_split by simp
  finally show ?thesis .
qed

lemma month_end_le: "m < 12 \<Longrightarrow> month_start lp m + month_length lp m \<le> year_length lp"
  by (drule less_12_cases, cases lp) (auto simp: month_defs)

lemma month_start_nonneg: "m < 12 \<Longrightarrow> 0 \<le> month_start lp m"
  using month_start_mono [of 0 m lp] by (simp add: month_start_def month_starts_def)

lemma gmtime_timegm:
  assumes "civil t"
  shows "clock (gmtime (timegm t)) = clock t"
proof -
  let ?y = "tm_year t + 1900" and ?m = "nat (tm_mon t)"
  let ?yd = "month_start (leap ?y) ?m + tm_mday t - 1"
  let ?s = "tm_hour t * 3600 + tm_min t * 60 + tm_sec t"
  let ?T = "timegm t"
  from assms have m: "?m < 12" "tm_mon t div 12 = 0" "tm_mon t mod 12 = tm_mon t"
    by (auto simp: civil_def div_pos_pos_trivial mod_pos_pos_trivial)
  have T: "?T = 86400 * (year_start ?y - epoch + ?yd) + ?s"
    by (simp add: timegm_def Let_def m algebra_simps)
  have s: "0 \<le> ?s" "?s < 86400" using assms by (auto simp: civil_def)
  have day: "?T div 86400 = year_start ?y - epoch + ?yd" by (rule int_div_pos_eq [OF T s])
  have sec: "?T mod 86400 = ?s" by (rule int_mod_pos_eq [OF T s])
  have yd: "0 \<le> ?yd" "?yd < year_length (leap ?y)"
    using assms month_start_nonneg [OF m(1), of "leap ?y"] month_end_le [OF m(1), of "leap ?y"]
    by (auto simp: civil_def)
  have year: "year_of (?T div 86400 + epoch) z = ?y" for z
    using yd year_start_next [of ?y] by (intro year_of_eq) (auto simp: day year_length_def)
  have mon: "month_of (leap ?y) ?yd = ?m"
    using assms m(1) by (intro month_of_start) (auto simp: civil_def)
  have hms: "?s div 3600 = tm_hour t" "?s div 60 mod 60 = tm_min t" "?s mod 60 = tm_sec t"
  proof -
    have c: "0 \<le> tm_min t * 60 + tm_sec t" "tm_min t * 60 + tm_sec t < 3600" "0 \<le> tm_min t" "tm_min t < 60"
      "0 \<le> tm_sec t" "tm_sec t < 60" using assms by (auto simp: civil_def)
    show "?s div 3600 = tm_hour t"
      using c by (intro int_div_pos_eq [where r = "tm_min t * 60 + tm_sec t"]) auto
    have "?s div 60 = tm_hour t * 60 + tm_min t"
      using c by (intro int_div_pos_eq [where r = "tm_sec t"]) auto
    then show "?s div 60 mod 60 = tm_min t"
      using c by (intro int_mod_pos_eq [where q = "tm_hour t"]) auto
    show "?s mod 60 = tm_sec t"
      using c by (intro int_mod_pos_eq [where q = "tm_hour t * 60 + tm_min t"]) auto
  qed
  have ydeq: "?T div 86400 + epoch - year_start ?y = ?yd" by (simp add: day)
  show ?thesis
    unfolding gmtime_def clock_def Let_def year sec ydeq mon hms using m assms
    by (simp add: civil_def)
qed

lemma gmtime_civil: "civil (gmtime t)"
proof -
  let ?y = "year_of (t div 86400 + epoch) (1970 + t div 86400 div 366)"
  let ?s = "t mod 86400"
  have "0 \<le> ?s" "?s < 86400" by simp_all
  then have "0 \<le> ?s div 3600" "?s div 3600 < 24" by (simp_all add: div_less_iff_less_mult pos_imp_zdiv_nonneg_iff)
  moreover have "?s mod 60 < 60" "0 \<le> ?s mod 60" "?s div 60 mod 60 < 60" "0 \<le> ?s div 60 mod 60" by simp_all
  ultimately show ?thesis
    using month_of_spec [OF gmtime_year_day [of t]] by (simp add: civil_def gmtime_def Let_def)
qed

end
