(* ===== verification/Datetime.thy ===== *)
theory Datetime
  imports Calendar
begin

text \<open>
  \<open>include/dcl/datetime.h\<close>, \<open>src/dcl/datetime.cpp\<close>: a moment, its fields in local time, and its textual
  forms.  \<open>tz\<close> is the offset of local time; \<open>zone\<close> its name; \<open>garbage\<close> the contents of the uninitialised
  \<open>struct tm\<close> of the parsing constructor, which uses the \<open>strptime\<close> of the \<open>win32\<close> directory.
\<close>

datatype datetime = Datetime (dt_t: int)

definition DEFAULT_DATETIME_FORMAT :: string where
  "DEFAULT_DATETIME_FORMAT = ''%a, %d %b %Y %H:%M:%S %Z''"

definition datetime_new :: datetime where
  "datetime_new = Datetime 0"

definition datetime_parse :: "tm \<Rightarrow> int \<Rightarrow> string \<Rightarrow> string \<Rightarrow> datetime" where
  "datetime_parse garbage tz src fmt =
     Datetime (mktime tz (snd (strptime (c_str src) (c_str fmt) garbage)))"

text \<open>The comparison operators are those of the underlying \<open>time_t\<close>, each written as the class writes it.\<close>

definition dt_less :: "datetime \<Rightarrow> datetime \<Rightarrow> bool" where
  "dt_less a b = (dt_t a < dt_t b)"

definition dt_greater :: "datetime \<Rightarrow> datetime \<Rightarrow> bool" where
  "dt_greater a b = dt_less b a"

definition dt_less_eq :: "datetime \<Rightarrow> datetime \<Rightarrow> bool" where
  "dt_less_eq a b = (\<not> dt_less b a)"

definition dt_greater_eq :: "datetime \<Rightarrow> datetime \<Rightarrow> bool" where
  "dt_greater_eq a b = (\<not> dt_less a b)"

instantiation datetime :: linorder
begin

definition less_datetime :: "datetime \<Rightarrow> datetime \<Rightarrow> bool" where
  "less_datetime a b = dt_less a b"

definition less_eq_datetime :: "datetime \<Rightarrow> datetime \<Rightarrow> bool" where
  "less_eq_datetime a b = dt_less_eq a b"

instance
  by standard (auto simp: less_datetime_def less_eq_datetime_def dt_less_def dt_less_eq_def intro: datetime.expand)

end

definition dt_empty :: "datetime \<Rightarrow> bool" where
  "dt_empty d = (dt_t d = 0)"

definition dt_clear :: "datetime \<Rightarrow> datetime" where
  "dt_clear d = Datetime 0"

definition dt_now :: "int \<Rightarrow> datetime \<Rightarrow> datetime" where
  "dt_now time d = Datetime time"

text \<open>The difference in seconds goes through \<open>double\<close> to \<open>int\<close>; outside the range of \<open>int\<close> it is undefined.\<close>

definition dt_minus :: "datetime \<Rightarrow> datetime \<Rightarrow> int option" where
  "dt_minus a b = (let d = dt_t a - dt_t b in if is_int32 d then Some d else None)"

definition dt_year :: "int \<Rightarrow> datetime \<Rightarrow> int" where
  "dt_year tz d = tm_year (localtime tz (dt_t d)) + 1900"

definition dt_set_year :: "int \<Rightarrow> int \<Rightarrow> datetime \<Rightarrow> datetime" where
  "dt_set_year tz val d = Datetime (mktime tz ((localtime tz (dt_t d))\<lparr>tm_year := val - 1900\<rparr>))"

definition dt_month :: "int \<Rightarrow> datetime \<Rightarrow> int" where
  "dt_month tz d = tm_mon (localtime tz (dt_t d)) + 1"

definition dt_set_month :: "int \<Rightarrow> int \<Rightarrow> datetime \<Rightarrow> datetime" where
  "dt_set_month tz val d = Datetime (mktime tz ((localtime tz (dt_t d))\<lparr>tm_mon := val - 1\<rparr>))"

definition dt_day :: "int \<Rightarrow> datetime \<Rightarrow> int" where
  "dt_day tz d = tm_mday (localtime tz (dt_t d))"

definition dt_set_day :: "int \<Rightarrow> int \<Rightarrow> datetime \<Rightarrow> datetime" where
  "dt_set_day tz val d = Datetime (mktime tz ((localtime tz (dt_t d))\<lparr>tm_mday := val\<rparr>))"

definition dt_hour :: "int \<Rightarrow> datetime \<Rightarrow> int" where
  "dt_hour tz d = tm_hour (localtime tz (dt_t d))"

definition dt_set_hour :: "int \<Rightarrow> int \<Rightarrow> datetime \<Rightarrow> datetime" where
  "dt_set_hour tz val d = Datetime (mktime tz ((localtime tz (dt_t d))\<lparr>tm_hour := val\<rparr>))"

definition dt_minute :: "int \<Rightarrow> datetime \<Rightarrow> int" where
  "dt_minute tz d = tm_min (localtime tz (dt_t d))"

definition dt_set_minute :: "int \<Rightarrow> int \<Rightarrow> datetime \<Rightarrow> datetime" where
  "dt_set_minute tz val d = Datetime (mktime tz ((localtime tz (dt_t d))\<lparr>tm_min := val\<rparr>))"

definition dt_second :: "int \<Rightarrow> datetime \<Rightarrow> int" where
  "dt_second tz d = tm_sec (localtime tz (dt_t d))"

definition dt_set_second :: "int \<Rightarrow> int \<Rightarrow> datetime \<Rightarrow> datetime" where
  "dt_set_second tz val d = Datetime (mktime tz ((localtime tz (dt_t d))\<lparr>tm_sec := val\<rparr>))"

text \<open>\<open>strftime\<close> of the C locale, for the specifiers that the header lists; another one is copied.\<close>

definition pad3 :: "nat \<Rightarrow> string" where
  "pad3 n = digit_char (n div 100) # pad2 (n mod 100)"

definition strftime_conv :: "string \<Rightarrow> char \<Rightarrow> tm \<Rightarrow> string" where
  "strftime_conv zone c t =
     (let two = (\<lambda>i. pad2 (nat i));
          hms = two (tm_hour t) @ '':'' @ two (tm_min t) @ '':'' @ two (tm_sec t);
          h12 = (if tm_hour t mod 12 = 0 then 12 else tm_hour t mod 12)
      in if c = CHR ''a'' then abday ! nat (tm_wday t)
         else if c = CHR ''A'' then day ! nat (tm_wday t)
         else if c = CHR ''b'' then abmon ! nat (tm_mon t)
         else if c = CHR ''B'' then mon ! nat (tm_mon t)
         else if c = CHR ''c'' then
           abday ! nat (tm_wday t) @ '' '' @ abmon ! nat (tm_mon t) @ '' '' @
           (if tm_mday t < 10 then CHR '' '' # print_int (tm_mday t) else two (tm_mday t)) @ '' '' @
           hms @ '' '' @ print_int (tm_year t + 1900)
         else if c = CHR ''d'' then two (tm_mday t)
         else if c = CHR ''H'' then two (tm_hour t)
         else if c = CHR ''I'' then two h12
         else if c = CHR ''j'' then pad3 (nat (tm_yday t + 1))
         else if c = CHR ''m'' then two (tm_mon t + 1)
         else if c = CHR ''M'' then two (tm_min t)
         else if c = CHR ''p'' then (if tm_hour t < 12 then ''AM'' else ''PM'')
         else if c = CHR ''S'' then two (tm_sec t)
         else if c = CHR ''U'' then two ((tm_yday t + 7 - tm_wday t) div 7)
         else if c = CHR ''w'' then print_int (tm_wday t)
         else if c = CHR ''W'' then two ((tm_yday t + 7 - (tm_wday t - 1) mod 7) div 7)
         else if c = CHR ''x'' then
           two (tm_mon t + 1) @ ''/'' @ two (tm_mday t) @ ''/'' @ two ((tm_year t + 1900) mod 100)
         else if c = CHR ''X'' then hms
         else if c = CHR ''y'' then two ((tm_year t + 1900) mod 100)
         else if c = CHR ''Y'' then print_int (tm_year t + 1900)
         else if c = CHR ''Z'' then zone
         else if c = CHR ''%'' then ''%''
         else [CHR ''%'', c])"

fun strftime :: "string \<Rightarrow> string \<Rightarrow> tm \<Rightarrow> string" where
  "strftime zone [] t = []"
| "strftime zone [c] t = [c]"
| "strftime zone (c # d # f) t =
     (if c = CHR ''%'' then strftime_conv zone d t @ strftime zone f t
      else c # strftime zone (d # f) t)"

text \<open>\<open>strftime\<close> into the buffer of 128 bytes: where the text and its NUL do not fit, the contents of the
  buffer are indeterminate, here \<^const>\<open>None\<close>.\<close>

definition to_buffer :: "string \<Rightarrow> string option" where
  "to_buffer s = (if length s < 128 then Some (c_str s) else None)"

definition dt_str :: "string \<Rightarrow> int \<Rightarrow> string \<Rightarrow> datetime \<Rightarrow> string option" where
  "dt_str zone tz format d = to_buffer (strftime zone (c_str format) (localtime tz (dt_t d)))"

definition dt_as_gmt :: "datetime \<Rightarrow> string option" where
  "dt_as_gmt d = to_buffer (strftime ''GMT'' ''%a, %d %b %Y %H:%M:%S GMT'' (gmtime (dt_t d)))"

subsection \<open>Fields\<close>

lemma localtime_mktime: "civil t \<Longrightarrow> clock (localtime tz (mktime tz t)) = clock t"
  by (simp add: localtime_def mktime_def gmtime_timegm)

lemma mktime_localtime: "mktime tz (localtime tz t) = t"
  by (simp add: localtime_def mktime_def timegm_gmtime)

lemma clock_fields:
  "clock t = clock u \<Longrightarrow> tm_year t = tm_year u \<and> tm_mon t = tm_mon u \<and> tm_mday t = tm_mday u \<and>
     tm_hour t = tm_hour u \<and> tm_min t = tm_min u \<and> tm_sec t = tm_sec u"
  by (simp add: clock_def)

definition dt_fields :: "int \<Rightarrow> datetime \<Rightarrow> int list" where
  "dt_fields tz d = [dt_year tz d, dt_month tz d, dt_day tz d, dt_hour tz d, dt_minute tz d, dt_second tz d]"

lemma dt_fields_mktime:
  assumes "civil u"
  shows "dt_fields tz (Datetime (mktime tz u)) =
    [tm_year u + 1900, tm_mon u + 1, tm_mday u, tm_hour u, tm_min u, tm_sec u]"
  using clock_fields [OF localtime_mktime [OF assms, of tz]]
  by (simp add: dt_fields_def dt_year_def dt_month_def dt_day_def dt_hour_def dt_minute_def dt_second_def)

lemmas dt_getters = dt_year_def dt_month_def dt_day_def dt_hour_def dt_minute_def dt_second_def
lemmas dt_setters = dt_set_year_def dt_set_month_def dt_set_day_def dt_set_hour_def dt_set_minute_def
  dt_set_second_def

lemma localtime_civil: "civil (localtime tz t)"
  by (simp add: localtime_def gmtime_civil)

subsection \<open>Properties\<close>


lemma gmtime_0:
  "gmtime 0 = \<lparr>tm_sec = 0, tm_min = 0, tm_hour = 0, tm_mday = 1, tm_mon = 0, tm_year = 70, tm_wday = 4, tm_yday = 0\<rparr>"
proof -
  have "year_of 719162 1970 = 1970" by (rule year_of_eq) (simp_all add: year_start_def)
  moreover have "year_start 1970 = 719162" by (simp add: year_start_def)
  moreover have "\<not> leap 1970" by (simp add: leap_def)
  moreover have "month_of False 0 = 0" by (simp add: month_of_def upt_12 month_start_def month_starts_def)
  moreover have "month_start False 0 = 0" by (simp add: month_start_def month_starts_def)
  ultimately show ?thesis by (simp add: gmtime_def epoch_def)
qed

lemma epoch_fields: "dt_fields 0 (Datetime 0) = [1970, 1, 1, 0, 0, 0]"
  by (simp add: dt_fields_def dt_getters localtime_def gmtime_0)


text \<open>The names and numbers that \<open>strftime\<close> prints are read back by \<open>strptime\<close>.\<close>

lemma less_7_cases: "i < 7 \<Longrightarrow> i \<in> {0, 1, 2, 3, 4, 5, 6 :: nat}"
  by (simp, presburger)

lemma to_lower_letters:
  "map to_lower ''ADFJMNOSTW'' = ''adfjmnostw''"
  "map to_lower ''abcdefghijklmnopqrstuvwxyz, '' = ''abcdefghijklmnopqrstuvwxyz, ''"
  by (code_simp, code_simp)

lemmas to_lower_literals = to_lower_letters [unfolded list.map list.inject simp_thms]

lemma find_string_day:
  assumes "i < 7"
  shows "find_string (abday ! i @ CHR '','' # r) d day abday = (Some (CHR '','' # r), int i)"
  using less_7_cases [OF assms]
  by (elim insertE emptyE)
     (simp_all add: find_string_def name_tables strncasecmp_eq_def to_lower_literals)

lemma find_string_mon:
  assumes "i < 12"
  shows "find_string (abmon ! i @ CHR '' '' # r) d mon abmon = (Some (CHR '' '' # r), int i)"
  using less_12_cases [OF assms]
  by (elim insertE emptyE)
     (simp_all add: find_string_def name_tables strncasecmp_eq_def to_lower_literals)

lemma dropWhile_names:
  "i < 12 \<Longrightarrow> dropWhile is_space (abmon ! i @ r) = abmon ! i @ r"
  "n < 10000 \<Longrightarrow> dropWhile is_space (pad4 n @ r) = pad4 n @ r"
  by (drule less_12_cases, elim insertE emptyE, simp_all add: abmon_def is_space_def)
     (simp add: pad4_def pad2_def)

lemma dec_digits_pad4:
  assumes "1000 \<le> n" "n \<le> 9999"
  shows "dec_digits n = pad4 n"
proof -
  have "n div 10 div 10 div 10 < 10" "\<not> n div 10 div 10 < 10" "\<not> n div 10 < 10" "\<not> n < 10"
    using assms by auto
  moreover have "n div 100 mod 10 = n div 10 div 10 mod 10" "n mod 100 div 10 = n div 10 mod 10"
    "n div 100 div 10 = n div 10 div 10 div 10"
    by (simp_all flip: div_mult2_eq add: mod_mult2_eq [of n 10 10, simplified] div_mult2_eq)
  ultimately show ?thesis by (simp add: dec_digits.simps pad4_def pad2_def mod_mod_cancel)
qed

definition gmt_text :: "tm \<Rightarrow> string" where
  "gmt_text u = abday ! nat (tm_wday u) @ '', '' @ pad2 (nat (tm_mday u)) @ '' '' @ abmon ! nat (tm_mon u) @ '' '' @
     pad4 (nat (tm_year u + 1900)) @ '' '' @ pad2 (nat (tm_hour u)) @ '':'' @ pad2 (nat (tm_min u)) @ '':'' @
     pad2 (nat (tm_sec u)) @ '' GMT''"

lemma month_length_le: "m < 12 \<Longrightarrow> month_length lp m \<le> 31"
  by (drule less_12_cases, elim insertE emptyE) (simp_all add: month_defs)

lemma civil_nat:
  assumes "civil u"
  shows "nat (tm_mon u) < 12" "1 \<le> nat (tm_mday u)" "nat (tm_mday u) \<le> 31" "nat (tm_hour u) \<le> 23"
    "nat (tm_min u) \<le> 59" "nat (tm_sec u) \<le> 59"
proof -
  have "nat (tm_mon u) < 12" using assms by (auto simp: civil_def)
  then have "month_length (leap (tm_year u + 1900)) (nat (tm_mon u)) \<le> 31" by (rule month_length_le)
  then show "nat (tm_mon u) < 12" "1 \<le> nat (tm_mday u)" "nat (tm_mday u) \<le> 31" "nat (tm_hour u) \<le> 23"
    "nat (tm_min u) \<le> 59" "nat (tm_sec u) \<le> 59"
    using assms by (auto simp: civil_def)
qed

lemma pad2_chars: "n < 100 \<Longrightarrow> list_all is_digit (pad2 n)"
  by (simp add: pad2_def)

lemma pad4_chars: "n < 10000 \<Longrightarrow> list_all is_digit (pad4 n)"
  by (simp add: pad4_def pad2_def)

lemma names_chars: "i < 7 \<Longrightarrow> list_all (\<lambda>c. c \<noteq> CHR 0x00) (abday ! i) \<and> length (abday ! i) = 3"
  "j < 12 \<Longrightarrow> list_all (\<lambda>c. c \<noteq> CHR 0x00) (abmon ! j) \<and> length (abmon ! j) = 3"
  by (drule less_7_cases, elim insertE emptyE, simp_all add: abday_def)
     (drule less_12_cases, elim insertE emptyE, simp_all add: abmon_def)

lemma digits_no_nul: "list_all is_digit s \<Longrightarrow> list_all (\<lambda>c. c \<noteq> CHR 0x00) s"
  by (induction s) (auto simp: is_digit_def)

lemma gmt_text_buffer:
  assumes "civil u" "0 \<le> tm_wday u" "tm_wday u < 7" "1000 \<le> tm_year u + 1900" "tm_year u + 1900 \<le> 9999"
  shows "to_buffer (gmt_text u) = Some (gmt_text u)"
proof -
  note c = civil_nat [OF assms(1)]
  have w: "nat (tm_wday u) < 7" and y: "nat (tm_year u + 1900) < 10000" using assms by auto
  have "list_all (\<lambda>c. c \<noteq> CHR 0x00) (gmt_text u)"
    using c w y by (simp add: gmt_text_def digits_no_nul pad2_chars pad4_chars names_chars)
  then have "c_str (gmt_text u) = gmt_text u"
    by (intro c_str_id) (auto simp: list_all_iff)
  moreover have "length (gmt_text u) < 128"
    using c(1) w by (simp add: gmt_text_def names_chars pad2_def pad4_def)
  ultimately show ?thesis by (simp add: to_buffer_def)
qed

lemma strftime_gmt:
  assumes "1000 \<le> tm_year u + 1900" "tm_year u + 1900 \<le> 9999"
  shows "strftime ''GMT'' ''%a, %d %b %Y %H:%M:%S GMT'' u = gmt_text u"
  using assms by (simp add: strftime_conv_def gmt_text_def print_int_def dec_digits_pad4)

lemma strptime_gmt:
  assumes "civil u" "0 \<le> tm_wday u" "tm_wday u < 7" "1000 \<le> tm_year u + 1900" "tm_year u + 1900 \<le> 9999"
  shows "clock (snd (strptime (gmt_text u) DEFAULT_DATETIME_FORMAT g)) = clock u"
proof -
  note c = civil_nat [OF assms(1)]
  have w: "nat (tm_wday u) < 7" "nat (tm_year u + 1900) < 10000" "nat (tm_year u + 1900) \<le> 9999"
    using assms by auto
  have z: "snd (strptime_loop bp ''%Z'' sy t) = t" for bp sy t
    by (simp add: strptime_loop_conv complex_fmt_def conv_def)
  have "0 \<le> tm_mon u" "0 \<le> tm_mday u" "0 \<le> tm_hour u" "0 \<le> tm_min u" "0 \<le> tm_sec u"
    using assms(1) by (simp_all add: civil_def)
  with c w assms show ?thesis
    by (simp add: strptime_def gmt_text_def DEFAULT_DATETIME_FORMAT_def strptime_loop_conv strptime_loop_step
        strptime_loop_space complex_fmt_def conv_def check_alt_def legal_alt_def conv_num_pad2 conv_num_pad4
        dropWhile_pad2 dropWhile_names find_string_day find_string_mon z TM_YEAR_BASE_def is_space_def clock_def)
qed

lemma timegm_clock: "clock t = clock u \<Longrightarrow> timegm t = timegm u"
  by (simp add: timegm_def clock_def)

lemma gmtime_wday: "0 \<le> tm_wday (gmtime t) \<and> tm_wday (gmtime t) < 7"
  by (simp add: gmtime_def Let_def)

lemma as_gmt_parse:
  assumes "1000 \<le> dt_year 0 d" "dt_year 0 d \<le> 9999"
  shows "dt_as_gmt d = Some (gmt_text (gmtime (dt_t d)))"
    and "datetime_parse garbage tz (gmt_text (gmtime (dt_t d))) DEFAULT_DATETIME_FORMAT = Datetime (dt_t d - tz)"
proof -
  let ?u = "gmtime (dt_t d)"
  have y: "1000 \<le> tm_year ?u + 1900" "tm_year ?u + 1900 \<le> 9999"
    using assms by (simp_all add: dt_year_def localtime_def)
  have buf: "to_buffer (gmt_text ?u) = Some (gmt_text ?u)"
    using gmt_text_buffer [OF gmtime_civil _ _ y] gmtime_wday by blast
  then show "dt_as_gmt d = Some (gmt_text ?u)" unfolding dt_as_gmt_def strftime_gmt [OF y] .
  have "c_str (gmt_text ?u) = gmt_text ?u" using buf by (simp add: to_buffer_def split: if_splits)
  moreover have "c_str DEFAULT_DATETIME_FORMAT = DEFAULT_DATETIME_FORMAT"
    by (rule c_str_id) (simp add: DEFAULT_DATETIME_FORMAT_def)
  moreover have "clock (snd (strptime (gmt_text ?u) DEFAULT_DATETIME_FORMAT garbage)) = clock ?u"
    using strptime_gmt [OF gmtime_civil _ _ y] gmtime_wday by blast
  ultimately show "datetime_parse garbage tz (gmt_text ?u) DEFAULT_DATETIME_FORMAT = Datetime (dt_t d - tz)"
    by (simp add: datetime_parse_def mktime_def timegm_clock timegm_gmtime)
qed

text \<open>The text starts with a letter, ends with the \<open>T\<close> of \<open>GMT\<close> and has no semicolon.\<close>

lemma gmt_text_chars:
  assumes "1000 \<le> dt_year 0 d" "dt_year 0 d \<le> 9999"
  shows "CHR '';'' \<notin> set (gmt_text (gmtime (dt_t d)))"
    "is_upper (hd (gmt_text (gmtime (dt_t d))))" "last (gmt_text (gmtime (dt_t d))) = CHR ''T''"
proof -
  let ?u = "gmtime (dt_t d)"
  note c = civil_nat [OF gmtime_civil [of "dt_t d"]]
  have w: "nat (tm_wday ?u) < 7" using gmtime_wday [of "dt_t d"] by auto
  have y: "nat (tm_year ?u + 1900) < 10000" using assms by (auto simp: dt_year_def localtime_def)
  have dig: "list_all is_digit s \<Longrightarrow> CHR '';'' \<notin> set s" for s by (induction s) (auto simp: is_digit_def)
  have day: "is_upper (hd (abday ! nat (tm_wday ?u))) \<and> CHR '';'' \<notin> set (abday ! nat (tm_wday ?u)) \<and>
      abday ! nat (tm_wday ?u) \<noteq> []"
    using less_7_cases [OF w] by (elim insertE emptyE) (simp_all add: abday_def is_upper_def)
  have mon: "CHR '';'' \<notin> set (abmon ! nat (tm_mon ?u))"
    using less_12_cases [OF c(1)] by (elim insertE emptyE) (simp_all add: abmon_def)
  show "CHR '';'' \<notin> set (gmt_text ?u)"
    using day mon c y by (simp add: gmt_text_def dig pad2_chars pad4_chars)
  show "is_upper (hd (gmt_text ?u))" using day by (simp add: gmt_text_def)
  show "last (gmt_text ?u) = CHR ''T''" by (simp add: gmt_text_def)
qed

text \<open>the text that \<open>as_gmt\<close> makes of a moment between the years 1000 and 9999 fits its buffer, and the parsing
  constructor reads all its fields, whatever the uninitialised \<open>struct tm\<close> held and although \<open>strptime\<close> fails
  at \<open>%Z\<close>.  But the zone in the text is ignored and the fields are taken for local time: the result is off by the
  offset of local time, and equal to the original only in Greenwich.\<close>

theorem gmt_text_parsed_as_local_time:
  assumes "1000 \<le> dt_year 0 d" "dt_year 0 d \<le> 9999"
  shows "\<exists>s. dt_as_gmt d = Some s \<and>
    datetime_parse garbage tz s DEFAULT_DATETIME_FORMAT = Datetime (dt_t d - tz)"
  using as_gmt_parse [OF assms] by blast

theorem gmt_text_parsed_as_local_time_witness:
  "\<exists>s. dt_as_gmt (Datetime 0) = Some s \<and>
     datetime_parse (gmtime 0) 3600 s DEFAULT_DATETIME_FORMAT = Datetime (- 3600)"
  using gmt_text_parsed_as_local_time [of "Datetime 0" "gmtime 0" 3600]
  by (simp add: dt_year_def localtime_def gmtime_0)

end
