(* ===== verification/Http_Types.thy ===== *)
theory Http_Types
  imports Prelude Codec
begin

text \<open>
  The enumerations of \<open>include/dcl/http_header.h\<close> and their tables in \<open>src/dcl/http_header.cpp\<close>: status codes
  with their reason phrases, and request methods with their names.  The enumerators keep their names,
  prefixed with \<open>error_\<close> and \<open>method_\<close>.
\<close>

datatype http_error =
    error_continue | error_switching_protocols | error_ok | error_created | error_accepted
  | error_non_authoritative_information | error_no_content | error_reset_content
  | error_partial_content | error_multiple_choices | error_moved_permanently | error_found
  | error_see_other | error_not_modified | error_use_proxy | error_temporary_redirect
  | error_bad_request | error_unauthorized | error_payment_required | error_forbidden
  | error_not_found | error_method_not_allowed | error_not_acceptable
  | error_proxy_authentication_required | error_request_timeout | error_conflict | error_gone
  | error_length_required | error_precondition_failed | error_request_entity_too_large
  | error_request_uri_too_long | error_unsupported_media_type
  | error_requested_range_not_satisfiable | error_expectation_failed | error_internal_server_error
  | error_not_implemented | error_bad_gateway | error_service_unavailable | error_gateway_timeout
  | error_http_version_not_supported

definition http_error_table :: "(http_error \<times> int \<times> string) list" where
  "http_error_table =
    [(error_continue, 100, ''Continue''),
     (error_switching_protocols, 101, ''Switching Protocols''), (error_ok, 200, ''OK''),
     (error_created, 201, ''Created''), (error_accepted, 202, ''Accepted''),
     (error_non_authoritative_information, 203, ''Non Authoritative Information''),
     (error_no_content, 204, ''No Content''), (error_reset_content, 205, ''Reset Content''),
     (error_partial_content, 206, ''Partial Content''),
     (error_multiple_choices, 300, ''Multiple Choices''),
     (error_moved_permanently, 301, ''Moved Permanently''), (error_found, 302, ''Found''),
     (error_see_other, 303, ''See Other''), (error_not_modified, 304, ''Not Modified''),
     (error_use_proxy, 305, ''Use Proxy''),
     (error_temporary_redirect, 307, ''Temporary Redirect''),
     (error_bad_request, 400, ''Bad Request''), (error_unauthorized, 401, ''Unauthorized''),
     (error_payment_required, 402, ''Payment Required''), (error_forbidden, 403, ''Forbidden''),
     (error_not_found, 404, ''Not Found''),
     (error_method_not_allowed, 405, ''Method Not Allowed''),
     (error_not_acceptable, 406, ''Not Acceptable''),
     (error_proxy_authentication_required, 407, ''Proxy Authentication Required''),
     (error_request_timeout, 408, ''Request Timeout''), (error_conflict, 409, ''Conflict''),
     (error_gone, 410, ''Gone''), (error_length_required, 411, ''Length Required''),
     (error_precondition_failed, 412, ''Precondition Failed''),
     (error_request_entity_too_large, 413, ''Request Entity Too Large''),
     (error_request_uri_too_long, 414, ''Request-URI Too Long''),
     (error_unsupported_media_type, 415, ''Unsupported Media Type''),
     (error_requested_range_not_satisfiable, 416, ''Requested Range Not Satisfiable''),
     (error_expectation_failed, 417, ''Expectation Failed''),
     (error_internal_server_error, 500, ''Internal Server Error''),
     (error_not_implemented, 501, ''Not Implemented''), (error_bad_gateway, 502, ''Bad Gateway''),
     (error_service_unavailable, 503, ''Service Unavailable''),
     (error_gateway_timeout, 504, ''Gateway Timeout''),
     (error_http_version_not_supported, 505, ''HTTP Version Not Supported'')]"

text \<open>The value of the enumerator, and \<open>http_error::convert\<close>.\<close>

definition http_error_code :: "http_error \<Rightarrow> int" where
  "http_error_code e = fst (the (map_of http_error_table e))"

definition http_error_convert :: "http_error \<Rightarrow> string" where
  "http_error_convert e = snd (the (map_of http_error_table e))"

datatype http_method =
    method_get | method_put | method_post | method_del | method_connect | method_options
  | method_trace | method_patch | method_propfind | method_proppatch | method_mkcol | method_copy
  | method_move | method_lock | method_unlock | method_version_control | method_checkout
  | method_uncheckout | method_checkin | method_update | method_label | method_report
  | method_mkworkspace | method_mkactivity | method_baseline_control | method_merge
  | method_unknown | method_head

definition http_method_table :: "(http_method \<times> string) list" where
  "http_method_table =
    [(method_get, ''GET''), (method_put, ''PUT''), (method_post, ''POST''),
     (method_del, ''DELETE''), (method_connect, ''CONNECT''), (method_options, ''OPTIONS''),
     (method_trace, ''TRACE''), (method_patch, ''PATCH''), (method_propfind, ''PROPFIND''),
     (method_proppatch, ''PROPPATCH''), (method_mkcol, ''MKCOL''), (method_copy, ''COPY''),
     (method_move, ''MOVE''), (method_lock, ''LOCK''), (method_unlock, ''UNLOCK''),
     (method_version_control, ''VERSION_CONTROL''), (method_checkout, ''CHECKOUT''),
     (method_uncheckout, ''UNCHECKOUT''), (method_checkin, ''CHECKIN''),
     (method_update, ''UPDATE''), (method_label, ''LABEL''), (method_report, ''REPORT''),
     (method_mkworkspace, ''MKWORKSPACE''), (method_mkactivity, ''MKACTIVITY''),
     (method_baseline_control, ''BASELINE_CONTROL''), (method_merge, ''MERGE''),
     (method_head, ''HEAD'')]"

text \<open>The two conversions of \<open>http_method::convert\<close>; both of its tables hold the same pairs.\<close>

definition http_method_of_string :: "string \<Rightarrow> http_method" where
  "http_method_of_string value =
     (case map_of (map prod.swap http_method_table) value of
        Some m \<Rightarrow> m
      | None \<Rightarrow> method_unknown)"

definition http_method_to_string :: "http_method \<Rightarrow> string" where
  "http_method_to_string value =
     (if value = method_unknown then [] else the (map_of http_method_table value))"

lemma http_method_of_to: "http_method_of_string (http_method_to_string m) = m"
  by (cases m) (simp_all add: http_method_of_string_def http_method_to_string_def http_method_table_def)

interpretation method_names: total_codec http_method_to_string http_method_of_string
  by unfold_locales (rule http_method_of_to)

lemma http_method_to_of:
  "http_method_of_string s \<noteq> method_unknown \<Longrightarrow> http_method_to_string (http_method_of_string s) = s"
proof -
  assume "http_method_of_string s \<noteq> method_unknown"
  then obtain m where m: "map_of (map prod.swap http_method_table) s = Some m"
    "http_method_of_string s = m" "m \<noteq> method_unknown"
    by (auto simp: http_method_of_string_def split: option.splits)
  then have mem: "(m, s) \<in> set http_method_table" by (auto dest: map_of_SomeD)
  have "distinct (map fst http_method_table)" by (simp add: http_method_table_def)
  then have "map_of http_method_table m = Some s" using mem by (rule map_of_is_SomeI)
  then show ?thesis using m by (simp add: http_method_to_string_def)
qed

lemma http_error_keys:
  "map fst http_error_table =
    [error_continue, error_switching_protocols, error_ok, error_created, error_accepted,
     error_non_authoritative_information, error_no_content, error_reset_content, error_partial_content,
     error_multiple_choices, error_moved_permanently, error_found, error_see_other, error_not_modified,
     error_use_proxy, error_temporary_redirect, error_bad_request, error_unauthorized, error_payment_required,
     error_forbidden, error_not_found, error_method_not_allowed, error_not_acceptable,
     error_proxy_authentication_required, error_request_timeout, error_conflict, error_gone,
     error_length_required, error_precondition_failed, error_request_entity_too_large,
     error_request_uri_too_long, error_unsupported_media_type, error_requested_range_not_satisfiable,
     error_expectation_failed, error_internal_server_error, error_not_implemented, error_bad_gateway,
     error_service_unavailable, error_gateway_timeout, error_http_version_not_supported]"
  by (simp add: http_error_table_def)

lemma http_error_table_total: "\<exists>c p. map_of http_error_table e = Some (c, p)"
proof -
  have "e \<in> set (map fst http_error_table)" unfolding http_error_keys by (cases e) simp_all
  then show ?thesis by (cases "map_of http_error_table e") (auto simp: map_of_eq_None_iff)
qed

lemma http_error_code_range: "100 \<le> http_error_code e \<and> http_error_code e \<le> 505"
proof -
  have "list_all (\<lambda>(_, c, _). 100 \<le> c \<and> c \<le> 505) http_error_table" by (simp add: http_error_table_def)
  moreover obtain c p where "map_of http_error_table e = Some (c, p)" using http_error_table_total by blast
  ultimately show ?thesis by (auto simp: http_error_code_def list_all_iff dest!: map_of_SomeD)
qed

lemma http_error_columns:
  "distinct (map (fst \<circ> snd) http_error_table)" "distinct (map (snd \<circ> snd) http_error_table)"
  by (simp_all add: http_error_table_def)

lemma distinct_column:
  assumes "distinct (map (f \<circ> snd) t)" "map_of t a = Some x" "map_of t b = Some y" "f x = f y"
  shows "a = b"
proof -
  from assms(2,3) have "(a, x) \<in> set t" "(b, y) \<in> set t" by (auto dest: map_of_SomeD)
  moreover have "inj_on (f \<circ> snd) (set t)" using assms(1) by (simp add: distinct_map)
  ultimately show ?thesis using assms(4) inj_onD [of "f \<circ> snd" "set t" "(a, x)" "(b, y)"] by simp
qed

lemma http_error_code_inj: "inj http_error_code"
proof (rule injI)
  fix a b assume eq: "http_error_code a = http_error_code b"
  obtain x y where "map_of http_error_table a = Some x" "map_of http_error_table b = Some y"
    using http_error_table_total by blast
  with eq show "a = b" using distinct_column [OF http_error_columns(1)] by (simp add: http_error_code_def)
qed

end
