(* ===== verification/Http_Header.thy ===== *)
theory Http_Header
  imports Http_Types Strutils Datetime Ordered_Map Streams
begin

text \<open>
  \<open>include/dcl/http_header.h\<close>, \<open>src/dcl/http_header.cpp\<close>: the header map with its case-insensitive order,
  cookies, the content buffer, requests and responses, and how they are written to a stream.

  \<open>env\<close> holds what the code takes from outside: the offset of local time, the contents of an uninitialised
  \<open>struct tm\<close>, and of the member \<open>partitioned\<close>, which no constructor of \<open>http_cookie\<close> initialises.
  The content buffer is the vector with its terminating NUL.  The counter \<open>overrun\<close> is no field of the
  class: it counts the writes past the end of that vector.
\<close>

record env =
  env_tz :: int
  env_tm :: tm
  env_bool :: bool

definition CRLF :: string where
  "CRLF = [CHR 0x0D, CHR 0x0A]"

subsection \<open>Cookies\<close>

record http_cookie =
  ck_secure :: bool
  ck_http_only :: bool
  ck_partitioned :: bool
  ck_name :: string
  ck_value :: string
  ck_domain :: string
  ck_expires :: datetime
  ck_path :: string
  ck_same_site :: string

definition cookie_new :: "env \<Rightarrow> http_cookie" where
  "cookie_new e = \<lparr>ck_secure = False, ck_http_only = False, ck_partitioned = env_bool e, ck_name = [],
     ck_value = [], ck_domain = [], ck_expires = datetime_new, ck_path = [], ck_same_site = []\<rparr>"

definition cookie_pair :: "env \<Rightarrow> string \<Rightarrow> string \<Rightarrow> http_cookie" where
  "cookie_pair e name value = (cookie_new e)\<lparr>ck_name := name, ck_value := value\<rparr>"

text \<open>The body of the loop of the parsing constructor.\<close>

definition cookie_attr :: "env \<Rightarrow> string \<Rightarrow> string \<Rightarrow> http_cookie \<Rightarrow> http_cookie" where
  "cookie_attr e p v c =
     (if p = ''expires'' then c\<lparr>ck_expires := datetime_parse (env_tm e) (env_tz e) v DEFAULT_DATETIME_FORMAT\<rparr>
      else if p = ''domain'' then c\<lparr>ck_domain := v\<rparr>
      else if p = ''path'' then c\<lparr>ck_path := v\<rparr>
      else if p = ''samesite'' then c\<lparr>ck_same_site := v\<rparr>
      else if p = ''secure'' then c\<lparr>ck_secure := True\<rparr>
      else if p = ''HttpOnly'' then c\<lparr>ck_http_only := True\<rparr>
      else c\<lparr>ck_name := p, ck_value := v\<rparr>)"

definition cookie_field :: "env \<Rightarrow> string \<Rightarrow> http_cookie \<Rightarrow> http_cookie" where
  "cookie_field e i c =
     (let (p, v) = tokenize_pair ''='' False i ([], []) in cookie_attr e (trim p) (trim v) c)"

definition cookie_parse :: "env \<Rightarrow> string \<Rightarrow> http_cookie" where
  "cookie_parse e cookie = fold (cookie_field e) (tokenize '';'' cookie) (cookie_new e)"

text \<open>\<^const>\<open>None\<close> where \<open>as_gmt\<close> reads an indeterminate buffer.\<close>

definition cookie_str :: "http_cookie \<Rightarrow> string option" where
  "cookie_str c =
     (if ck_name c = [] then Some []
      else case (if dt_empty (ck_expires c) then Some []
                 else map_option (\<lambda>s. ''; expires='' @ s) (dt_as_gmt (ck_expires c))) of
        None \<Rightarrow> None
      | Some expires \<Rightarrow>
          Some (ck_name c @ ''='' @ ck_value c @ expires @
            (if ck_domain c = [] then [] else ''; domain='' @ ck_domain c) @
            (if ck_path c = [] then [] else ''; path='' @ ck_path c) @
            (if ck_same_site c = [] then [] else ''; SameSite='' @ ck_same_site c) @
            (if ck_secure c then ''; secure'' else []) @
            (if ck_http_only c then ''; HttpOnly'' else []) @
            (if ck_partitioned c then ''; Partitioned'' else [])))"

subsection \<open>Headers\<close>

definition nocase_compare :: "char \<Rightarrow> char \<Rightarrow> bool" where
  "nocase_compare c1 c2 = ((of_char (to_lower c1) :: nat) < of_char (to_lower c2))"

fun ci_less :: "string \<Rightarrow> string \<Rightarrow> bool" where
  "ci_less [] [] = False"
| "ci_less [] (b # t) = True"
| "ci_less (a # s) [] = False"
| "ci_less (a # s) (b # t) =
     (if nocase_compare a b then True else if nocase_compare b a then False else ci_less s t)"

record http_header =
  headers :: "(string, string) omap"
  cookies :: "http_cookie list"
  content :: string
  http_version :: string
  overrun :: nat

definition header_init :: http_header where
  "header_init = \<lparr>headers = [], cookies = [], content = [], http_version = ''1.1'', overrun = 0\<rparr>"

definition header_put :: "string \<Rightarrow> string \<Rightarrow> 'a http_header_scheme \<Rightarrow> 'a http_header_scheme" where
  "header_put key value h = h\<lparr>headers := map_assign ci_less key value (headers h)\<rparr>"

definition add_cookie :: "http_cookie \<Rightarrow> 'a http_header_scheme \<Rightarrow> 'a http_header_scheme" where
  "add_cookie c h = h\<lparr>cookies := cookies h @ [c]\<rparr>"

definition set_cookie :: "http_cookie \<Rightarrow> 'a http_header_scheme \<Rightarrow> 'a http_header_scheme" where
  "set_cookie c h = h\<lparr>cookies := [c]\<rparr>"

definition set_cookies :: "http_cookie list \<Rightarrow> 'a http_header_scheme \<Rightarrow> 'a http_header_scheme" where
  "set_cookies cs h = h\<lparr>cookies := cs\<rparr>"

definition set_header :: "env \<Rightarrow> string \<Rightarrow> string \<Rightarrow> 'a http_header_scheme \<Rightarrow> 'a http_header_scheme" where
  "set_header e key value h =
     (if compare key ''Cookie'' then
        fold (\<lambda>i. add_cookie (cookie_parse e i)) (tokenize '';'' value) h
      else if compare key ''Set-Cookie'' then add_cookie (cookie_parse e value) h
      else header_put key value h)"

definition set_header_line :: "env \<Rightarrow> string \<Rightarrow> 'a http_header_scheme \<Rightarrow> 'a http_header_scheme" where
  "set_header_line e header h =
     (case find_char (CHR '':'') header of
        None \<Rightarrow> h
      | Some pos \<Rightarrow> set_header e (trim (take pos header)) (trim (drop (pos + 1) header)) h)"

definition get_header :: "string \<Rightarrow> 'a http_header_scheme \<Rightarrow> string" where
  "get_header key h = (case map_find ci_less key (headers h) of None \<Rightarrow> [] | Some v \<Rightarrow> v)"

definition get_content_type :: "'a http_header_scheme \<Rightarrow> string" where
  "get_content_type h =
     (case map_find ci_less ''Content-Type'' (headers h) of None \<Rightarrow> ''text/plain'' | Some v \<Rightarrow> v)"

definition set_content_type :: "string \<Rightarrow> 'a http_header_scheme \<Rightarrow> 'a http_header_scheme" where
  "set_content_type value h = header_put ''Content-Type'' value h"

subsection \<open>Content\<close>

definition get_content_size :: "'a http_header_scheme \<Rightarrow> nat" where
  "get_content_size h = (if content h = [] then 0 else length (content h) - 1)"

definition set_content_n :: "int \<Rightarrow> string \<Rightarrow> 'a http_header_scheme \<Rightarrow> 'a http_header_scheme" where
  "set_content_n value_size value h =
     (let c = (if value_size > 0 then take (nat value_size) value @ content h else content h)
      in header_put ''Content-Length'' (to_string_int value_size) (h\<lparr>content := c @ [CHR 0x00]\<rparr>))"

definition set_content :: "string \<Rightarrow> 'a http_header_scheme \<Rightarrow> 'a http_header_scheme" where
  "set_content value h = set_content_n (to_int32 (int (length value))) value h"

text \<open>\<open>value.read (&content[oldsize - 1], value_size)\<close> overwrites the old NUL and the fresh zeros behind it with
  what the stream holds; the NUL is then written one element past the resized vector.\<close>

definition add_content_n ::
  "int \<Rightarrow> char istream \<Rightarrow> 'a http_header_scheme \<Rightarrow> char istream \<times> 'a http_header_scheme" where
  "add_content_n value_size value h =
     (let c = (if content h = [] then [CHR 0x00] else content h);
          oldsize = length c
      in if value_size > 0 then
           (let n = nat value_size;
                got = take n (ibuf value);
                grown = take (oldsize - 1) c @ got @
                  drop (oldsize - 1 + length got) (c @ replicate n (CHR 0x00))
            in (value\<lparr>ibuf := drop n (ibuf value), ieof := length (ibuf value) < n\<rparr>,
                header_put ''Content-Length'' (to_string_int (to_int32 (int oldsize + value_size - 1)))
                  (h\<lparr>content := grown, overrun := overrun h + 1\<rparr>)))
         else (value, header_put ''Content-Length'' ''0'' (h\<lparr>content := c\<rparr>)))"

definition add_content :: "char istream \<Rightarrow> 'a http_header_scheme \<Rightarrow> char istream \<times> 'a http_header_scheme" where
  "add_content value h =
     (if length (ibuf value) = 0 then (value\<lparr>ieof := True\<rparr>, h)
      else add_content_n (to_int32 (int (length (ibuf value)))) value h)"

subsection \<open>Requests and responses\<close>

record http_request = http_header +
  auth_type :: string
  gateway_interface :: string
  path_info :: string
  path_translated :: string
  query_string :: string
  remote_addr :: string
  remote_host :: string
  remote_ident :: string
  remote_user :: string
  script_name :: string
  server_name :: string
  server_port :: int
  server_protocol :: string
  req_method :: http_method
  server_software :: string
  https :: bool

text \<open>The constructor initialises the port and the flag; \<open>m\<close> is what the method happens to hold.\<close>

definition request_init :: "http_method \<Rightarrow> http_request" where
  "request_init m = http_header.extend header_init
     (http_request.fields [] [] [] [] [] [] [] [] [] [] [] 0 [] m [] False)"

definition request_method :: "http_request \<Rightarrow> string" where
  "request_method r = http_method_to_string (req_method r)"

definition set_method :: "string \<Rightarrow> http_request \<Rightarrow> http_request" where
  "set_method s r = r\<lparr>req_method := http_method_of_string s\<rparr>"

definition get_host :: "http_request \<Rightarrow> string" where
  "get_host r = get_header ''Host'' r"

definition set_host :: "string \<Rightarrow> http_request \<Rightarrow> http_request" where
  "set_host value r = header_put ''Host'' value r"

record http_response = http_header +
  status :: http_error

definition response_init :: http_response where
  "response_init = set_content_type ''text/plain; charset=utf-8''
     (http_header.extend header_init (http_response.fields error_ok))"

definition get_allow :: "http_response \<Rightarrow> http_method" where
  "get_allow r = (case map_find ci_less ''Allow'' (headers r) of
     None \<Rightarrow> method_unknown
   | Some v \<Rightarrow> http_method_of_string v)"

definition set_allow :: "http_method \<Rightarrow> http_response \<Rightarrow> http_response" where
  "set_allow m r = header_put ''Allow'' (http_method_to_string m) r"

definition get_status :: "http_response \<Rightarrow> string" where
  "get_status r = to_string_int (http_error_code (status r)) @ '' '' @ http_error_convert (status r)"

definition set_status :: "http_error \<Rightarrow> http_response \<Rightarrow> http_response" where
  "set_status code r = r\<lparr>status := code\<rparr>"

subsection \<open>Streams\<close>

text \<open>\<open>in >> s\<close> skips white space and reads one word.\<close>

definition read_word :: "string \<Rightarrow> string \<times> string" where
  "read_word s = (let r = dropWhile is_space s
     in (takeWhile (\<lambda>c. \<not> is_space c) r, dropWhile (\<lambda>c. \<not> is_space c) r))"

definition header_read :: "env \<Rightarrow> string \<Rightarrow> 'a http_header_scheme \<Rightarrow> string \<times> 'a http_header_scheme" where
  "header_read e s h = (let (w, r) = read_word s in (r, set_header_line e w h))"

definition print_headers :: "(string, string) omap \<Rightarrow> string" where
  "print_headers m = concat (map (\<lambda>(k, v). k @ '': '' @ v @ CRLF) m)"

definition print_content :: "'a http_header_scheme \<Rightarrow> string" where
  "print_content h = CRLF @ (if get_content_size h > 0 then take (get_content_size h) (content h) else [])"

definition request_print :: "http_request \<Rightarrow> string" where
  "request_print h =
     (let s = join_with ''; '' (map (\<lambda>c. ck_name c @ ''='' @ ck_value c) (cookies h))
      in print_headers (headers h) @ (if s = [] then [] else ''Cookie: '' @ s @ CRLF) @ print_content h)"

fun print_set_cookies :: "http_cookie list \<Rightarrow> string option" where
  "print_set_cookies [] = Some []"
| "print_set_cookies (c # cs) =
     (case (cookie_str c, print_set_cookies cs) of
        (Some s, Some r) \<Rightarrow> Some (''Set-Cookie: '' @ s @ CRLF @ r)
      | _ \<Rightarrow> None)"

definition response_print :: "http_response \<Rightarrow> string option" where
  "response_print h =
     map_option (\<lambda>s. print_headers (headers h) @ s @ print_content h) (print_set_cookies (cookies h))"

subsection \<open>The order of the header map\<close>

lemma case_roundtrip: "to_lower (to_upper c) = to_lower c" "to_upper (to_lower c) = to_upper c"
  using all_chars_iff [of "\<lambda>c. to_lower (to_upper c) = to_lower c"]
    all_chars_iff [of "\<lambda>c. to_upper (to_lower c) = to_upper c"]
  by (auto simp: to_lower_def to_upper_def is_upper_def is_lower_def)

lemma map_lower_upper: "map to_lower s = map to_lower t \<longleftrightarrow> map to_upper s = map to_upper t"
proof
  assume "map to_lower s = map to_lower t"
  then have "map to_upper (map to_lower s) = map to_upper (map to_lower t)" by simp
  then show "map to_upper s = map to_upper t" by (simp add: case_roundtrip comp_def)
next
  assume "map to_upper s = map to_upper t"
  then have "map to_lower (map to_upper s) = map to_lower (map to_upper t)" by simp
  then show "map to_lower s = map to_lower t" by (simp add: case_roundtrip comp_def)
qed

lemma ci_less_lex: "ci_less = lex_less (\<lambda>c. of_char (to_lower c))"
proof (intro ext)
  show "ci_less s t = lex_less (\<lambda>c. of_char (to_lower c)) s t" for s t
    by (induction s t rule: ci_less.induct) (simp_all add: nocase_compare_def)
qed

lemma ci_equiv_iff: "key_equiv ci_less s t \<longleftrightarrow> compare s t"
proof -
  have "map (\<lambda>c. of_char (to_lower c) :: nat) s = map (\<lambda>c. of_char (to_lower c)) t \<longleftrightarrow>
      map to_lower s = map to_lower t"
    by (auto simp: list_eq_iff_nth_eq)
  then show ?thesis unfolding compare_iff map_lower_upper [symmetric] ci_less_lex lex_less_equiv .
qed

interpretation header_order: strict_weak_order ci_less
  unfolding ci_less_lex by (rule lex_less_order)

subsection \<open>The header map\<close>

definition header_ok :: "'a http_header_scheme \<Rightarrow> bool" where
  "header_ok h = map_ok ci_less (headers h)"

lemma header_put_ok [intro, simp]: "header_ok h \<Longrightarrow> header_ok (header_put k v h)"
  by (simp add: header_ok_def header_put_def header_order.map_ok_assign)

lemma header_ok_other [simp]:
  "header_ok (h\<lparr>cookies := c\<rparr>) = header_ok h" "header_ok (h\<lparr>content := s\<rparr>) = header_ok h"
  "header_ok (h\<lparr>overrun := n\<rparr>) = header_ok h"
  by (simp_all add: header_ok_def)

lemma add_cookies_fold [simp]:
  "fold (\<lambda>i. add_cookie (cookie_parse e i)) xs h = h\<lparr>cookies := cookies h @ map (cookie_parse e) xs\<rparr>"
  by (induction xs arbitrary: h) (simp_all add: add_cookie_def)

lemma set_header_ok: "header_ok h \<Longrightarrow> header_ok (set_header e k v h)"
  by (simp add: set_header_def add_cookie_def)

lemma set_header_line_ok: "header_ok h \<Longrightarrow> header_ok (set_header_line e s h)"
  by (simp add: set_header_line_def set_header_ok split: option.split)

lemma get_header_put:
  "header_ok h \<Longrightarrow> get_header k (header_put k' v h) = (if compare k k' then v else get_header k h)"
  using header_order.map_find_assign [of "headers h" k k' v]
  by (simp add: get_header_def header_put_def header_ok_def ci_equiv_iff)

text \<open>A header line with a clean key and value.\<close>

definition is_cookie_key :: "string \<Rightarrow> bool" where
  "is_cookie_key k = (compare k ''Cookie'' \<or> compare k ''Set-Cookie'')"

definition clean_pair :: "string \<times> string \<Rightarrow> bool" where
  "clean_pair kv = (CHR '':'' \<notin> set (fst kv) \<and> trim (fst kv) = fst kv \<and> trim (snd kv) = snd kv \<and>
     \<not> is_cookie_key (fst kv))"

lemma set_header_line_pair:
  assumes "clean_pair (k, v)"
  shows "set_header_line e (k @ '': '' @ v) h = header_put k v h"
proof -
  have "find_char (CHR '':'') (k @ '': '' @ v) = Some (length k)"
    using find_char_append_hit [of "CHR '':''" k "'' '' @ v"] assms by (simp add: clean_pair_def)
  then show ?thesis using assms
    by (simp add: set_header_line_def clean_pair_def trim_blank_left set_header_def is_cookie_key_def)
qed

subsection \<open>The content\<close>

definition body :: "'a http_header_scheme \<Rightarrow> string" where
  "body h = take (get_content_size h) (content h)"

lemma content_put [simp]:
  "content (header_put k v h) = content h" "overrun (header_put k v h) = overrun h"
  "cookies (header_put k v h) = cookies h"
  by (simp_all add: header_put_def)

lemma body_put [simp]: "body (header_put k v h) = body h" "get_content_size (header_put k v h) = get_content_size h"
  by (simp_all add: body_def get_content_size_def)

lemma int32_length: "length s < 2 ^ 31 \<Longrightarrow> to_int32 (int (length s)) = int (length s)"
  by (rule to_int32_id) (simp add: is_int32_def INT_MIN_def INT_MAX_def)

lemma set_content_ok: "header_ok h \<Longrightarrow> header_ok (set_content v h)"
  by (simp add: set_content_def set_content_n_def Let_def)

lemma header_init_ok [simp]: "header_ok header_init"
  by (simp add: header_ok_def header_init_def)

lemma compare_refl [simp]: "compare s s"
  by (simp add: compare_iff)

lemma add_content_n_body:
  assumes "0 < n" "n = length (ibuf st)" "header_ok h"
  shows "body (snd (add_content_n (int n) st h)) = body h @ ibuf st"
    and "content (snd (add_content_n (int n) st h)) = body h @ ibuf st @ [CHR 0x00]"
proof -
  let ?c = "if content h = [] then [CHR 0x00] else content h"
  have b: "take (length ?c - 1) ?c = body h" by (auto simp: body_def get_content_size_def)
  have d: "drop (length ?c - 1 + n) (?c @ replicate n (CHR 0x00)) = [CHR 0x00]"
  proof -
    have "length ?c - 1 + n = length ?c + (n - 1)" using assms(1) by (cases "content h") auto
    then show ?thesis using assms(1) by (simp only: drop_append) (simp add: drop_replicate)
  qed
  show c: "content (snd (add_content_n (int n) st h)) = body h @ ibuf st @ [CHR 0x00]"
    using assms(1,2) b d by (simp add: add_content_n_def Let_def)
  then show "body (snd (add_content_n (int n) st h)) = body h @ ibuf st"
    by (simp add: body_def get_content_size_def)
qed

subsection \<open>Cookies\<close>

definition field_ok :: "string \<Rightarrow> bool" where
  "field_ok s = (CHR '';'' \<notin> set s \<and> trim s = s)"

definition reserved :: "string list" where
  "reserved = [''expires'', ''domain'', ''path'', ''samesite'', ''secure'', ''HttpOnly'']"

definition cookie_ok :: "http_cookie \<Rightarrow> bool" where
  "cookie_ok c = (ck_name c \<noteq> [] \<and> CHR ''='' \<notin> set (ck_name c) \<and> ck_name c \<notin> set reserved \<and>
     field_ok (ck_name c) \<and> field_ok (ck_value c) \<and> field_ok (ck_domain c) \<and> field_ok (ck_path c) \<and>
     field_ok (ck_same_site c) \<and>
     (dt_empty (ck_expires c) \<or> (1000 \<le> dt_year 0 (ck_expires c) \<and> dt_year 0 (ck_expires c) \<le> 9999)))"

text \<open>The attributes of the printed form, in order, each with the blank that follows the semicolon.\<close>

definition opt_item :: "bool \<Rightarrow> string \<Rightarrow> string list" where
  "opt_item b s = (if b then [CHR '' '' # s] else [])"

definition cookie_items :: "string \<Rightarrow> http_cookie \<Rightarrow> string list" where
  "cookie_items gmt c =
     opt_item (\<not> dt_empty (ck_expires c)) (''expires='' @ gmt) @
     opt_item (ck_domain c \<noteq> []) (''domain='' @ ck_domain c) @
     opt_item (ck_path c \<noteq> []) (''path='' @ ck_path c) @
     opt_item (ck_same_site c \<noteq> []) (''SameSite='' @ ck_same_site c) @
     opt_item (ck_secure c) ''secure'' @
     opt_item (ck_http_only c) ''HttpOnly'' @
     opt_item (ck_partitioned c) ''Partitioned''"

lemma join_with_Cons: "join_with d (w # ws) = w @ concat (map (\<lambda>x. d @ x) ws)"
  by (induction ws arbitrary: w) auto

lemma cookie_str_items:
  assumes "ck_name c \<noteq> []" "\<not> dt_empty (ck_expires c) \<Longrightarrow> dt_as_gmt (ck_expires c) = Some gmt"
  shows "cookie_str c = Some (join_with '';'' ((ck_name c @ ''='' @ ck_value c) # cookie_items gmt c))"
  using assms by (simp add: cookie_str_def join_with_Cons cookie_items_def opt_item_def)

lemma cookie_field_attr:
  assumes "CHR ''='' \<notin> set k" "trim k = k" "k \<noteq> []" "trim v = v"
  shows "cookie_field e (trim (k @ ''='' @ v)) c = cookie_attr e k v c"
proof -
  have "tokenize_pair ''='' False (k @ ''='' @ v) ([], []) = (k, v)"
    using tokenize_pair_first [of "CHR ''=''" "''=''" k v] assms(1) by auto
  then show ?thesis by (simp only: cookie_field_def trim_attr [OF assms(2,3,4)]) (simp add: assms)
qed

lemma cookie_field_flag:
  assumes "CHR ''='' \<notin> set k" "trim k = k" "k \<noteq> []"
  shows "cookie_field e (trim k) c = cookie_attr e k [] c"
proof -
  have "\<forall>c \<in> set k. c \<notin> set ''=''" using assms(1) by auto
  then have "tokenize_pair ''='' False k ([], []) = (k, [])"
    using tokenize_pair_first_none [of k "''=''"] assms(3) by simp
  moreover have "trim [] = []" by (simp add: trim_strip strip_def)
  ultimately show ?thesis using assms(2) by (simp add: cookie_field_def)
qed

text \<open>What parsing the printed form gives: the name is that of the last attribute the parser does not know.\<close>

definition reparsed :: "env \<Rightarrow> http_cookie \<Rightarrow> http_cookie" where
  "reparsed e c =
     (let nv = (if ck_partitioned c then (''Partitioned'', [])
                else if ck_same_site c \<noteq> [] then (''SameSite'', ck_same_site c)
                else (ck_name c, ck_value c))
      in c\<lparr>ck_name := fst nv, ck_value := snd nv, ck_same_site := [], ck_partitioned := env_bool e,
           ck_expires := (if dt_empty (ck_expires c) then datetime_new
                          else Datetime (dt_t (ck_expires c) - env_tz e))\<rparr>)"

lemma trim_literals:
  "trim ''expires'' = ''expires''" "trim ''domain'' = ''domain''" "trim ''path'' = ''path''"
  "trim ''SameSite'' = ''SameSite''" "trim ''secure'' = ''secure''" "trim ''HttpOnly'' = ''HttpOnly''"
  "trim ''Partitioned'' = ''Partitioned''"
  by (rule trim_clean, simp add: default_delims_def)+

lemma attr_literals:
  "trim v = v \<Longrightarrow> cookie_field e (trim (''expires='' @ v)) c = cookie_attr e ''expires'' v c"
  "trim v = v \<Longrightarrow> cookie_field e (trim (''domain='' @ v)) c = cookie_attr e ''domain'' v c"
  "trim v = v \<Longrightarrow> cookie_field e (trim (''path='' @ v)) c = cookie_attr e ''path'' v c"
  "trim v = v \<Longrightarrow> cookie_field e (trim (''SameSite='' @ v)) c = cookie_attr e ''SameSite'' v c"
  "cookie_field e (trim ''secure'') c = cookie_attr e ''secure'' [] c"
  "cookie_field e (trim ''HttpOnly'') c = cookie_attr e ''HttpOnly'' [] c"
  "cookie_field e (trim ''Partitioned'') c = cookie_attr e ''Partitioned'' [] c"
  using cookie_field_attr [of "''expires''" v e c] cookie_field_attr [of "''domain''" v e c]
    cookie_field_attr [of "''path''" v e c] cookie_field_attr [of "''SameSite''" v e c]
    cookie_field_flag [of "''secure''" e c] cookie_field_flag [of "''HttpOnly''" e c]
    cookie_field_flag [of "''Partitioned''" e c]
  by (simp_all add: trim_literals)

lemma opt_item_fold:
  "fold f (map trim (opt_item b s)) c = (if b then f (trim s) c else c)"
  by (simp add: opt_item_def trim_blank_left)

lemma cookie_fold:
  assumes ok: "cookie_ok c"
    and gmt: "\<not> dt_empty (ck_expires c) \<Longrightarrow> trim gmt = gmt \<and>
      datetime_parse (env_tm e) (env_tz e) gmt DEFAULT_DATETIME_FORMAT = Datetime (dt_t (ck_expires c) - env_tz e)"
  shows "fold (cookie_field e) (map trim ((ck_name c @ ''='' @ ck_value c) # cookie_items gmt c)) (cookie_new e)
    = reparsed e c"
proof -
  have f: "trim (ck_name c) = ck_name c" "trim (ck_value c) = ck_value c" "trim (ck_domain c) = ck_domain c"
    "trim (ck_path c) = ck_path c" "trim (ck_same_site c) = ck_same_site c" "CHR ''='' \<notin> set (ck_name c)"
    "ck_name c \<noteq> []" "ck_name c \<notin> set reserved"
    using ok by (auto simp: cookie_ok_def field_ok_def)
  have nv: "cookie_field e (trim (ck_name c @ ''='' @ ck_value c)) (cookie_new e) =
      (cookie_new e)\<lparr>ck_name := ck_name c, ck_value := ck_value c\<rparr>"
    unfolding cookie_field_attr [OF f(6,1,7,2)] using f(8) by (simp add: cookie_attr_def reserved_def)
  show ?thesis
    unfolding cookie_items_def map_append fold_append comp_apply list.map fold.simps nv opt_item_fold
    using f gmt
    by (simp add: attr_literals del: append_Cons append_Nil)
       (auto simp: cookie_attr_def reparsed_def cookie_new_def datetime_new_def)
qed

lemma gmt_field:
  assumes "1000 \<le> dt_year 0 d" "dt_year 0 d \<le> 9999"
  shows "field_ok (gmt_text (gmtime (dt_t d)))"
proof -
  let ?g = "gmt_text (gmtime (dt_t d))"
  note g = gmt_text_chars [OF assms]
  have "?g \<noteq> []" by (simp add: gmt_text_def)
  moreover have "hd ?g \<notin> set default_delims" using g(2) by (auto simp: default_delims_def is_upper_def)
  moreover have "last ?g \<notin> set default_delims" using g(3) by (simp add: default_delims_def)
  ultimately show ?thesis using g(1) trim_ends by (simp add: field_ok_def)
qed

lemma cookie_items_no_semicolon:
  assumes "cookie_ok c" "\<not> dt_empty (ck_expires c) \<Longrightarrow> field_ok gmt"
  shows "\<forall>w \<in> set ((ck_name c @ ''='' @ ck_value c) # cookie_items gmt c). \<forall>x \<in> set w. x \<notin> set '';''"
  using assms by (auto simp: cookie_items_def opt_item_def cookie_ok_def field_ok_def)

subsection \<open>Properties\<close>

text \<open>C1: the header map is keyed without regard to case: after \<open>set_header\<close> of a key that is not a cookie
  header, exactly the keys that \<open>compare\<close> equal to it read the new value, and the map keeps its order.\<close>

theorem header_store:
  assumes "header_ok h" "\<not> compare key ''Cookie''" "\<not> compare key ''Set-Cookie''"
  shows "get_header k (set_header e key value h) = (if compare k key then value else get_header k h) \<and>
    header_ok (set_header e key value h)"
  using assms get_header_put [OF assms(1)] by (simp add: set_header_def)

theorem header_store_witness:
  "get_header ''content-type'' (set_header (env.make 0 (gmtime 0) False) ''Content-Type'' ''text/html'' header_init) = ''text/html''"
proof -
  have c: "compare ''content-type'' ''Content-Type''" "\<not> compare ''Content-Type'' ''Cookie''"
    "\<not> compare ''Content-Type'' ''Set-Cookie''"
    by code_simp+
  have "header_ok header_init" by (simp add: header_ok_def header_init_def)
  then show ?thesis using header_store [OF _ c(2,3), of header_init "''content-type''"] c(1) by simp
qed

lemma set_header_lines_fold:
  "list_all clean_pair m \<Longrightarrow>
     headers (fold (\<lambda>(k, v). set_header_line e (k @ '': '' @ v)) m g) =
       fold (\<lambda>(k, v). map_assign ci_less k v) m (headers g)"
proof (induction m arbitrary: g)
  case (Cons p m)
  then show ?case by (cases p) (simp add: set_header_line_pair [simplified] header_put_def)
qed simp



text \<open>C15: a well-formed cookie written by \<open>str\<close> and parsed again is the same cookie if it has neither \<open>SameSite\<close> nor
  \<open>Partitioned\<close>, up to its expiry, which is shifted by the offset of local time, and the
  uninitialised \<open>partitioned\<close>.  With one of the two attributes, whose printed names the parser does not know,
  the name and the value of the cookie are lost: the attribute takes their place.\<close>

theorem cookie_reparse:
  assumes "cookie_ok c"
  shows "\<exists>s. cookie_str c = Some s \<and> cookie_parse e s = reparsed e c"
proof -
  define gmt where "gmt = gmt_text (gmtime (dt_t (ck_expires c)))"
  have g: "dt_as_gmt (ck_expires c) = Some gmt" "field_ok gmt"
      "datetime_parse (env_tm e) (env_tz e) gmt DEFAULT_DATETIME_FORMAT = Datetime (dt_t (ck_expires c) - env_tz e)"
    if "\<not> dt_empty (ck_expires c)"
    using that assms as_gmt_parse [of "ck_expires c"] gmt_field [of "ck_expires c"]
    by (auto simp: gmt_def cookie_ok_def)
  let ?ws = "(ck_name c @ ''='' @ ck_value c) # cookie_items gmt c"
  have str: "cookie_str c = Some (join_with '';'' ?ws)"
    using assms g(1) by (intro cookie_str_items) (auto simp: cookie_ok_def)
  have "split_by (\<lambda>x. x \<in> set '';'') (join_with '';'' ?ws) = ?ws"
    using cookie_items_no_semicolon [OF assms g(2)] by (intro split_by_join) auto
  then have "tokenize '';'' (join_with '';'' ?ws) = map trim ?ws"
    using assms by (simp add: tokenize_split join_with_Cons cookie_ok_def)
  moreover have "fold (cookie_field e) (map trim ?ws) (cookie_new e) = reparsed e c"
    using assms g(2,3) by (intro cookie_fold) (auto simp: field_ok_def)
  ultimately have "cookie_parse e (join_with '';'' ?ws) = reparsed e c" by (simp only: cookie_parse_def)
  with str show ?thesis by blast
qed

theorem cookie_reparse_witness:
  "\<exists>s. cookie_str ((cookie_pair (env.make 0 (gmtime 0) False) ''id'' ''42'')\<lparr>ck_same_site := ''Lax''\<rparr>) = Some s \<and>
     ck_name (cookie_parse (env.make 0 (gmtime 0) False) s) = ''SameSite''"
proof -
  let ?e = "env.make 0 (gmtime 0) False"
  let ?c = "(cookie_pair ?e ''id'' ''42'')\<lparr>ck_same_site := ''Lax''\<rparr>"
  have t: "trim ''id'' = ''id''" "trim ''42'' = ''42''" "trim ''Lax'' = ''Lax''" "trim [] = []"
    by (rule trim_clean, simp add: default_delims_def)+
  have "cookie_ok ?c"
    by (simp add: cookie_ok_def cookie_pair_def cookie_new_def field_ok_def t reserved_def dt_empty_def datetime_new_def)
  moreover have "ck_name (reparsed ?e ?c) = ''SameSite''"
    by (simp add: reparsed_def cookie_pair_def cookie_new_def env.defs)
  ultimately show ?thesis using cookie_reparse [of ?c ?e] by auto
qed

text \<open>\<open>add_content\<close> appends the whole stream to the body, sets \<open>Content-Length\<close> to the size of the body and
  keeps the terminating NUL, but it also writes one element past the end of the buffer.\<close>

theorem add_content_appends:
  assumes "header_ok h" "ibuf st \<noteq> []" "length (body h) + length (ibuf st) < 2 ^ 31"
  shows "body (snd (add_content st h)) = body h @ ibuf st \<and>
    get_header ''Content-Length'' (snd (add_content st h)) = to_string_int (int (length (body h) + length (ibuf st))) \<and>
    get_content_size (snd (add_content st h)) = length (body h) + length (ibuf st) \<and>
    last (content (snd (add_content st h))) = CHR 0x00 \<and>
    overrun (snd (add_content st h)) = overrun h + 1"
proof -
  let ?n = "length (ibuf st)"
  have n: "0 < ?n" "add_content st h = add_content_n (int ?n) st h"
    using assms by (simp_all add: add_content_def int32_length)
  note c = add_content_n_body [OF n(1) refl assms(1)]
  let ?old = "length (if content h = [] then [CHR 0x00] else content h)"
  have old: "int ?old + int ?n - 1 = int (length (body h) + ?n)"
    by (cases "content h") (simp_all add: body_def get_content_size_def)
  have "to_int32 (int ?old + int ?n - 1) = int (length (body h) + ?n)"
    unfolding old using assms(3) by (intro to_int32_id) (simp add: is_int32_def INT_MIN_def INT_MAX_def)
  then have "get_header ''Content-Length'' (snd (add_content_n (int ?n) st h)) =
      to_string_int (int (length (body h) + ?n))"
    using assms(1) n(1) by (simp add: add_content_n_def Let_def get_header_put split: if_splits)
  moreover have "overrun (snd (add_content_n (int ?n) st h)) = overrun h + 1"
    using n(1) by (simp add: add_content_n_def Let_def)
  ultimately show ?thesis using c n by (simp add: get_content_size_def)
qed

theorem add_content_appends_witness:
  "body (snd (add_content (open_stream ''ef'') (snd (add_content (open_stream ''abcd'') header_init)))) = ''abcdef''"
proof -
  have ok: "header_ok header_init" "body header_init = []"
    by (simp_all add: header_ok_def header_init_def body_def)
  let ?h = "snd (add_content (open_stream ''abcd'') header_init)"
  have b: "body ?h = ''abcd''"
    using add_content_appends [OF ok(1), of "open_stream ''abcd''"] by (simp add: open_stream_def ok)
  have "header_ok ?h" using ok by (simp add: add_content_def add_content_n_def Let_def open_stream_def)
  then show ?thesis using add_content_appends [of ?h "open_stream ''ef''"] b by (simp add: open_stream_def)
qed

text \<open>\<open>set_content\<close> puts the new value in front of what the buffer already holds: the body is the new value
  only if there was no content before, and otherwise longer than the \<open>Content-Length\<close> it sets.\<close>

theorem set_content_prepends:
  assumes "header_ok h" "length value < 2 ^ 31"
  shows "body (set_content value h) = value @ content h \<and>
    get_header ''Content-Length'' (set_content value h) = to_string_int (int (length value)) \<and>
    (get_content_size (set_content value h) = length value \<longleftrightarrow> content h = [])"
  using assms
  by (auto simp: set_content_def set_content_n_def Let_def int32_length get_header_put body_def get_content_size_def)

theorem set_content_prepends_witness:
  "body (set_content ''new'' (set_content ''old'' header_init)) = ''new'' @ ''old'' @ [CHR 0x00]"
proof -
  have "content (set_content ''old'' header_init) = ''old'' @ [CHR 0x00]"
    by (simp add: set_content_def set_content_n_def header_init_def Let_def to_int32_def)
  then show ?thesis
    using set_content_prepends [of "set_content ''old'' header_init" "''new''"] by (simp add: set_content_ok)
qed

text \<open>the names of the request methods are a code: converting a method to its name and back gives the method,
  every name that is recognised is the name of its method, and an \<open>Allow\<close> header reads back the
  method that was set.\<close>

theorem method_names_roundtrip:
  assumes "header_ok r"
  shows "get_allow (set_allow m r) = m \<and> request_method (set_method (http_method_to_string m) q) = http_method_to_string m \<and>
    (req_method (set_method s q) \<noteq> method_unknown \<longrightarrow> request_method (set_method s q) = s)"
  using assms header_order.map_find_assign [of "headers r" "''Allow''" "''Allow''"]
  by (simp add: get_allow_def set_allow_def header_put_def header_ok_def header_order.equiv_refl http_method_of_to
      request_method_def set_method_def http_method_to_of)

theorem method_names_roundtrip_witness:
  "get_allow (set_allow method_merge response_init) = method_merge"
proof -
  have "header_ok response_init"
    by (simp add: header_ok_def response_init_def set_content_type_def header_put_def header_init_def http_header.defs)
  then show ?thesis using method_names_roundtrip [of response_init method_merge undefined "[]"] by blast
qed

end
