(* ===== verification/Factory.thy ===== *)
theory Factory
  imports Strutils
begin

text \<open>
  \<open>include/dcl/factory.h\<close>, \<open>src/dcl/factory.cpp\<close>: a registry of constructors by class name.  A constructor is a
  value of the parameter type; calling it is up to the client.  The three exceptions are the values of
  \<open>factory_exception\<close>, with the name they were thrown for.
\<close>

type_synonym 'c factory = "string \<Rightarrow> 'c option"

datatype factory_exception = factory_non_reg string | factory_already_reg string | factory_unreg string

definition is_registered :: "string \<Rightarrow> 'c factory \<Rightarrow> bool" where
  "is_registered name f = (f name \<noteq> None)"

definition factory_create :: "string \<Rightarrow> 'c factory \<Rightarrow> factory_exception + 'c" where
  "factory_create name f = (case f name of None \<Rightarrow> Inl (factory_non_reg name) | Some c \<Rightarrow> Inr c)"

definition register_class :: "string \<Rightarrow> 'c \<Rightarrow> 'c factory \<Rightarrow> factory_exception + 'c factory" where
  "register_class name c f =
     (if is_registered name f then Inl (factory_already_reg name) else Inr (f(name := Some c)))"

definition unregister_class :: "string \<Rightarrow> 'c factory \<Rightarrow> factory_exception + 'c factory" where
  "unregister_class name f =
     (if f name = None then Inl (factory_unreg name) else Inr (f(name := None)))"

text \<open>The texts of \<open>what ()\<close>, which returns a pointer into a temporary string; the model has the string.\<close>

fun factory_what :: "factory_exception \<Rightarrow> string option" where
  "factory_what (factory_non_reg name) =
     fmt_str (fmt_arg (fmt_new ''Can't create class {0}: the class with this name is not registered'') name)"
| "factory_what (factory_already_reg name) =
     fmt_str (fmt_arg (fmt_new ''Can't register class {0}: the class with this name is already registered'') name)"
| "factory_what (factory_unreg name) =
     fmt_str (fmt_arg (fmt_new ''Can't unregister class {0}: the class is not registered'') name)"

subsection \<open>The contract\<close>

text \<open>What a client may rely on: names are independent, registering succeeds exactly on a free name and
  unregistering exactly on a taken one, and a created object is of the class registered last.\<close>

locale class_registry =
  fixes new :: "string \<Rightarrow> 'f \<Rightarrow> 'e + 'c"
    and reg :: "string \<Rightarrow> 'c \<Rightarrow> 'f \<Rightarrow> 'e + 'f"
    and unreg :: "string \<Rightarrow> 'f \<Rightarrow> 'e + 'f"
    and known :: "string \<Rightarrow> 'f \<Rightarrow> bool"
  assumes reg_ok: "(\<exists>f'. reg n c f = Inr f') \<longleftrightarrow> \<not> known n f"
    and unreg_ok: "(\<exists>f'. unreg n f = Inr f') \<longleftrightarrow> known n f"
    and new_ok: "(\<exists>x. new n f = Inr x) \<longleftrightarrow> known n f"
    and new_reg: "reg n c f = Inr f' \<Longrightarrow> new m f' = (if m = n then Inr c else new m f)"
    and new_unreg: "unreg n f = Inr f' \<Longrightarrow> m \<noteq> n \<Longrightarrow> new m f' = new m f"
    and known_unreg: "unreg n f = Inr f' \<Longrightarrow> \<not> known n f'"
begin

lemma known_reg: "reg n c f = Inr f' \<Longrightarrow> known m f' \<longleftrightarrow> m = n \<or> known m f"
  using new_reg new_ok by (metis)

text \<open>A class stays available under its name whatever is registered later.\<close>

lemma reg_keeps: "new m f = Inr c \<Longrightarrow> reg n d f = Inr f' \<Longrightarrow> new m f' = Inr c"
  using new_reg new_ok reg_ok by (metis)

lemma unreg_reg: "reg n c f = Inr f' \<Longrightarrow> unreg n f' = Inr f'' \<Longrightarrow> m \<noteq> n \<Longrightarrow> new m f'' = new m f"
  using new_reg new_unreg by metis

end

interpretation factory: class_registry factory_create register_class unregister_class is_registered
  by unfold_locales
    (auto simp: factory_create_def register_class_def unregister_class_def is_registered_def
      split: if_splits option.splits)

text \<open>The messages name the class.\<close>

lemma factory_what_text:
  "factory_what (factory_unreg name) =
     Some (''Can't unregister class '' @ name @ '': the class is not registered'')"
proof -
  let ?t = "[Lit ''Can't unregister class '', Ref 0, Lit '': the class is not registered'']"
  have "print_template ?t = ''Can't unregister class {0}: the class is not registered''" by code_simp
  moreover have "list_all (piece_ok 1) ?t" by code_simp
  ultimately show ?thesis using format_template [of "[name]" ?t] by simp
qed

end
