(* ===== verification/Http_Content.thy ===== *)
theory Http_Content
  imports Http_Header Url Factory
begin

text \<open>
  \<open>include/dcl/http_content_parser.h\<close>, \<open>src/dcl/http_content_parser.cpp\<close>: the parser of a message body, chosen by
  its content type through a factory.  The pointer to the content is \<^const>\<open>None\<close> for an empty vector, whose
  first element \<open>get_content\<close> takes the address of; a pointer converted to a string is read up to its NUL.
\<close>

record http_content_element =
  el_name :: string
  el_value :: string

datatype http_parser = http_generic_parser | http_urlencoded_parser | http_form_data_parser

definition get_content :: "'a http_header_scheme \<Rightarrow> string option" where
  "get_content h = (if content h = [] then None else Some (content h))"

definition generic_parse :: "string option \<Rightarrow> nat \<Rightarrow> http_content_element list" where
  "generic_parse buf buf_size = (case buf of
     None \<Rightarrow> []
   | Some b \<Rightarrow> if buf_size > 0 then [\<lparr>el_name = ''content'', el_value = take buf_size b\<rparr>] else [])"

definition urlencoded_element :: "string \<Rightarrow> http_content_element" where
  "urlencoded_element i =
     (let (param, value) = tokenize_pair ''='' False i ([], [])
      in \<lparr>el_name = url_decode param, el_value = url_decode value\<rparr>)"

definition urlencoded_parse :: "string option \<Rightarrow> nat \<Rightarrow> http_content_element list" where
  "urlencoded_parse buf buf_size = (case buf of
     None \<Rightarrow> []
   | Some b \<Rightarrow> map urlencoded_element (tokenize ''&'' (c_str b)))"

text \<open>The parser for multipart forms is a stub.\<close>

definition form_data_parse :: "string option \<Rightarrow> nat \<Rightarrow> http_content_element list" where
  "form_data_parse buf buf_size = []"

definition parser_parse :: "http_parser \<Rightarrow> string option \<Rightarrow> nat \<Rightarrow> http_content_element list" where
  "parser_parse p = (case p of
     http_generic_parser \<Rightarrow> generic_parse
   | http_urlencoded_parser \<Rightarrow> urlencoded_parse
   | http_form_data_parser \<Rightarrow> form_data_parse)"

text \<open>The constructor registers two classes in a fresh factory; a failure would leave it by an exception.\<close>

definition parser_factory :: "factory_exception + http_parser factory" where
  "parser_factory =
     (case register_class ''multipart/form-data'' http_form_data_parser (\<lambda>_. None) of
        Inl e \<Rightarrow> Inl e
      | Inr f \<Rightarrow> register_class ''application/x-www-form-urlencoded'' http_urlencoded_parser f)"

definition create_parser :: "http_parser factory \<Rightarrow> 'a http_header_scheme \<Rightarrow> http_parser" where
  "create_parser f header =
     (let (ct, cv) = tokenize_pair '';'' False (get_content_type header) ([], [])
      in case factory_create (trim ct) f of Inl _ \<Rightarrow> http_generic_parser | Inr p \<Rightarrow> p)"

definition http_content_parse :: "'a http_header_scheme \<Rightarrow> factory_exception + http_content_element list" where
  "http_content_parse header = (case parser_factory of
     Inl e \<Rightarrow> Inl e
   | Inr f \<Rightarrow> Inr (parser_parse (create_parser f header) (get_content header) (get_content_size header)))"

subsection \<open>Choosing the parser\<close>

definition parser_for :: "string \<Rightarrow> http_parser" where
  "parser_for ct = (if ct = ''multipart/form-data'' then http_form_data_parser
     else if ct = ''application/x-www-form-urlencoded'' then http_urlencoded_parser else http_generic_parser)"

lemma factory_ready: "\<exists>f. parser_factory = Inr f \<and>
   (\<forall>n. factory_create n f = (if parser_for n = http_generic_parser then Inl (factory_non_reg n) else Inr (parser_for n)))"
  by (auto simp: parser_factory_def register_class_def is_registered_def factory_create_def parser_for_def)

lemma http_content_parse_for:
  "http_content_parse h = Inr (parser_parse
     (parser_for (trim (fst (tokenize_pair '';'' False (get_content_type h) ([], [])))))
     (get_content h) (get_content_size h))"
proof -
  obtain f where f: "parser_factory = Inr f"
    "\<forall>n. factory_create n f = (if parser_for n = http_generic_parser then Inl (factory_non_reg n) else Inr (parser_for n))"
    using factory_ready by blast
  have c: "create_parser f h = parser_for (trim (fst (tokenize_pair '';'' False (get_content_type h) ([], []))))"
    using f(2) by (auto simp: create_parser_def split: prod.split)
  show ?thesis unfolding http_content_parse_def f(1) c sum.case ..
qed

subsection \<open>Forms\<close>

definition form_field :: "http_content_element \<Rightarrow> string" where
  "form_field el = url_encode (el_name el) @ ''='' @ url_encode (el_value el)"

definition form_text :: "http_content_element list \<Rightarrow> string" where
  "form_text els = join_with ''&'' (map form_field els)"

lemma encoded_free:
  "c \<in> set (url_encode s) \<Longrightarrow> c \<noteq> CHR ''&'' \<and> c \<noteq> CHR ''='' \<and> c \<noteq> CHR 0x00 \<and> c \<notin> set default_delims"
proof -
  assume "c \<in> set (url_encode s)"
  then have "c = CHR ''%'' \<or> \<not> escaped c" using url_encode_chars by blast
  moreover have "escaped c" if "c = CHR ''&'' \<or> c = CHR ''='' \<or> c = CHR 0x00 \<or> c \<in> set default_delims"
    using that by (auto simp: escaped_def default_delims_def)
  moreover have "CHR ''%'' \<notin> set default_delims" by (simp add: default_delims_def)
  ultimately show ?thesis by auto
qed

lemma field_free:
  "c \<in> set (form_field el) \<Longrightarrow> c \<noteq> CHR ''&'' \<and> c \<noteq> CHR 0x00 \<and> c \<notin> set default_delims"
  using encoded_free by (auto simp: form_field_def) (simp_all add: default_delims_def)

lemma urlencoded_field: "urlencoded_element (form_field el) = el"
proof -
  have "tokenize_pair ''='' False (form_field el) ([], []) = (url_encode (el_name el), url_encode (el_value el))"
    using tokenize_pair_first [of "CHR ''=''" "''=''"] encoded_free by (auto simp: form_field_def)
  then show ?thesis by (simp add: urlencoded_element_def url_decode_encode)
qed

lemma form_text_tokens: "els \<noteq> [] \<Longrightarrow> tokenize ''&'' (form_text els) = map form_field els"
proof -
  assume e: "els \<noteq> []"
  have "split_by (\<lambda>c. c \<in> set ''&'') (form_text els) = map form_field els"
    unfolding form_text_def by (rule split_by_join) (use e field_free in auto)
  moreover have "trim (form_field el) = form_field el" for el using field_free by (intro trim_clean) blast
  moreover have "form_text els \<noteq> []" using e by (cases els rule: list.exhaust [case_names Nil Cons])
      (auto simp: form_text_def form_field_def join_with_Cons)
  ultimately show ?thesis by (simp add: tokenize_split comp_def)
qed

lemma form_text_no_nul: "CHR 0x00 \<notin> set (form_text els)"
proof (cases els)
  case (Cons e es)
  have "CHR 0x00 \<notin> set (form_field el)" for el using field_free by blast
  then show ?thesis by (simp add: Cons form_text_def join_with_Cons)
qed (simp add: form_text_def)

subsection \<open>Properties\<close>

text \<open>C29: A form survives its transport: the elements of a form that was encoded field by field and sent with the
  content type of an encoded form, with or without parameters after a semicolon, are parsed back in order,
  with every name and value as it was, whatever bytes they contain.\<close>
theorem form_roundtrip:
  assumes "content h = form_text els @ [CHR 0x00]" "els \<noteq> []"
    and "get_content_type h = ''application/x-www-form-urlencoded'' @ par" "par = [] \<or> hd par = CHR '';''"
  shows "http_content_parse h = Inr els"
proof -
  let ?ct = "''application/x-www-form-urlencoded''"
  have "fst (tokenize_pair '';'' False (?ct @ par) ([], [])) = ?ct"
    using assms(4) tokenize_pair_first [of "CHR '';''" "'';''" ?ct "tl par" "([], [])"]
      tokenize_pair_first_none [of ?ct "'';''"] by (cases par) auto
  moreover have "trim ?ct = ?ct" by code_simp
  moreover have "c_str (form_text els @ [CHR 0x00]) = form_text els"
    unfolding c_str_def by (subst takeWhile_append2) (use form_text_no_nul in \<open>metis, simp\<close>)
  ultimately show ?thesis
    by (simp add: http_content_parse_for assms(1,3) parser_for_def parser_parse_def urlencoded_parse_def
        get_content_def form_text_tokens [OF assms(2)] urlencoded_field comp_def)
qed

theorem form_roundtrip_witness:
  "http_content_parse (set_content (form_text [\<lparr>el_name = ''a&b'', el_value = ''1 + 1 = 2''\<rparr>])
     (set_content_type ''application/x-www-form-urlencoded; charset=utf-8'' header_init)) =
   Inr [\<lparr>el_name = ''a&b'', el_value = ''1 + 1 = 2''\<rparr>]"
proof -
  let ?els = "[\<lparr>el_name = ''a&b'', el_value = ''1 + 1 = 2''\<rparr>]"
  let ?h = "set_content (form_text ?els) (set_content_type ''application/x-www-form-urlencoded; charset=utf-8'' header_init)"
  have "content ?h = form_text ?els @ [CHR 0x00]" by code_simp
  moreover have "get_content_type ?h = ''application/x-www-form-urlencoded'' @ ''; charset=utf-8''" by code_simp
  ultimately show ?thesis
    using form_roundtrip [of ?h ?els "''; charset=utf-8''"] by simp
qed

end
