(* ===== verification/Tcp_Server.thy ===== *)
theory Tcp_Server
  imports Streams Strutils Datetime "HOL-Library.Multiset"
begin

text \<open>
  \<open>include/dcl/tcp_server.h\<close>, \<open>src/dcl/tcp_server.cpp\<close>, and the parts of \<open>src/dcl/socket.cpp\<close> it relies on.

  One thread waits for socket events and owns the list of active connections; worker threads take
  connections from a queue, let the handler look at their buffers, and put them back.  The handler is a
  parameter with a state of its own; it returns \<^const>\<open>None\<close> when it throws.  What the operating system
  does (\<open>select\<close>, \<open>accept\<close>, \<open>recv\<close>, \<open>send\<close>) is nondeterministic, constrained by its documentation: an accepted
  descriptor is not one that is still open, and \<open>select\<close> reports only descriptors it was asked about.
\<close>

subsection \<open>Sockets\<close>

definition data_not_ready :: int where "data_not_ready = - 1"
definition io_error :: int where "io_error = - 2"

text \<open>What \<open>recv\<close> and \<open>send\<close> return: a count, or an error with \<open>errno\<close> equal to \<open>EAGAIN\<close> or not.\<close>

datatype 'a sys_result = Transferred 'a | Sys_Error bool

definition socket_read :: "string sys_result \<Rightarrow> int \<times> string" where
  "socket_read r = (case r of
     Transferred d \<Rightarrow> (int (length d), d)
   | Sys_Error eagain \<Rightarrow> (if eagain then data_not_ready else io_error, []))"

definition socket_write :: "nat sys_result \<Rightarrow> int" where
  "socket_write r = (case r of
     Transferred n \<Rightarrow> int n
   | Sys_Error eagain \<Rightarrow> (if eagain then data_not_ready else io_error))"

text \<open>\<open>socket_address::parse\<close>.  \<open>resolve\<close> stands for \<open>gethostbyname\<close>: the printed addresses of a host,
  or \<^const>\<open>None\<close> when it fails and the code throws.  A reference past the end of the token vector is
  undefined.\<close>

datatype 'a parsed = Parsed 'a | Unresolved | Out_of_range

record socket_address =
  addr_list :: "string list"
  addr_port :: int
  addr_host :: string

definition socket_address_parse :: "(string \<Rightarrow> string list option) \<Rightarrow> string \<Rightarrow> socket_address parsed" where
  "socket_address_parse resolve addr =
     (let a = tokenize '':'' addr
      in if a = [] then Out_of_range
         else let host = a ! 0
         in case (if host \<noteq> [] \<and> host \<noteq> ''*'' then resolve host else Some []) of
              None \<Rightarrow> Unresolved
            | Some l \<Rightarrow>
                if length a < 2 then Out_of_range
                else Parsed \<lparr>addr_list = l,
                       addr_port = (if a ! 1 = [] then 0 else from_string_int (a ! 1)), addr_host = host\<rparr>)"

definition O_NONBLOCK :: "32 word" where "O_NONBLOCK = 0x800"

definition set_blocked :: "bool \<Rightarrow> 32 word \<Rightarrow> 32 word" where
  "set_blocked state opts = (if state then and opts O_NONBLOCK else or opts O_NONBLOCK)"

subsection \<open>Requests\<close>

datatype states = WAIT_DATA | TIME_OUT | CLOSING

record tcp_request =
  cur_state :: states
  last_state :: states
  connection :: int
  read_buffer :: sstream
  write_buffer :: sstream
  last_access :: datetime

definition tcp_request_new :: "int \<Rightarrow> tcp_request" where
  "tcp_request_new conn = \<lparr>cur_state = WAIT_DATA, last_state = WAIT_DATA, connection = conn,
     read_buffer = ss_new\<lparr>ss_eof := True\<rparr>, write_buffer = ss_new\<lparr>ss_eof := True\<rparr>,
     last_access = datetime_new\<rparr>"

text \<open>The handlers: what the user assigned, if anything.  \<open>conf_rethrow\<close> holds when there is no exception
  handler, so that an exception ends the thread.\<close>

type_synonym 'h on_process_data = "int \<Rightarrow> sstream \<Rightarrow> sstream \<Rightarrow> 'h \<Rightarrow> bool option \<times> sstream \<times> sstream \<times> 'h"

record 'h conf =
  process_data_handler :: "'h on_process_data option"
  connect_handler :: "(int \<Rightarrow> sstream \<times> sstream \<Rightarrow> sstream \<times> sstream) option"
  queue_size :: nat
  conf_rethrow :: bool

text \<open>The result tells whether the handler returned.\<close>

definition run_handler ::
  "'h on_process_data \<Rightarrow> tcp_request \<Rightarrow> 'h \<Rightarrow> bool \<times> tcp_request \<times> 'h" where
  "run_handler f rq h =
     (let (r, i, out, h') = f (connection rq) (read_buffer rq) (write_buffer rq) h;
          rq' = rq\<lparr>read_buffer := i, write_buffer := out\<rparr>
      in case r of
           None \<Rightarrow> (False, rq', h')
         | Some keep \<Rightarrow> (True, if keep then rq' else rq'\<lparr>cur_state := CLOSING\<rparr>, h'))"

text \<open>The comparison of \<open>tellg ()\<close> and \<open>tellp ()\<close> that discards a read buffer.\<close>

definition discard_read :: "tcp_request \<Rightarrow> tcp_request" where
  "discard_read rq =
     (let (g, s) = ss_tellg (read_buffer rq)
      in rq\<lparr>read_buffer := (if g = ss_tellp s then ss_reset s else s)\<rparr>)"

definition connection_read ::
  "'h on_process_data option \<Rightarrow> string sys_result \<Rightarrow> tcp_request \<Rightarrow> 'h \<Rightarrow> bool \<times> tcp_request \<times> 'h" where
  "connection_read handler r rq h =
     (case handler of
        None \<Rightarrow> (True, rq, h)
      | Some f \<Rightarrow>
          (let (size, tmp) = socket_read r
           in if size = io_error then
                (True, rq\<lparr>read_buffer := (read_buffer rq)\<lparr>ss_bad := True\<rparr>, cur_state := CLOSING\<rparr>, h)
              else if size > 0 then
                (let rq = rq\<lparr>write_buffer := ss_clear (write_buffer rq),
                             read_buffer := ss_write tmp (ss_clear (read_buffer rq))\<rparr>;
                     (ok, rq, h) = run_handler f rq h
                 in (ok, if ok then discard_read rq else rq, h))
              else (True, rq, h)))"

definition connection_write :: "(string \<Rightarrow> nat sys_result) \<Rightarrow> tcp_request \<Rightarrow> tcp_request" where
  "connection_write snd_data rq =
     (if ss_eof (write_buffer rq) then rq
      else
        (let (pos, s) = ss_tellg (write_buffer rq);
             (fin, s) = ss_tellg (ss_seekg_end s);
             size = fin - pos
         in if size = 0 then rq\<lparr>write_buffer := s\<lparr>ss_eof := True\<rparr>\<rparr>
            else
              (let (tmp, s) = ss_read (nat size) (ss_seekg pos s);
                   s = ss_seekg pos s;
                   rsize = socket_write (snd_data tmp)
               in rq\<lparr>write_buffer :=
                    (if rsize = io_error then s\<lparr>ss_bad := True\<rparr>
                     else if rsize > 0 then
                       (if size = rsize then ss_reset s else ss_seekg (pos + rsize) (ss_clear s))
                     else s)\<rparr>)))"

subsection \<open>The input and output thread\<close>

text \<open>The first loop over the active requests: closed connections are dropped, the others are subscribed.
  The result has what is kept, what is disconnected, and the two descriptor sets.\<close>

fun subscribe :: "tcp_request list \<Rightarrow> tcp_request list \<times> tcp_request list \<times> int list \<times> int list" where
  "subscribe [] = ([], [], [], [])"
| "subscribe (rq # rs) =
     (let (kept, closed, rfds, wfds) = subscribe rs
      in if cur_state rq = CLOSING \<and> ss_eof (write_buffer rq) then (kept, rq # closed, rfds, wfds)
         else (rq # kept, closed, connection rq # rfds,
               if ss_eof (write_buffer rq) then wfds else connection rq # wfds))"

text \<open>The results of the system calls, by descriptor.\<close>

record net =
  net_recv :: "int \<Rightarrow> string sys_result"
  net_send :: "int \<Rightarrow> string \<Rightarrow> nat sys_result"

text \<open>The second loop: events are handled and requests with events move to the queue.  The result has what
  stays, what is queued, the state of the handler, and whether the loop ran to its end.\<close>

fun dispatch ::
  "'h on_process_data option \<Rightarrow> net \<Rightarrow> int list \<Rightarrow> int list \<Rightarrow> tcp_request list \<Rightarrow> 'h \<Rightarrow>
     tcp_request list \<times> tcp_request list \<times> 'h \<times> bool" where
  "dispatch handler n rfds wfds [] h = ([], [], h, True)"
| "dispatch handler n rfds wfds (rq # rs) h =
     (let c = connection rq;
          w = (c \<in> set wfds);
          rq1 = (if w then connection_write (net_send n c) rq else rq);
          r = (c \<in> set rfds);
          (ok, rq2, h2) = (if r then connection_read handler (net_recv n c) rq1 h else (True, rq1, h))
      in if \<not> ok then (rq2 # rs, [], h2, False)
         else
           (let (kept, queued, h3, ok3) = dispatch handler n (removeAll c rfds) (removeAll c wfds) rs h2
            in if (w \<or> r) \<and> cur_state rq2 \<noteq> CLOSING then (kept, rq2 # queued, h3, ok3)
               else (rq2 # kept, queued, h3, ok3)))"

text \<open>The new request and the list it is appended to; \<^const>\<open>None\<close> when the server is overloaded.\<close>

definition connection_accept :: "'h conf \<Rightarrow> int \<Rightarrow> tcp_request list \<Rightarrow> tcp_request list option" where
  "connection_accept C conn a_reqs =
     (if length a_reqs > queue_size C then None
      else
        (let rq = tcp_request_new conn;
             rq = (case connect_handler C of
                     None \<Rightarrow> rq
                   | Some f \<Rightarrow> (let (i, out) = f conn (read_buffer rq, write_buffer rq)
                               in rq\<lparr>read_buffer := i, write_buffer := out\<rparr>))
         in Some (a_reqs @ [rq])))"

subsection \<open>The server\<close>

text \<open>Where the input and output thread is: before the test of the stop flag, before the subscription, in
  \<open>select\<close>, handling its events, returned, or ended by an exception.\<close>

datatype io_pc = IO_Top | IO_Subscribe | IO_Select "int list" "int list" | IO_Events "int list" "int list"
  | IO_Stopped | IO_Dead

text \<open>\<open>busy\<close> holds the requests in the hands of worker threads, by thread; \<open>lost\<close> those no thread will find
  again, and \<open>closed\<close> and \<open>accepted\<close> count connections: these three are no members of the class.\<close>

record 'h tcp_server =
  is_stopped :: bool
  io_thread :: io_pc
  a_reqs :: "tcp_request list"
  reqs :: "tcp_request list"
  busy :: "(nat \<times> tcp_request) list"
  lost :: "tcp_request list"
  closed :: nat
  accepted :: nat
  handler_state :: 'h

definition tcp_start :: "'h \<Rightarrow> 'h tcp_server" where
  "tcp_start h = \<lparr>is_stopped = False, io_thread = IO_Top, a_reqs = [], reqs = [], busy = [], lost = [],
     closed = 0, accepted = 0, handler_state = h\<rparr>"

definition open_handles :: "'h tcp_server \<Rightarrow> int list" where
  "open_handles s = map connection (a_reqs s @ reqs s @ map snd (busy s) @ lost s)"

text \<open>Where an exception leads: to the next turn of the loop, or to the end of the thread.\<close>

definition after_exception :: "'h conf \<Rightarrow> io_pc" where
  "after_exception C = (if conf_rethrow C then IO_Dead else IO_Top)"

definition io_dispatch :: "'h conf \<Rightarrow> net \<Rightarrow> int list \<Rightarrow> int list \<Rightarrow> 'h tcp_server \<Rightarrow> 'h tcp_server" where
  "io_dispatch C n rfds wfds s =
     (let (kept, queued, h, ok) =
            dispatch (process_data_handler C) n rfds wfds (a_reqs s) (handler_state s)
      in s\<lparr>a_reqs := kept, reqs := reqs s @ queued, handler_state := h,
           io_thread := (if ok then IO_Top else after_exception C)\<rparr>)"

definition io_subscribe :: "'h tcp_server \<Rightarrow> 'h tcp_server" where
  "io_subscribe s =
     (let (kept, gone, rfds, wfds) = subscribe (a_reqs s)
      in s\<lparr>a_reqs := kept, closed := closed s + length gone, io_thread := IO_Select rfds wfds\<rparr>)"

text \<open>\<open>working_process\<close> between the two times it has the lock: the handler runs on the request, which goes
  back to the active list unless the handler throws.\<close>

definition work :: "'h conf \<Rightarrow> tcp_request \<Rightarrow> 'h tcp_server \<Rightarrow> 'h tcp_server" where
  "work C rq s =
     (case process_data_handler C of
        None \<Rightarrow> s\<lparr>a_reqs := a_reqs s @ [rq]\<rparr>
      | Some f \<Rightarrow>
          (let (ok, rq', h) = run_handler f rq (handler_state s); s = s\<lparr>handler_state := h\<rparr>
           in if ok then s\<lparr>a_reqs := a_reqs s @ [rq']\<rparr> else s\<lparr>lost := rq' # lost s\<rparr>))"

inductive tcp_step :: "'h conf \<Rightarrow> 'h tcp_server \<Rightarrow> 'h tcp_server \<Rightarrow> bool" for C where
  check_running: "io_thread s = IO_Top \<Longrightarrow> \<not> is_stopped s \<Longrightarrow> tcp_step C s (s\<lparr>io_thread := IO_Subscribe\<rparr>)"
| check_stopped: "io_thread s = IO_Top \<Longrightarrow> is_stopped s \<Longrightarrow> tcp_step C s (s\<lparr>io_thread := IO_Stopped\<rparr>)"
| subscribe_all: "io_thread s = IO_Subscribe \<Longrightarrow> tcp_step C s (io_subscribe s)"
| select_timeout: "io_thread s = IO_Select rfds wfds \<Longrightarrow> tcp_step C s (s\<lparr>io_thread := IO_Top\<rparr>)"
| select_error: "io_thread s = IO_Select rfds wfds \<Longrightarrow> tcp_step C s (s\<lparr>io_thread := IO_Dead\<rparr>)"
| select_events: "io_thread s = IO_Select rfds wfds \<Longrightarrow> set rs \<subseteq> set rfds \<Longrightarrow> set ws \<subseteq> set wfds \<Longrightarrow>
    tcp_step C s (s\<lparr>io_thread := IO_Events rs ws\<rparr>)"
| accept: "io_thread s = IO_Events rfds wfds \<Longrightarrow> conn \<notin> set (open_handles s) \<Longrightarrow>
    connection_accept C conn (a_reqs s) = Some as \<Longrightarrow>
    tcp_step C s (s\<lparr>a_reqs := as, accepted := accepted s + 1\<rparr>)"
| accept_error: "io_thread s = IO_Events rfds wfds \<Longrightarrow> tcp_step C s (s\<lparr>io_thread := after_exception C\<rparr>)"
| dispatch_all: "io_thread s = IO_Events rfds wfds \<Longrightarrow> tcp_step C s (io_dispatch C n rfds wfds s)"
| take_work: "reqs s = rq # rs \<Longrightarrow> \<not> is_stopped s \<Longrightarrow> w \<notin> fst ` set (busy s) \<Longrightarrow>
    tcp_step C s (s\<lparr>reqs := rs, busy := (w, rq) # busy s\<rparr>)"
| finish_work: "busy s = xs @ (w, rq) # ys \<Longrightarrow> tcp_step C s (work C rq (s\<lparr>busy := xs @ ys\<rparr>))"
| stop: "tcp_step C s (s\<lparr>is_stopped := True\<rparr>)"

subsection \<open>One owner for every connection\<close>

lemma run_handler_connection:
  "run_handler f rq h = (ok, rq', h') \<Longrightarrow> connection rq' = connection rq"
  by (auto simp: run_handler_def Let_def split: prod.splits option.splits if_splits)

lemma discard_read_connection [simp]: "connection (discard_read rq) = connection rq"
  by (simp add: discard_read_def split: prod.split)

lemma connection_read_connection:
  "connection_read hr r rq h = (ok, rq', h') \<Longrightarrow> connection rq' = connection rq"
  by (auto simp: connection_read_def Let_def split: option.splits prod.splits if_splits dest!: run_handler_connection)

lemma connection_write_connection [simp]: "connection (connection_write f rq) = connection rq"
  by (simp add: connection_write_def Let_def split: prod.split)

abbreviation handles :: "tcp_request list \<Rightarrow> int multiset" where
  "handles rs \<equiv> mset (map connection rs)"

lemma subscribe_handles:
  "subscribe rs = (kept, gone, rfds, wfds) \<Longrightarrow> handles kept + handles gone = handles rs"
  by (induction rs arbitrary: kept gone rfds wfds) (auto simp: Let_def split: prod.splits if_splits)

lemma dispatch_handles:
  "dispatch hr n rfds wfds rs h = (kept, queued, h', ok) \<Longrightarrow> handles kept + handles queued = handles rs"
proof (induction hr n rfds wfds rs h arbitrary: kept queued h' ok rule: dispatch.induct)
  case (2 hr n rfds wfds rq rs h)
  then show ?case
    by (fastforce simp: Let_def split: prod.splits if_splits dest: connection_read_connection)
qed simp

definition tcp_inv :: "'h tcp_server \<Rightarrow> bool" where
  "tcp_inv s = (distinct (open_handles s) \<and> accepted s = length (open_handles s) + closed s)"

text \<open>A step that only moves open connections between the lists, or closes some, keeps the invariant.\<close>

lemma tcp_inv_move:
  assumes "tcp_inv s" "mset (open_handles t @ gone) = mset (open_handles s)"
    and "closed t = closed s + length gone" "accepted t = accepted s"
  shows "tcp_inv t"
proof -
  have "distinct (open_handles t @ gone)"
    using assms(1) mset_eq_imp_distinct_iff [OF assms(2)] by (simp add: tcp_inv_def)
  moreover have "length (open_handles s) = length (open_handles t) + length gone"
    using mset_eq_length [OF assms(2)] by simp
  ultimately show ?thesis using assms by (simp add: tcp_inv_def)
qed

lemma io_dispatch_move: "mset (open_handles (io_dispatch C n rfds wfds s)) = mset (open_handles s)"
proof -
  obtain kept queued h ok where
    d: "dispatch (process_data_handler C) n rfds wfds (a_reqs s) (handler_state s) = (kept, queued, h, ok)"
    by (cases "dispatch (process_data_handler C) n rfds wfds (a_reqs s) (handler_state s)") auto
  show ?thesis using dispatch_handles [OF d]
    by (simp add: io_dispatch_def d open_handles_def)
qed

lemma io_dispatch_other [simp]:
  "closed (io_dispatch C n rfds wfds s) = closed s" "accepted (io_dispatch C n rfds wfds s) = accepted s"
  "lost (io_dispatch C n rfds wfds s) = lost s" "busy (io_dispatch C n rfds wfds s) = busy s"
  by (simp_all add: io_dispatch_def split: prod.split)

lemma io_subscribe_inv: "tcp_inv s \<Longrightarrow> tcp_inv (io_subscribe s)"
proof -
  assume inv: "tcp_inv s"
  obtain kept gone rfds wfds where d: "subscribe (a_reqs s) = (kept, gone, rfds, wfds)"
    by (cases "subscribe (a_reqs s)") auto
  note h = subscribe_handles [OF d, simplified, symmetric]
  show ?thesis
    by (rule tcp_inv_move [OF inv, where gone = "map connection gone"])
      (simp_all add: io_subscribe_def d open_handles_def h)
qed

lemma work_move:
  "mset (open_handles (work C rq s)) = mset (open_handles s) + {#connection rq#}"
  "closed (work C rq s) = closed s" "accepted (work C rq s) = accepted s"
  by (auto simp: work_def open_handles_def Let_def split: option.split prod.split dest!: run_handler_connection)

lemma accept_handles:
  "connection_accept C conn as = Some bs \<Longrightarrow> \<exists>rq. bs = as @ [rq] \<and> connection rq = conn"
  by (auto simp: connection_accept_def tcp_request_new_def Let_def split: if_splits option.splits prod.splits)

lemma tcp_step_inv:
  assumes "tcp_step C s t" "tcp_inv s"
  shows "tcp_inv t"
  using assms
proof (induction rule: tcp_step.induct)
  case (subscribe_all s)
  then show ?case by (simp add: io_subscribe_inv)
next
  case (accept s rfds wfds conn as)
  obtain rq where "as = a_reqs s @ [rq]" "connection rq = conn" using accept_handles [OF accept(3)] by blast
  with accept show ?case by (auto simp: tcp_inv_def open_handles_def)
next
  case (dispatch_all s rfds wfds n)
  then show ?case by (rule_tac tcp_inv_move [of s _ "[]"]) (simp_all add: io_dispatch_move)
next
  case (take_work s rq rs w)
  then show ?case by (rule_tac tcp_inv_move [of s _ "[]"]) (simp_all add: open_handles_def)
next
  case (finish_work s xs w rq ys)
  then have "mset (open_handles (work C rq (s\<lparr>busy := xs @ ys\<rparr>))) = mset (open_handles s)"
    by (simp only: work_move) (simp add: open_handles_def)
  with finish_work show ?case by (rule_tac tcp_inv_move [of s _ "[]"]) (simp_all add: work_move)
qed (simp_all add: tcp_inv_def open_handles_def)

abbreviation tcp_reachable :: "'h conf \<Rightarrow> 'h \<Rightarrow> 'h tcp_server \<Rightarrow> bool" where
  "tcp_reachable C h s \<equiv> (tcp_step C)\<^sup>*\<^sup>* (tcp_start h) s"

lemma tcp_reachable_inv: "tcp_reachable C h s \<Longrightarrow> tcp_inv s"
proof (induction rule: rtranclp_induct)
  case base
  then show ?case by (simp add: tcp_inv_def tcp_start_def open_handles_def)
qed (rule tcp_step_inv)

subsection \<open>The contract of a handler\<close>

text \<open>A handler that keeps the positions of both streams inside their buffers and writes at the end.  The
  handler of the HTTP server is shown to be one.\<close>

definition rq_ok :: "tcp_request \<Rightarrow> bool" where
  "rq_ok rq = (ss_ok (read_buffer rq) \<and> ss_ok (write_buffer rq))"

definition all_ok :: "'h tcp_server \<Rightarrow> bool" where
  "all_ok s = list_all rq_ok (a_reqs s @ reqs s @ map snd (busy s) @ lost s)"

lemma connection_write_ok: "rq_ok rq \<Longrightarrow> rq_ok (connection_write f rq)"
proof -
  assume ok: "rq_ok rq"
  obtain pos s where 1: "ss_tellg (write_buffer rq) = (pos, s)" by fastforce
  obtain fin s' where 2: "ss_tellg (ss_seekg_end s) = (fin, s')" by fastforce
  obtain tmp s'' where 3: "ss_read (nat (fin - pos)) (ss_seekg pos s') = (tmp, s'')" by fastforce
  have "ss_ok s" using ok ss_okD(1) [OF 1] by (simp add: rq_ok_def)
  then have "ss_ok s'" using ss_okD(1) [OF 2] by (simp add: ss_seekg_end_def)
  moreover from this have "ss_ok s''" using ss_okD(3) [OF 3] by simp
  ultimately show ?thesis using ok by (simp add: connection_write_def rq_ok_def 1 2 3 Let_def)
qed

lemma discard_read_ok: "rq_ok rq \<Longrightarrow> rq_ok (discard_read rq)"
  by (auto simp: discard_read_def rq_ok_def split: prod.split dest: ss_okD)

lemma subscribe_ok: "subscribe rs = (kept, gone, r, w) \<Longrightarrow> list_all P rs \<Longrightarrow> list_all P kept"
  by (induction rs arbitrary: kept gone r w) (auto simp: Let_def split: prod.splits if_splits)

locale stream_handler =
  fixes f :: "'h on_process_data"
  assumes keeps_ok: "f c i out h = (r, i', out', h') \<Longrightarrow> ss_ok i \<Longrightarrow> ss_ok out \<Longrightarrow> ss_ok i' \<and> ss_ok out'"
begin

lemma run_ok: "run_handler f rq h = (ok, rq', h') \<Longrightarrow> rq_ok rq \<Longrightarrow> rq_ok rq'"
  by (auto simp: run_handler_def rq_ok_def Let_def split: prod.splits option.splits if_splits
      dest: keeps_ok)

lemma read_ok: "connection_read (Some f) r rq h = (ok, rq', h') \<Longrightarrow> rq_ok rq \<Longrightarrow> rq_ok rq'"
  by (auto simp: connection_read_def Let_def split: prod.splits if_splits
      dest!: run_ok intro!: discard_read_ok) (auto simp: rq_ok_def)

lemma dispatch_ok:
  "dispatch (Some f) n rfds wfds rs h = (kept, queued, h', ok) \<Longrightarrow> list_all rq_ok rs \<Longrightarrow>
     list_all rq_ok kept \<and> list_all rq_ok queued"
proof (induction "Some f" n rfds wfds rs h arbitrary: kept queued h' ok rule: dispatch.induct)
  case (2 n rfds wfds rq rs h)
  then show ?case
    by (fastforce simp: Let_def split: prod.splits if_splits dest: read_ok intro: connection_write_ok)
qed simp

lemma work_ok:
  "process_data_handler C = Some f \<Longrightarrow> rq_ok rq \<Longrightarrow> all_ok s \<Longrightarrow> all_ok (work C rq s)"
  by (auto simp: work_def all_ok_def Let_def split: prod.split dest: run_ok)

lemma step_ok:
  assumes "tcp_step C s t" "process_data_handler C = Some f" "connect_handler C = None" "all_ok s"
  shows "all_ok t"
  using assms
proof (induction rule: tcp_step.induct)
  case (subscribe_all s)
  then show ?case
    using subscribe_ok [of "a_reqs s" _ _ _ _ rq_ok] by (auto simp: io_subscribe_def all_ok_def split: prod.split)
next
  case (accept s rfds wfds conn as)
  then show ?case
    by (auto simp: all_ok_def connection_accept_def tcp_request_new_def rq_ok_def Let_def split: if_splits)
next
  case (dispatch_all s rfds wfds n)
  then show ?case
    using dispatch_ok [of n rfds wfds "a_reqs s"] by (auto simp: io_dispatch_def all_ok_def split: prod.split)
next
  case (finish_work s xs w rq ys)
  then show ?case by (intro work_ok) (auto simp: all_ok_def)
qed (auto simp: all_ok_def)

lemma reachable_ok:
  assumes "tcp_reachable C h s" "process_data_handler C = Some f" "connect_handler C = None"
  shows "all_ok s"
  using assms(1)
proof (induction rule: rtranclp_induct)
  case base
  then show ?case by (simp add: all_ok_def tcp_start_def)
next
  case (step s t)
  then show ?case using step_ok assms(2,3) by blast
qed

end

subsection \<open>Handlers that return\<close>

definition never_throws :: "'h conf \<Rightarrow> bool" where
  "never_throws C = (case process_data_handler C of None \<Rightarrow> True | Some f \<Rightarrow> \<forall>c i out h. fst (f c i out h) \<noteq> None)"

lemma run_returns: "fst (f c i out h) \<noteq> None \<Longrightarrow> c = connection rq \<Longrightarrow> i = read_buffer rq \<Longrightarrow>
   out = write_buffer rq \<Longrightarrow> fst (run_handler f rq h)"
  by (auto simp: run_handler_def Let_def split: prod.split option.split)

lemma work_appends:
  assumes "never_throws C"
  shows "\<exists>rq' h. work C rq s = s\<lparr>handler_state := h, a_reqs := a_reqs s @ [rq']\<rparr> \<and>
    connection rq' = connection rq"
proof (cases "process_data_handler C")
  case None
  then show ?thesis by (intro exI [of _ rq] exI [of _ "handler_state s"]) (simp add: work_def)
next
  case (Some f)
  obtain ok rq' h where r: "run_handler f rq (handler_state s) = (ok, rq', h)" using prod_cases3 by blast
  moreover have "fst (run_handler f rq (handler_state s))"
    using assms Some by (intro run_returns) (simp_all add: never_throws_def)
  ultimately show ?thesis using run_handler_connection [OF r] Some
    by (intro exI [of _ rq'] exI [of _ h]) (simp add: work_def)
qed

lemma work_returns:
  assumes "never_throws C"
  shows "lost (work C rq s) = lost s" "reqs (work C rq s) = reqs s" "busy (work C rq s) = busy s"
    and "is_stopped (work C rq s) = is_stopped s"
    and "map connection (a_reqs (work C rq s)) = map connection (a_reqs s) @ [connection rq]"
  using work_appends [OF assms, of rq s] by auto

lemma step_nothing_lost: "tcp_step C s t \<Longrightarrow> never_throws C \<Longrightarrow> lost t = lost s"
  by (induction rule: tcp_step.induct) (simp_all add: work_returns io_subscribe_def split: prod.split)

lemma reachable_nothing_lost: "tcp_reachable C h s \<Longrightarrow> never_throws C \<Longrightarrow> lost s = []"
  by (induction rule: rtranclp_induct) (simp_all add: step_nothing_lost tcp_start_def)

lemma drain_busy:
  "never_throws C \<Longrightarrow> \<exists>t. (tcp_step C)\<^sup>*\<^sup>* s t \<and> busy t = [] \<and> reqs t = reqs s \<and> lost t = lost s \<and>
     is_stopped t = is_stopped s \<and>
     map connection (a_reqs t) = map connection (a_reqs s @ map snd (busy s))"
proof (induction "busy s" arbitrary: s)
  case Nil
  then show ?case by (intro exI [of _ s]) simp
next
  case (Cons b bs)
  obtain w rq where b: "b = (w, rq)" by fastforce
  let ?t = "work C rq (s\<lparr>busy := bs\<rparr>)"
  have st: "tcp_step C s ?t" using finish_work [of s "[]" w rq bs C] Cons.hyps(2) by (simp add: b)
  note r = work_returns [OF Cons.prems, of rq "s\<lparr>busy := bs\<rparr>"]
  from Cons.hyps(1) [of ?t] Cons.prems r obtain t where "(tcp_step C)\<^sup>*\<^sup>* ?t t" "busy t = []" "reqs t = reqs s"
    "lost t = lost s" "is_stopped t = is_stopped s" "map connection (a_reqs t) = map connection (a_reqs ?t @ map snd bs)"
    by auto
  with st r show ?case by (intro exI [of _ t]) (auto simp: b simp flip: Cons.hyps(2) intro: converse_rtranclp_into_rtranclp)
qed

lemma drain_queue:
  "never_throws C \<Longrightarrow> \<not> is_stopped s \<Longrightarrow> busy s = [] \<Longrightarrow>
     \<exists>t. (tcp_step C)\<^sup>*\<^sup>* s t \<and> busy t = [] \<and> reqs t = [] \<and> lost t = lost s \<and>
       map connection (a_reqs t) = map connection (a_reqs s @ reqs s)"
proof (induction "reqs s" arbitrary: s)
  case Nil
  then show ?case by (intro exI [of _ s]) simp
next
  case (Cons rq rs)
  let ?u = "s\<lparr>reqs := rs, busy := [(0, rq)]\<rparr>"
  let ?t = "work C rq (?u\<lparr>busy := []\<rparr>)"
  have 1: "tcp_step C s ?u" using take_work [of s rq rs 0 C] Cons by simp
  have 2: "tcp_step C ?u ?t" using finish_work [of ?u "[]" 0 rq "[]" C] by simp
  note r = work_returns [OF Cons.prems(1), of rq "?u\<lparr>busy := []\<rparr>"]
  from Cons.hyps(1) [of ?t] Cons.prems r obtain t where "(tcp_step C)\<^sup>*\<^sup>* ?t t" "busy t = []" "reqs t = []"
    "lost t = lost s" "map connection (a_reqs t) = map connection (a_reqs ?t @ rs)" by auto
  with 1 2 r show ?case
    by (intro exI [of _ t]) (auto simp flip: Cons.hyps(2) intro: converse_rtranclp_into_rtranclp)
qed

subsection \<open>Sockets\<close>

text \<open>Three consequences of the code as it is: an address without a port is read past the end of its tokens,
  although the documentation calls the port optional; switching a descriptor back to blocking mode keeps
  exactly the flag that should go; and the end of the stream a peer has closed is not noticed.\<close>

lemma address_without_port:
  assumes "CHR '':'' \<notin> set addr"
  shows "socket_address_parse resolve addr = Out_of_range \<or> socket_address_parse resolve addr = Unresolved"
proof -
  have "split_by (\<lambda>c. c = CHR '':'') addr = [addr]" using assms by (intro split_by_none) auto
  then have "length (tokenize '':'' addr) < 2" by (simp add: tokenize_split)
  then show ?thesis by (simp add: socket_address_parse_def Let_def split: option.split)
qed

lemma blocking_keeps_nonblock:
  "and (set_blocked True (or opts O_NONBLOCK)) O_NONBLOCK = O_NONBLOCK" "set_blocked True O_NONBLOCK = O_NONBLOCK"
  by (simp_all add: set_blocked_def O_NONBLOCK_def)

lemma peer_close_ignored: "connection_read handler (Transferred []) rq h = (True, rq, h)"
  by (simp add: connection_read_def socket_read_def io_error_def split: option.split)

subsection \<open>Properties\<close>

text \<open>C7: In every interleaving of the input and output thread, any number of worker threads and \<open>stop\<close>, each
  connection that was accepted and not yet closed is in exactly one place: the active list, the work queue,
  the hands of one worker, or lost to an exception; and none is lost when the handler does not throw.\<close>
theorem tcp_one_owner:
  assumes "tcp_reachable C h s"
  shows "distinct (map connection (a_reqs s @ reqs s @ map snd (busy s) @ lost s)) \<and>
    accepted s = length (a_reqs s) + length (reqs s) + length (busy s) + length (lost s) + closed s \<and>
    (never_throws C \<longrightarrow> lost s = [])"
  using tcp_reachable_inv [OF assms] reachable_nothing_lost [OF assms]
  by (simp add: tcp_inv_def open_handles_def)

text \<open>A server with an idle handler, and a server that has accepted one connection.\<close>

definition idle_conf :: "unit conf" where
  "idle_conf = \<lparr>process_data_handler = Some (\<lambda>c i out h. (Some True, i, out, h)), connect_handler = None,
     queue_size = 1, conf_rethrow = False\<rparr>"

definition one_client :: "'h \<Rightarrow> 'h tcp_server" where
  "one_client h = (tcp_start h)\<lparr>io_thread := IO_Events [] [], a_reqs := [tcp_request_new 5], accepted := 1\<rparr>"

lemma one_client_reachable:
  assumes "connect_handler C = None"
  shows "tcp_reachable C h (one_client h)"
proof -
  let ?s = "\<lambda>pc. (tcp_start h)\<lparr>io_thread := pc\<rparr>"
  have 0: "tcp_step C (tcp_start h) (?s IO_Subscribe)"
    by (rule check_running) (simp_all add: tcp_start_def)
  have 1: "tcp_step C (?s IO_Subscribe) (?s (IO_Select [] []))"
    using subscribe_all [of "?s IO_Subscribe" C] by (simp add: io_subscribe_def tcp_start_def)
  have 2: "tcp_step C (?s (IO_Select [] [])) (?s (IO_Events [] []))"
    using select_events [of "?s (IO_Select [] [])" "[]" "[]" "[]" "[]" C] by (simp add: tcp_start_def)
  have 3: "tcp_step C (?s (IO_Events [] [])) (one_client h)"
    using accept [of "?s (IO_Events [] [])" "[]" "[]" 5 C "[tcp_request_new 5]"] assms
    by (simp add: one_client_def tcp_start_def open_handles_def connection_accept_def)
  show ?thesis using 0 1 2 3 by (meson converse_rtranclp_into_rtranclp rtranclp.rtrancl_refl)
qed

lemma idle_never_throws: "never_throws idle_conf"
  by (simp add: never_throws_def idle_conf_def)

theorem tcp_one_owner_witness:
  "distinct (map connection (a_reqs (one_client ()) @ reqs (one_client ()) @ map snd (busy (one_client ())) @
     lost (one_client ()))) \<and> accepted (one_client ()) = 1 \<and> lost (one_client ()) = []"
proof -
  have "tcp_reachable idle_conf () (one_client ())" by (rule one_client_reachable) (simp add: idle_conf_def)
  then show ?thesis using tcp_one_owner [of idle_conf "()" "one_client ()"] idle_never_throws
    by (simp add: one_client_def tcp_start_def)
qed



end
