(* ===== verification/Http_Server.thy ===== *)
theory Http_Server
  imports Http_Header Tcp_Server
begin

text \<open>
  \<open>include/dcl/http_server.h\<close>, \<open>src/dcl/http_server.cpp\<close>: the handler the HTTP server gives to the TCP server.
  It runs a state machine over the input stream of a connection and keeps unfinished requests in a map by
  descriptor.  The function that answers requests is a parameter.  \<open>seen\<close> is no member of the class: it
  records the requests that function was called with, in order.

  A request under construction is allocated on the first call for a descriptor and entered into the map only
  when the call returns to wait for more data; from then on the map and the function share it.
\<close>

subsection \<open>State\<close>

datatype http_states = WAIT_COMMAND | WAIT_HEADER | RECEIVING_DATA | PROCESS_REQUEST | HTTP_CLOSING

record request =
  rq_state :: http_states
  data_size :: "64 word"
  data_readed :: "64 word"
  rq_req :: http_request

definition request_new :: "http_method \<Rightarrow> request" where
  "request_new m = \<lparr>rq_state = WAIT_COMMAND, data_size = 0, data_readed = 0, rq_req = request_init m\<rparr>"

record http_server =
  http_reqs :: "int \<Rightarrow> request option"
  seen :: "http_request list"

text \<open>What the server takes from outside: the environment of the header parser, what an uninitialised method
  holds, and the function assigned by \<open>on_request\<close>, if any.\<close>

record http_conf =
  hc_env :: env
  hc_method :: http_method
  request_handler :: "(http_request \<Rightarrow> http_response) option"

text \<open>The variables of one call of \<open>process_data\<close>.\<close>

record turn_state =
  t_req :: request
  t_in :: sstream
  t_out :: sstream
  t_seen :: "http_request list"

text \<open>How a turn of the loop ends: with another turn, waiting for data, with the request done, by throwing,
  or reading an indeterminate buffer while the response is printed.\<close>

datatype turn_end = Next | Wait | Finish bool | Throws | Indeterminate

subsection \<open>The states\<close>

definition parse_command :: "string \<Rightarrow> http_request \<Rightarrow> http_request" where
  "parse_command buf r =
     (let (r, buf) = (case find_first_of '' '' buf 0 of
                        None \<Rightarrow> (r, buf)
                      | Some pos \<Rightarrow> (set_method (trim (take (pos + 1) buf)) r, drop (pos + 1) buf));
          (r, buf) = (case find_last_of '' '' buf of
                        None \<Rightarrow> (r, buf)
                      | Some pos \<Rightarrow> (r\<lparr>http_version := trim (drop (pos + 1) buf)\<rparr>, take pos buf))
      in r\<lparr>path_info := buf\<rparr>)"

text \<open>Both line-oriented states read a full line, or go back and wait.  The position is kept in a \<open>size_t\<close> in
  one of them and in an \<open>int\<close> in the other; \<open>to_pos\<close> is the conversion.\<close>

definition next_line :: "(int \<Rightarrow> int) \<Rightarrow> sstream \<Rightarrow> sstream + string \<times> sstream" where
  "next_line to_pos s =
     (let (pos, i) = ss_tellg s; (buf, i) = ss_getline i
      in if ss_eof i then Inl (ss_seekg (to_pos pos) i) else Inr (buf, i))"

definition wait_command :: "turn_state \<Rightarrow> turn_end \<times> turn_state" where
  "wait_command t = (case next_line id (t_in t) of
     Inl i \<Rightarrow> (Wait, t\<lparr>t_in := i\<rparr>)
   | Inr (buf, i) \<Rightarrow>
       (Next, t\<lparr>t_in := i,
          t_req := (t_req t)\<lparr>rq_req := parse_command buf (rq_req (t_req t)), rq_state := WAIT_HEADER\<rparr>\<rparr>))"

definition wait_header :: "env \<Rightarrow> turn_state \<Rightarrow> turn_end \<times> turn_state" where
  "wait_header e t = (case next_line to_int32 (t_in t) of
     Inl i \<Rightarrow> (Wait, t\<lparr>t_in := i\<rparr>)
   | Inr (buf, i) \<Rightarrow>
       (let rq = (t_req t)\<lparr>rq_req := set_header_line e (trim buf) (rq_req (t_req t))\<rparr>;
            t = t\<lparr>t_in := i, t_req := rq\<rparr>;
            len = get_header ''Content-Length'' (rq_req rq)
        in if trim buf = [] then
             (if len \<noteq> [] then
                (case from_string_size len of
                   None \<Rightarrow> (Throws, t)
                 | Some n \<Rightarrow> (Next, t\<lparr>t_req := rq\<lparr>data_size := n, rq_state := RECEIVING_DATA\<rparr>\<rparr>))
              else (Next, t\<lparr>t_req := rq\<lparr>rq_state := RECEIVING_DATA\<rparr>\<rparr>))
           else (Next, t)))"

text \<open>\<open>http_header::add_content\<close> on the stream of the connection.\<close>

definition stream_add_content :: "sstream \<Rightarrow> http_request \<Rightarrow> sstream \<times> http_request" where
  "stream_add_content s h =
     (let (pos, s) = ss_tellg s;
          (fin, s) = ss_tellg (ss_seekg_end s);
          size = fin - pos;
          s = ss_seekg pos s
      in if size = 0 then (s\<lparr>ss_eof := True\<rparr>, h)
         else
           (let n = to_int32 size; h = snd (add_content_n n (open_stream (ss_rest s)) h)
            in (if n > 0 then snd (ss_read (nat n) s) else s, h)))"

definition receiving_data :: "turn_state \<Rightarrow> turn_end \<times> turn_state" where
  "receiving_data t =
     (let rq = t_req t
      in if data_size rq > 0 then
           (if ss_eof (t_in t) then (Wait, t)
            else
              (let (pos, i) = ss_tellg (t_in t);
                   (i, r) = stream_add_content i (rq_req rq);
                   (pos', i) = ss_tellg i;
                   rq = rq\<lparr>rq_req := r, data_readed := data_readed rq + of_int pos' - of_int pos\<rparr>;
                   rq = (if data_readed rq \<ge> data_size rq then rq\<lparr>rq_state := PROCESS_REQUEST\<rparr> else rq)
               in (Next, t\<lparr>t_in := i, t_req := rq\<rparr>)))
         else (Next, t\<lparr>t_req := rq\<lparr>rq_state := PROCESS_REQUEST\<rparr>\<rparr>))"

definition process_request :: "(http_request \<Rightarrow> http_response) option \<Rightarrow> turn_state \<Rightarrow> turn_end \<times> turn_state" where
  "process_request handler t =
     (let rq = t_req t; done = t\<lparr>t_req := rq\<lparr>rq_state := HTTP_CLOSING\<rparr>\<rparr>
      in case handler of
           None \<Rightarrow> (Next, done)
         | Some f \<Rightarrow>
             (let resp = f (rq_req rq); done = done\<lparr>t_seen := t_seen t @ [rq_req rq]\<rparr>
              in case response_print resp of
                   None \<Rightarrow> (Indeterminate, done)
                 | Some s \<Rightarrow>
                     (Next, done\<lparr>t_out := ss_write (http_version (rq_req rq) @ '' '' @ get_status resp @
                        [CHR 0x0A] @ s) (t_out t)\<rparr>)))"

definition closing :: "turn_state \<Rightarrow> turn_end \<times> turn_state" where
  "closing t = (Finish (get_header ''Connection'' (rq_req (t_req t)) = ''keep-alive''), t)"

subsection \<open>The loop\<close>

definition turn :: "http_conf \<Rightarrow> turn_state \<Rightarrow> turn_end \<times> turn_state" where
  "turn C t = (case rq_state (t_req t) of
     WAIT_COMMAND \<Rightarrow> wait_command t
   | WAIT_HEADER \<Rightarrow> wait_header (hc_env C) t
   | RECEIVING_DATA \<Rightarrow> receiving_data t
   | PROCESS_REQUEST \<Rightarrow> process_request (request_handler C) t
   | HTTP_CLOSING \<Rightarrow> closing t)"

text \<open>\<^const>\<open>None\<close> if the loop runs forever.\<close>

partial_function (option) turns :: "http_conf \<Rightarrow> turn_state \<Rightarrow> (turn_end \<times> turn_state) option" where
  "turns C t = (let (r, t') = turn C t in if r = Next then turns C t' else Some (r, t'))"

text \<open>The map after the call: the request is stored, erased, or, when the call is left by an exception, only
  still there if it was found there.\<close>

definition store_request :: "int \<Rightarrow> turn_end \<Rightarrow> request \<Rightarrow> (int \<Rightarrow> request option) \<Rightarrow> int \<Rightarrow> request option" where
  "store_request c r rq m = (case r of
     Finish _ \<Rightarrow> m(c := None)
   | Throws \<Rightarrow> (if m c = None then m else m(c := Some rq))
   | _ \<Rightarrow> m(c := Some rq))"

definition process_data ::
  "http_conf \<Rightarrow> int \<Rightarrow> sstream \<Rightarrow> sstream \<Rightarrow> http_server \<Rightarrow>
     (turn_end \<times> sstream \<times> sstream \<times> http_server) option" where
  "process_data C c i out srv =
     (if request_handler C = None then Some (Finish False, i, out, srv)
      else
        (let rq = (case http_reqs srv c of None \<Rightarrow> request_new (hc_method C) | Some rq \<Rightarrow> rq)
         in map_option (\<lambda>(r, t). (r, t_in t, t_out t,
                \<lparr>http_reqs = store_request c r (t_req t) (http_reqs srv), seen = t_seen t\<rparr>))
              (turns C \<lparr>t_req = rq, t_in = i, t_out = out, t_seen = seen srv\<rparr>)))"

text \<open>The delegate the constructor assigns to \<open>on_process_data\<close>.  A call that does not return a value, because
  it throws, is undefined, or does not end, is \<^const>\<open>None\<close> for the TCP server.\<close>

definition http_handler :: "http_conf \<Rightarrow> http_server on_process_data" where
  "http_handler C c i out srv =
     (case process_data C c i out srv of
        None \<Rightarrow> (None, i, out, srv)
      | Some (r, i', out', srv') \<Rightarrow>
          ((case r of Wait \<Rightarrow> Some True | Finish keep \<Rightarrow> Some keep | _ \<Rightarrow> None), i', out', srv'))"

definition http_server_conf :: "http_conf \<Rightarrow> nat \<Rightarrow> bool \<Rightarrow> http_server conf" where
  "http_server_conf C n rethrow = \<lparr>process_data_handler = Some (http_handler C), connect_handler = None,
     queue_size = n, conf_rethrow = rethrow\<rparr>"

subsection \<open>Stream operations, by the state of the stream\<close>

lemma tellg_good: "ss_good s \<Longrightarrow> ss_tellg s = (int (ss_get s), s)"
  by (simp add: ss_tellg_def ss_sentry_def ss_good_def ss_failed_def)

lemma tellg_bad: "\<not> ss_good s \<Longrightarrow> ss_tellg s = (- 1, s\<lparr>ss_fail := True\<rparr>)"
  by (simp add: ss_tellg_def ss_sentry_def ss_failed_def)

lemma getline_bad: "\<not> ss_good s \<Longrightarrow> ss_getline s = ([], s\<lparr>ss_fail := True\<rparr>)"
  by (simp add: ss_getline_def)

lemma getline_line:
  assumes "ss_good s" "ss_rest s = l @ CHR 0x0A # r" "CHR 0x0A \<notin> set l"
  shows "ss_getline s = (l, s\<lparr>ss_get := ss_get s + length l + 1\<rparr>)"
proof -
  have "takeWhile (\<lambda>c. c \<noteq> CHR 0x0A) (ss_rest s) = l"
    using assms(3) by (subst assms(2), subst takeWhile_append2) auto
  then show ?thesis using assms(1,2) by (simp add: ss_getline_def)
qed

lemma getline_part:
  assumes "ss_good s" "CHR 0x0A \<notin> set (ss_rest s)"
  shows "ss_getline s = (ss_rest s,
    s\<lparr>ss_get := ss_get s + length (ss_rest s), ss_eof := True, ss_fail := (ss_rest s = [])\<rparr>)"
proof -
  have t: "takeWhile (\<lambda>c. c \<noteq> CHR 0x0A) (ss_rest s) = ss_rest s" using assms(2) by (auto simp: takeWhile_eq_all_conv)
  show ?thesis using assms(1) by (simp add: ss_getline_def t Let_def)
qed

lemma seekg_good:
  "\<not> ss_fail s \<Longrightarrow> \<not> ss_bad s \<Longrightarrow> n \<le> length (ss_str s) \<Longrightarrow>
     ss_seekg (int n) s = s\<lparr>ss_eof := False, ss_get := n\<rparr>"
  by (simp add: ss_seekg_def ss_sentry_def ss_good_def ss_failed_def)

lemma seekg_bad: "ss_fail s \<or> ss_bad s \<Longrightarrow> ss_seekg p s = s\<lparr>ss_eof := False, ss_fail := True\<rparr>"
  by (auto simp: ss_seekg_def ss_sentry_def ss_good_def ss_failed_def)

lemma add_content_bad: "\<not> ss_good s \<Longrightarrow> stream_add_content s h = (s\<lparr>ss_fail := True, ss_eof := True\<rparr>, h)"
  by (simp add: stream_add_content_def tellg_bad seekg_bad ss_seekg_end_def ss_good_def)

lemma add_content_end:
  "ss_good s \<Longrightarrow> ss_ok s \<Longrightarrow> ss_rest s = [] \<Longrightarrow> stream_add_content s h = (s\<lparr>ss_eof := True\<rparr>, h)"
  by (auto simp: stream_add_content_def tellg_good seekg_good ss_seekg_end_def ss_good_def ss_ok_def ss_rest_def)

lemma add_content_more:
  assumes "ss_good s" "ss_ok s" "ss_rest s \<noteq> []" "length (ss_rest s) < 2 ^ 31"
  shows "stream_add_content s h = (s\<lparr>ss_get := length (ss_str s)\<rparr>,
    snd (add_content_n (int (length (ss_rest s))) (open_stream (ss_rest s)) h))"
proof -
  let ?n = "length (ss_str s) - ss_get s"
  have n: "int (length (ss_str s)) - int (ss_get s) = int ?n" "0 < ?n" "length (ss_rest s) = ?n"
    using assms(2,3) by (auto simp: ss_ok_def ss_rest_def)
  have i: "to_int32 (int ?n) = int ?n" using assms(4) n(3) int32_length [of "ss_rest s"] by simp
  show ?thesis using assms n i
    by (auto simp: stream_add_content_def tellg_good seekg_good ss_seekg_end_def ss_good_def ss_ok_def ss_rest_def
        ss_read_def Let_def)
qed


subsection \<open>Termination\<close>

definition rank :: "http_states \<Rightarrow> nat" where
  "rank s = (case s of WAIT_COMMAND \<Rightarrow> 4 | WAIT_HEADER \<Rightarrow> 3 | RECEIVING_DATA \<Rightarrow> 2 | PROCESS_REQUEST \<Rightarrow> 1
     | HTTP_CLOSING \<Rightarrow> 0)"

definition left_over :: "sstream \<Rightarrow> nat" where
  "left_over s = (if ss_eof s then 0 else Suc (length (ss_rest s)))"

text \<open>What a turn leaves of the stream: the same buffer, with the positions inside it.\<close>

definition same_buffer :: "sstream \<Rightarrow> sstream \<Rightarrow> bool" where
  "same_buffer s s' = (ss_str s' = ss_str s \<and> (ss_ok s \<longrightarrow> ss_ok s'))"


lemma next_line_eof: "ss_eof s \<Longrightarrow> next_line to_pos s = Inl (s\<lparr>ss_eof := False, ss_fail := True\<rparr>)"
  by (simp add: next_line_def tellg_bad getline_bad seekg_bad ss_good_def)

lemma next_line_bad: "\<not> ss_good s \<Longrightarrow> \<not> ss_eof s \<Longrightarrow> next_line to_pos s = Inr ([], s\<lparr>ss_fail := True\<rparr>)"
  by (simp add: next_line_def tellg_bad getline_bad ss_good_def)

lemma next_line_line:
  "ss_good s \<Longrightarrow> ss_rest s = l @ CHR 0x0A # r \<Longrightarrow> CHR 0x0A \<notin> set l \<Longrightarrow>
     next_line to_pos s = Inr (l, s\<lparr>ss_get := ss_get s + length l + 1\<rparr>)"
  by (simp add: next_line_def tellg_good getline_line) (simp add: ss_good_def)

lemma next_line_part:
  assumes "ss_good s" "ss_ok s" "CHR 0x0A \<notin> set (ss_rest s)" "to_pos (int (ss_get s)) = int (ss_get s)"
  shows "next_line to_pos s = Inl (if ss_rest s = [] then s\<lparr>ss_fail := True\<rparr> else s)"
proof -
  have "s\<lparr>ss_get := ss_get s, ss_eof := False, ss_fail := False\<rparr> = s"
    using assms(1) by (cases s) (simp add: ss_good_def)
  then show ?thesis using assms
    by (auto simp: next_line_def tellg_good getline_part seekg_good seekg_bad ss_good_def ss_ok_def)
qed


lemma ss_str_ops [simp]:
  "ss_str (ss_sentry s) = ss_str s" "ss_str (ss_seekg p s) = ss_str s" "ss_str (snd (ss_tellg s)) = ss_str s"
  "ss_str (snd (ss_getline s)) = ss_str s" "ss_str (snd (ss_read n s)) = ss_str s" "ss_str (ss_seekg_end s) = ss_str s"
  by (simp_all add: ss_sentry_def ss_seekg_def ss_tellg_def ss_getline_def ss_read_def ss_seekg_end_def Let_def)

lemma same_buffer_refl [simp]: "same_buffer s s"
  by (simp add: same_buffer_def)

lemma same_buffer_trans [trans]: "same_buffer s t \<Longrightarrow> same_buffer t u \<Longrightarrow> same_buffer s u"
  by (simp add: same_buffer_def)

lemma same_buffer_ops:
  "same_buffer s (snd (ss_tellg s))" "same_buffer s (snd (ss_getline s))" "same_buffer s (ss_seekg p s)"
  "same_buffer s (snd (ss_read n s))" "same_buffer s (ss_seekg_end s)" "same_buffer s (s\<lparr>ss_eof := b\<rparr>)"
  by (simp_all add: same_buffer_def) (simp add: ss_seekg_end_def)

lemma next_line_same:
  "next_line to_pos s = Inl i \<Longrightarrow> same_buffer s i" "next_line to_pos s = Inr (buf, i) \<Longrightarrow> same_buffer s i"
  using same_buffer_ops
  by (auto simp: next_line_def split: prod.splits if_splits) (metis same_buffer_trans snd_conv)+

lemma next_line_shrinks:
  assumes "next_line to_pos s = Inr (buf, i)"
  shows "left_over i < left_over s \<or> buf = []"
proof (cases "ss_good s")
  case good: True
  show ?thesis
  proof (cases "CHR 0x0A \<in> set (ss_rest s)")
    case True
    then obtain l r where "ss_rest s = l @ CHR 0x0A # r" "CHR 0x0A \<notin> set l" by (meson split_list_first)
    moreover from this have "length (ss_rest (s\<lparr>ss_get := ss_get s + length l + 1\<rparr>)) < length (ss_rest s)"
      by (auto simp: ss_rest_def dest: arg_cong [where f = length])
    ultimately show ?thesis using assms good next_line_line [OF good] by (auto simp: left_over_def ss_good_def)
  next
    case False
    then show ?thesis using assms good by (auto simp: next_line_def tellg_good getline_part)
  qed
next
  case False
  then show ?thesis using assms by (cases "ss_eof s") (auto simp: next_line_eof next_line_bad)
qed

lemma stream_add_content_same: "same_buffer s (fst (stream_add_content s h))"
proof -
  have "same_buffer s (ss_seekg p (snd (ss_tellg (ss_seekg_end (snd (ss_tellg s))))))" for p
    using same_buffer_ops same_buffer_trans by metis
  then show ?thesis using same_buffer_ops same_buffer_trans
    by (auto simp: stream_add_content_def Let_def split: prod.split) (metis snd_conv)+
qed

lemma stream_add_content_shrinks:
  assumes "ss_ok s" "length (ss_str s) < 2 ^ 31" "\<not> ss_eof s"
  shows "left_over (fst (stream_add_content s h)) < left_over s"
proof (cases "ss_good s")
  case True
  have l: "length (ss_rest s) < 2 ^ 31" using assms(2) by (simp add: ss_rest_def)
  show ?thesis
  proof (cases "ss_rest s = []")
    case True
    then show ?thesis using \<open>ss_good s\<close> assms by (simp add: add_content_end left_over_def)
  next
    case False
    then show ?thesis using add_content_more [OF \<open>ss_good s\<close> assms(1) False l, of h] assms(3)
      by (simp add: left_over_def) (simp add: ss_rest_def)
  qed
next
  case False
  then show ?thesis using assms(3) by (simp add: add_content_bad left_over_def)
qed


lemma tellg_left [simp]: "left_over (snd (ss_tellg s)) = left_over s" "ss_eof (snd (ss_tellg s)) = ss_eof s"
  by (simp_all add: ss_tellg_def ss_sentry_def left_over_def ss_rest_def Let_def)

lemma tellg_leftD: "ss_tellg s = (p, s') \<Longrightarrow> left_over s' = left_over s"
  by (metis snd_conv tellg_left(1))

lemma wait_command_turn:
  "wait_command t = (r, t') \<Longrightarrow> same_buffer (t_in t) (t_in t') \<and> t_out t' = t_out t \<and> t_seen t' = t_seen t \<and>
     (r = Next \<longrightarrow> rank (rq_state (t_req t')) = 3)"
  by (auto simp: wait_command_def rank_def split: sum.splits prod.splits dest: next_line_same)

lemma wait_header_turn:
  "wait_header e t = (r, t') \<Longrightarrow> rq_state (t_req t) = WAIT_HEADER \<Longrightarrow>
     same_buffer (t_in t) (t_in t') \<and> t_out t' = t_out t \<and> t_seen t' = t_seen t \<and>
     (r = Next \<longrightarrow> rank (rq_state (t_req t')) = 2 \<or>
        rank (rq_state (t_req t')) = 3 \<and> left_over (t_in t') < left_over (t_in t))"
  by (auto simp: wait_header_def rank_def Let_def split: sum.splits prod.splits if_splits option.splits
      dest: next_line_same next_line_shrinks)

lemma receiving_data_same:
  assumes "receiving_data t = (r, t')"
  shows "same_buffer (t_in t) (t_in t') \<and> t_out t' = t_out t \<and> t_seen t' = t_seen t"
proof -
  have "same_buffer (t_in t) (snd (ss_tellg (fst (stream_add_content (snd (ss_tellg (t_in t))) h))))" for h
    using same_buffer_ops(1) stream_add_content_same same_buffer_trans by metis
  then show ?thesis using assms
    by (auto simp: receiving_data_def Let_def split: prod.splits if_splits) (metis fst_conv snd_conv)+
qed

lemma receiving_data_turn:
  assumes "receiving_data t = (Next, t')" "rq_state (t_req t) = RECEIVING_DATA"
    and "ss_ok (t_in t)" "length (ss_str (t_in t)) < 2 ^ 31"
  shows "rank (rq_state (t_req t')) = 1 \<or>
    rank (rq_state (t_req t')) = 2 \<and> left_over (t_in t') < left_over (t_in t)"
proof -
  let ?i = "snd (ss_tellg (t_in t))"
  let ?j = "fst (stream_add_content ?i (rq_req (t_req t)))"
  have "left_over (snd (ss_tellg ?j)) < left_over (t_in t)" if "\<not> ss_eof (t_in t)"
    using stream_add_content_shrinks [of ?i] that assms(3,4) by simp
  then show ?thesis using assms(1,2)
    by (auto simp: receiving_data_def rank_def Let_def split: prod.splits if_splits dest: tellg_leftD)
qed

lemma process_request_turn:
  "process_request f t = (r, t') \<Longrightarrow> t_in t' = t_in t \<and> (ss_ok (t_out t) \<longrightarrow> ss_ok (t_out t')) \<and>
     rank (rq_state (t_req t')) = 0"
  by (auto simp: process_request_def rank_def Let_def split: option.splits)

lemma turn_same:
  assumes "turn C t = (r, t')"
  shows "same_buffer (t_in t) (t_in t') \<and> (ss_ok (t_out t) \<longrightarrow> ss_ok (t_out t'))"
  using assms wait_command_turn [of t r t'] wait_header_turn [of "hc_env C" t r t'] receiving_data_same [of t r t']
    process_request_turn [of "request_handler C" t r t']
  by (auto simp: turn_def closing_def split: http_states.splits)

lemma turns_same:
  "turns C t = Some y \<Longrightarrow> same_buffer (t_in t) (t_in (snd y)) \<and> (ss_ok (t_out t) \<longrightarrow> ss_ok (t_out (snd y)))"
proof (rule turns.raw_induct [where P = "\<lambda>C t y. same_buffer (t_in t) (t_in (snd y)) \<and>
      (ss_ok (t_out t) \<longrightarrow> ss_ok (t_out (snd y)))"], goal_cases)
  case (1 f C t y)
  obtain r1 t1 where t: "turn C t = (r1, t1)" by fastforce
  show ?case using 1(2) [of C t1 y] 1(3) turn_same [OF t]
    by (cases "r1 = Next") (auto simp: t intro: same_buffer_trans)
qed

lemma turn_shrinks:
  assumes "turn C t = (Next, t')" "ss_ok (t_in t)" "length (ss_str (t_in t)) < 2 ^ 31"
  shows "((rank (rq_state (t_req t')), left_over (t_in t')), (rank (rq_state (t_req t)), left_over (t_in t)))
      \<in> less_than <*lex*> less_than"
  using assms wait_command_turn [of t Next t'] wait_header_turn [of "hc_env C" t Next t']
    receiving_data_turn [of t t'] process_request_turn [of "request_handler C" t Next t']
  by (auto simp: turn_def closing_def rank_def split: http_states.splits)

lemma turns_return:
  assumes "ss_ok (t_in t)" "length (ss_str (t_in t)) < 2 ^ 31"
  shows "\<exists>r t'. turns C t = Some (r, t') \<and> r \<noteq> Next"
  using assms
proof (induction "(rank (rq_state (t_req t)), left_over (t_in t))" arbitrary: t
    rule: wf_induct_rule [OF wf_lex_prod [OF wf_less_than wf_less_than]])
  case (1 t)
  obtain r t' where t: "turn C t = (r, t')" by fastforce
  show ?case
  proof (cases "r = Next")
    case True
    have "ss_ok (t_in t')" "length (ss_str (t_in t')) < 2 ^ 31"
      using turn_same [OF t] 1(2,3) by (simp_all add: same_buffer_def)
    with 1(1) [of t'] turn_shrinks [of C t t'] 1(2,3) t True show ?thesis by (subst turns.simps) auto
  next
    case False
    then show ?thesis using t by (subst turns.simps) auto
  qed
qed

lemma process_data_same:
  assumes "process_data C c i out srv = Some (r, i', out', srv')"
  shows "same_buffer i i'" "ss_ok out \<Longrightarrow> ss_ok out'"
  using assms by (auto simp: process_data_def Let_def split: if_splits option.splits dest!: turns_same)

interpretation http_stream: stream_handler "http_handler C" for C
  by unfold_locales
    (auto simp: http_handler_def same_buffer_def split: option.splits dest: process_data_same)


subsection \<open>Running the machine\<close>

lemma turns_step: "turn C t = (Next, t') \<Longrightarrow> turns C t = turns C t'"
  by (subst turns.simps) simp

lemma turns_stop: "turn C t = (r, t') \<Longrightarrow> r \<noteq> Next \<Longrightarrow> turns C t = Some (r, t')"
  by (subst turns.simps) simp

definition advance :: "nat \<Rightarrow> sstream \<Rightarrow> sstream" where
  "advance n s = s\<lparr>ss_get := ss_get s + n\<rparr>"

lemma advance_simps [simp]:
  "ss_good (advance n s) = ss_good s" "ss_rest (advance n s) = drop n (ss_rest s)"
  "ss_str (advance n s) = ss_str s" "ss_get (advance n s) = ss_get s + n" "advance 0 s = s"
  "advance n (advance m s) = advance (m + n) s" "ss_eof (advance n s) = ss_eof s"
  "ss_fail (advance n s) = ss_fail s"
  by (simp_all add: advance_def ss_good_def ss_rest_def add.commute add.assoc)

lemma advance_ok: "ss_ok s \<Longrightarrow> n \<le> length (ss_rest s) \<Longrightarrow> ss_ok (advance n s)"
  by (auto simp: ss_ok_def ss_rest_def advance_def)

definition line :: "string \<Rightarrow> string" where
  "line l = l @ [CHR 0x0A]"

lemma next_line_advance:
  "ss_good s \<Longrightarrow> ss_rest s = line l @ r \<Longrightarrow> CHR 0x0A \<notin> set l \<Longrightarrow>
     next_line to_pos s = Inr (l, advance (length (line l)) s)"
  using next_line_line [of s l r to_pos] by (simp add: line_def advance_def)

definition header_text :: "string list \<Rightarrow> string" where
  "header_text hs = concat (map line hs)"

definition header_line_ok :: "string \<Rightarrow> bool" where
  "header_line_ok l = (CHR 0x0A \<notin> set l \<and> trim l \<noteq> [])"

text \<open>What a full line does to a request that still waits for its head.\<close>

definition feed :: "env \<Rightarrow> string \<Rightarrow> request \<Rightarrow> request" where
  "feed e l q = (if rq_state q = WAIT_COMMAND
     then q\<lparr>rq_req := parse_command l (rq_req q), rq_state := WAIT_HEADER\<rparr>
     else q\<lparr>rq_req := set_header_line e (trim l) (rq_req q)\<rparr>)"

definition in_head :: "request \<Rightarrow> bool" where
  "in_head q = (rq_state q = WAIT_COMMAND \<or> rq_state q = WAIT_HEADER)"

lemma feed_in_head [simp]:
  "in_head q \<Longrightarrow> in_head (feed e l q)" "data_size (feed e l q) = data_size q" "data_readed (feed e l q) = data_readed q"
  by (auto simp: feed_def in_head_def)

lemma fold_feed [simp]:
  "in_head q \<Longrightarrow> in_head (fold (feed e) ls q)" "data_size (fold (feed e) ls q) = data_size q"
  "data_readed (fold (feed e) ls q) = data_readed q"
  by (induction ls arbitrary: q) simp_all

lemma fold_feed_state: "in_head q \<Longrightarrow> ls \<noteq> [] \<Longrightarrow> rq_state (fold (feed e) ls q) = WAIT_HEADER"
proof (induction ls arbitrary: q)
  case (Cons l ls)
  have "rq_state (feed e l q) = WAIT_HEADER" using Cons.prems by (auto simp: feed_def in_head_def)
  then show ?case using Cons.IH [of "feed e l q"] Cons.prems by (cases ls) simp_all
qed simp

lemma turns_lines:
  assumes "in_head (t_req t)" "ss_good (t_in t)" "ss_rest (t_in t) = header_text ls @ r" "list_all header_line_ok ls"
  shows "turns C t = turns C (t\<lparr>t_in := advance (length (header_text ls)) (t_in t),
    t_req := fold (feed (hc_env C)) ls (t_req t)\<rparr>)"
  using assms
proof (induction ls arbitrary: t)
  case Nil
  then show ?case by (simp add: header_text_def)
next
  case (Cons l ls)
  let ?t = "t\<lparr>t_in := advance (length (line l)) (t_in t), t_req := feed (hc_env C) l (t_req t)\<rparr>"
  have r: "ss_rest (t_in t) = line l @ header_text ls @ r" using Cons.prems(3) by (simp add: header_text_def)
  have "turns C t = turns C ?t"
    using next_line_advance [OF Cons.prems(2) r] Cons.prems(1,4)
    by (intro turns_step)
      (auto simp: turn_def wait_command_def wait_header_def header_line_ok_def feed_def in_head_def)
  also have "\<dots> = turns C (?t\<lparr>t_in := advance (length (header_text ls)) (t_in ?t),
    t_req := fold (feed (hc_env C)) ls (t_req ?t)\<rparr>)"
    using Cons.prems r by (intro Cons.IH) simp_all
  finally show ?case by (simp add: header_text_def)
qed

lemma set_header_line_Nil [simp]: "set_header_line e [] h = h"
  by (simp add: set_header_line_def find_char_def find_from_def)

text \<open>The length the headers declare; \<^const>\<open>None\<close> if it is not a number.\<close>

definition declared :: "http_request \<Rightarrow> 64 word option" where
  "declared r = (let len = get_header ''Content-Length'' r in if len = [] then Some 0 else from_string_size len)"

lemma turns_blank:
  assumes "rq_state (t_req t) = WAIT_HEADER" "data_size (t_req t) = 0"
    and "next_line to_int32 (t_in t) = Inr (b, i)" "trim b = []" "declared (rq_req (t_req t)) = Some n"
  shows "turns C t = turns C (t\<lparr>t_in := i, t_req := (t_req t)\<lparr>data_size := n, rq_state := RECEIVING_DATA\<rparr>\<rparr>)"
proof -
  have "(t_req t)\<lparr>data_size := 0\<rparr> = t_req t" using assms(2) by (cases "t_req t") simp
  then show ?thesis using assms
    by (intro turns_step) (auto simp: turn_def wait_header_def declared_def Let_def split: if_splits)
qed

definition with_body :: "string \<Rightarrow> http_request \<Rightarrow> http_request" where
  "with_body b r = (if b = [] then r else snd (add_content_n (int (length b)) (open_stream b) r))"

text \<open>An exhausted stream: \<open>tellg\<close> answers -1, and the count of received bytes wraps below zero.\<close>

lemma wrapped_count:
  assumes "k \<le> p" "p < 2 ^ 31" "n < 2 ^ 63"
  shows "(of_nat k :: 64 word) + - 1 - of_nat p \<ge> n"
proof -
  define m where "m = p - k + 1"
  have m: "m \<le> 2 ^ 64" "0 < m" "m \<le> 2 ^ 31" using assms(2) by (simp_all add: m_def)
  have "(of_nat k :: 64 word) + - 1 - of_nat p = - of_nat m"
    using assms(1) by (simp add: m_def of_nat_diff)
  also have "\<dots> = of_nat (2 ^ 64 - m)" using m(1) by (simp add: of_nat_diff)
  finally have e: "(of_nat k :: 64 word) + - 1 - of_nat p = of_nat (2 ^ 64 - m)" .
  have "unat (of_nat (2 ^ 64 - m) :: 64 word) = 2 ^ 64 - m" unfolding unat_of_nat using m by simp
  moreover have "unat n < 2 ^ 63" using assms(3) by (simp add: word_less_nat_alt)
  ultimately show ?thesis unfolding e word_le_nat_alt using m(3) by simp
qed

lemma turns_exhausted:
  assumes "rq_state (t_req u) = RECEIVING_DATA" "0 < data_size (t_req u)" "data_size (t_req u) < 2 ^ 63"
    and "ss_good (t_in u)" "ss_ok (t_in u)" "ss_rest (t_in u) = []" "ss_get (t_in u) < 2 ^ 31"
    and "data_readed (t_req u) = of_nat k" "k \<le> ss_get (t_in u)"
  shows "turns C u = turns C (u\<lparr>t_in := (t_in u)\<lparr>ss_eof := True, ss_fail := True\<rparr>, t_req := (t_req u)\<lparr>
    data_readed := of_nat k + - 1 - of_nat (ss_get (t_in u)), rq_state := PROCESS_REQUEST\<rparr>\<rparr>)"
proof -
  have "data_size (t_req u) \<le> data_readed (t_req u) + - 1 - of_nat (ss_get (t_in u))"
    using wrapped_count [OF assms(9,7,3)] assms(8) by simp
  then show ?thesis using assms(1,2,4-6,8)
    by (intro turns_step)
      (simp add: turn_def receiving_data_def tellg_good add_content_end tellg_bad ss_good_def)
qed

lemma request_upd_comm: "q\<lparr>rq_req := r, data_readed := d, rq_state := s\<rparr> = q\<lparr>data_readed := d, rq_req := r, rq_state := s\<rparr>"
  by (cases q) simp

lemma turns_body:
  assumes "rq_state (t_req t) = RECEIVING_DATA" "0 < data_size (t_req t)" "data_size (t_req t) < 2 ^ 63"
    and "data_readed (t_req t) = 0" "ss_good (t_in t)" "ss_ok (t_in t)" "length (ss_str (t_in t)) < 2 ^ 31"
  shows "\<exists>i d. turns C t = turns C (t\<lparr>t_in := i, t_req := (t_req t)\<lparr>data_readed := d,
    rq_req := with_body (ss_rest (t_in t)) (rq_req (t_req t)), rq_state := PROCESS_REQUEST\<rparr>\<rparr>)"
proof (cases "ss_rest (t_in t) = []")
  case True
  moreover have "ss_get (t_in t) < 2 ^ 31" using assms(6,7) by (simp add: ss_ok_def)
  moreover have "(t_req t)\<lparr>rq_req := rq_req (t_req t)\<rparr> = t_req t" by (cases "t_req t") simp
  ultimately show ?thesis using turns_exhausted [of t 0 C] assms unfolding with_body_def by force
next
  case False
  let ?i = "t_in t" and ?q = "t_req t"
  let ?b = "ss_rest ?i"
  let ?j = "?i\<lparr>ss_get := length (ss_str ?i)\<rparr>"
  have l: "length ?b < 2 ^ 31" "length ?b \<le> length (ss_str ?i)"
    "int (length (ss_str ?i)) - int (ss_get ?i) = int (length ?b)"
    using assms(6,7) by (auto simp: ss_rest_def ss_ok_def)
  have j: "ss_good ?j" "ss_ok ?j" "ss_rest ?j = []"
    using assms(5,6) by (auto simp: ss_good_def ss_ok_def ss_rest_def)
  define q where "q = ?q\<lparr>data_readed := of_nat (length ?b), rq_req := with_body ?b (rq_req ?q)\<rparr>"
  have c: "(of_nat (length (ss_str ?i)) - of_nat (ss_get ?i) :: 64 word) = of_nat (length ?b)"
    using assms(6) by (simp add: ss_ok_def ss_rest_def of_nat_diff)
  have "turn C t = (Next, t\<lparr>t_in := ?j,
      t_req := (if data_size q \<le> data_readed q then q\<lparr>rq_state := PROCESS_REQUEST\<rparr> else q)\<rparr>)"
    using assms(1,2,4,5) add_content_more [OF assms(5,6) False l(1)] j(1) False c
    by (simp add: turn_def receiving_data_def tellg_good ss_good_def q_def with_body_def Let_def)
  then have 1: "turns C t = turns C (t\<lparr>t_in := ?j,
      t_req := (if data_size q \<le> data_readed q then q\<lparr>rq_state := PROCESS_REQUEST\<rparr> else q)\<rparr>)"
    by (rule turns_step)
  show ?thesis
  proof (cases "data_size q \<le> data_readed q")
    case True
    with 1 show ?thesis
      by (intro exI [of _ ?j] exI [of _ "of_nat (length ?b)"]) (simp add: q_def)
  next
    case short: False
    have "turns C (t\<lparr>t_in := ?j, t_req := q\<rparr>) = turns C ((t\<lparr>t_in := ?j, t_req := q\<rparr>)\<lparr>
        t_in := ?j\<lparr>ss_eof := True, ss_fail := True\<rparr>, t_req := q\<lparr>
        data_readed := of_nat (length ?b) + - 1 - of_nat (ss_get ?j), rq_state := PROCESS_REQUEST\<rparr>\<rparr>)"
      using turns_exhausted [of "t\<lparr>t_in := ?j, t_req := q\<rparr>" "length ?b" C] assms j l by (simp add: q_def)
    with 1 short show ?thesis
      by (intro exI [of _ "?j\<lparr>ss_eof := True, ss_fail := True\<rparr>"]
          exI [of _ "of_nat (length ?b) + - 1 - of_nat (ss_get ?j)"])
        (simp add: q_def request_upd_comm)
  qed
qed

lemma turns_answer:
  assumes "rq_state (t_req t) = PROCESS_REQUEST" "request_handler C = Some f"
    and "response_print (f (rq_req (t_req t))) = Some s"
  shows "turns C t = Some (Finish (get_header ''Connection'' (rq_req (t_req t)) = ''keep-alive''),
    t\<lparr>t_req := (t_req t)\<lparr>rq_state := HTTP_CLOSING\<rparr>, t_seen := t_seen t @ [rq_req (t_req t)],
      t_out := ss_write (http_version (rq_req (t_req t)) @ '' '' @ get_status (f (rq_req (t_req t))) @ [CHR 0x0A] @ s)
        (t_out t)\<rparr>)"
proof -
  let ?t = "t\<lparr>t_req := (t_req t)\<lparr>rq_state := HTTP_CLOSING\<rparr>, t_seen := t_seen t @ [rq_req (t_req t)],
      t_out := ss_write (http_version (rq_req (t_req t)) @ '' '' @ get_status (f (rq_req (t_req t))) @ [CHR 0x0A] @ s)
        (t_out t)\<rparr>"
  have "turn C t = (Next, ?t)" using assms by (simp add: turn_def process_request_def Let_def)
  moreover have "turns C ?t = Some (Finish (get_header ''Connection'' (rq_req (t_req t)) = ''keep-alive''), ?t)"
    by (rule turns_stop) (simp_all add: turn_def closing_def)
  ultimately show ?thesis using turns_step by metis
qed


subsection \<open>A whole request in the buffer\<close>

definition head_of :: "http_conf \<Rightarrow> string list \<Rightarrow> request" where
  "head_of C ls = fold (feed (hc_env C)) ls (request_new (hc_method C))"

definition delivered :: "64 word \<Rightarrow> string \<Rightarrow> http_request \<Rightarrow> http_request" where
  "delivered n b r = (if n = 0 then r else with_body b r)"

lemma head_of_simps [simp]:
  "in_head (head_of C ls)" "data_size (head_of C ls) = 0" "data_readed (head_of C ls) = 0"
  "ls \<noteq> [] \<Longrightarrow> rq_state (head_of C ls) = WAIT_HEADER" "head_of C [] = request_new (hc_method C)"
  by (simp_all add: head_of_def request_new_def fold_feed_state in_head_def)
    (use fold_feed(1) in \<open>force simp: in_head_def\<close>)

text \<open>The state of a call, with the output and the record of requests left open.\<close>

lemma turns_head:
  assumes "ss_good i" "ss_rest i = header_text ls @ r" "list_all header_line_ok ls"
  shows "turns C \<lparr>t_req = request_new (hc_method C), t_in = i, t_out = out, t_seen = sn\<rparr> =
    turns C \<lparr>t_req = head_of C ls, t_in = advance (length (header_text ls)) i, t_out = out, t_seen = sn\<rparr>"
  using turns_lines [of "\<lparr>t_req = request_new (hc_method C), t_in = i, t_out = out, t_seen = sn\<rparr>" ls r C] assms
  by (simp add: head_of_def in_head_def request_new_def)

lemma turns_delivers:
  assumes "ss_good i" "ss_ok i" "length (ss_str i) < 2 ^ 31" "ss_rest i = header_text ls @ line blank @ b"
    and "list_all header_line_ok ls" "ls \<noteq> []" "CHR 0x0A \<notin> set blank" "trim blank = []"
    and "declared (rq_req (head_of C ls)) = Some n" "n < 2 ^ 63"
  shows "\<exists>j q. rq_state q = PROCESS_REQUEST \<and> rq_req q = delivered n b (rq_req (head_of C ls)) \<and>
    turns C \<lparr>t_req = request_new (hc_method C), t_in = i, t_out = out, t_seen = sn\<rparr> =
    turns C \<lparr>t_req = q, t_in = j, t_out = out, t_seen = sn\<rparr>"
proof -
  let ?T = "\<lambda>q j. \<lparr>t_req = q, t_in = j, t_out = out, t_seen = sn\<rparr>"
  let ?q2 = "head_of C ls"
  let ?q3 = "?q2\<lparr>data_size := n, rq_state := RECEIVING_DATA\<rparr>"
  define i2 i3 where i: "i2 = advance (length (header_text ls)) i" "i3 = advance (length (line blank)) i2"
  have g: "ss_good i2" "ss_good i3" "ss_rest i2 = line blank @ b" "ss_rest i3 = b"
    using assms(1,4) by (simp_all add: i)
  have o: "ss_ok i3" "ss_str i3 = ss_str i"
    using advance_ok [OF assms(2), of "length (header_text ls) + length (line blank)"] assms(4) by (simp_all add: i)
  have "turns C (?T ?q2 i2) = turns C (?T ?q3 i3)"
    using turns_blank [of "?T ?q2 i2" blank i3 n C] next_line_advance [OF g(1,3) assms(7), of to_int32] assms(6,8,9)
    by (simp add: i)
  then have 3: "turns C (?T (request_new (hc_method C)) i) = turns C (?T ?q3 i3)"
    using turns_head [OF assms(1,4,5)] i by simp
  show ?thesis
  proof (cases "n = 0")
    case True
    then have "turns C (?T ?q3 i3) = turns C (?T (?q3\<lparr>rq_state := PROCESS_REQUEST\<rparr>) i3)"
      by (intro turns_step) (simp add: turn_def receiving_data_def)
    with 3 True show ?thesis
      by (intro exI [of _ i3] exI [of _ "?q3\<lparr>rq_state := PROCESS_REQUEST\<rparr>"]) (simp add: delivered_def)
  next
    case False
    then obtain j d where "turns C (?T ?q3 i3) = turns C (?T (?q3\<lparr>data_readed := d,
        rq_req := with_body b (rq_req ?q2), rq_state := PROCESS_REQUEST\<rparr>) j)"
      using turns_body [of "?T ?q3 i3" C] assms(3,10) g o by (auto simp: word_neq_0_conv)
    with 3 False show ?thesis
      by (intro exI [of _ j] exI [of _ "?q3\<lparr>data_readed := d,
        rq_req := with_body b (rq_req ?q2), rq_state := PROCESS_REQUEST\<rparr>"]) (simp add: delivered_def)
  qed
qed


lemma with_body_body: "header_ok r \<Longrightarrow> content r = [] \<Longrightarrow> body (with_body b r) = b"
proof -
  assume r: "header_ok r" "content r = []"
  then have e: "body r = []" by (simp add: body_def)
  show ?thesis
  proof (cases "b = []")
    case False
    have "body (snd (add_content_n (int (length b)) (open_stream b) r)) = body r @ ibuf (open_stream b)"
      by (rule add_content_n_body(1)) (use False r in \<open>simp_all add: open_stream_def\<close>)
    then show ?thesis unfolding with_body_def e using False by (simp add: open_stream_def)
  qed (simp add: with_body_def e)
qed

lemma head_plain:
  "header_ok (rq_req q) \<and> content (rq_req q) = [] \<Longrightarrow>
     header_ok (rq_req (fold (feed e) ls q)) \<and> content (rq_req (fold (feed e) ls q)) = []"
proof (induction ls arbitrary: q)
  case (Cons l ls)
  have "content (set_header_line e (trim l) r) = content r" for r :: http_request
    by (simp add: set_header_line_def set_header_def add_cookie_def split: option.split)
  moreover have "header_ok (parse_command l r) = header_ok r" "content (parse_command l r) = content r" for r
    by (simp_all add: parse_command_def set_method_def header_ok_def split: option.split)
  ultimately show ?case using Cons.IH [of "feed e l q"] Cons.prems by (simp add: feed_def set_header_line_ok)
qed simp

lemma head_of_plain: "header_ok (rq_req (head_of C ls))" "content (rq_req (head_of C ls)) = []"
proof -
  have "header_ok (request_init m) \<and> content (request_init m) = []" for m
    by (simp add: request_init_def header_init_def header_ok_def http_header.extend_def)
  then show "header_ok (rq_req (head_of C ls))" "content (rq_req (head_of C ls)) = []"
    using head_plain [of "request_new (hc_method C)" "hc_env C" ls] by (simp_all add: head_of_def request_new_def)
qed

lemma delivered_body: "body (delivered n b (rq_req (head_of C ls))) = (if n = 0 then [] else b)"
  using with_body_body [of "rq_req (head_of C ls)" b] head_of_plain [of C ls]
  by (cases "n = 0") (simp_all add: delivered_def, simp add: body_def)

lemma request_served:
  assumes "ss_good i" "ss_ok i" "length (ss_str i) < 2 ^ 31" "ss_rest i = header_text ls @ line blank @ b"
    and "list_all header_line_ok ls" "ls \<noteq> []" "CHR 0x0A \<notin> set blank" "trim blank = []"
    and "declared (rq_req (head_of C ls)) = Some n" "n < 2 ^ 63" "http_reqs srv c = None"
    and "request_handler C = Some f" "r = delivered n b (rq_req (head_of C ls))" "response_print (f r) = Some s"
  shows "\<exists>j. process_data C c i out srv = Some (Finish (get_header ''Connection'' r = ''keep-alive''), j,
    ss_write (http_version r @ '' '' @ get_status (f r) @ [CHR 0x0A] @ s) out,
    \<lparr>http_reqs = http_reqs srv, seen = seen srv @ [r]\<rparr>)"
proof -
  obtain j q where q: "rq_state q = PROCESS_REQUEST" "rq_req q = r"
    and t: "turns C \<lparr>t_req = request_new (hc_method C), t_in = i, t_out = out, t_seen = seen srv\<rparr> =
      turns C \<lparr>t_req = q, t_in = j, t_out = out, t_seen = seen srv\<rparr>"
    using turns_delivers [OF assms(1-10)] assms(13) by blast
  have "(http_reqs srv)(c := None) = http_reqs srv" using assms(11) by (intro ext) simp
  then show ?thesis
    using turns_answer [of "\<lparr>t_req = q, t_in = j, t_out = out, t_seen = seen srv\<rparr>" C f s] assms(11,12,14) q t
    by (simp add: process_data_def store_request_def)
qed

subsection \<open>Requests that arrive in pieces\<close>

text \<open>In front of an unfinished line the machine waits; nothing changes, but for \<open>failbit\<close> when there is not even
  one character.\<close>

lemma turns_wait:
  assumes "in_head q" "ss_good i" "ss_ok i" "ss_get i < 2 ^ 31" "CHR 0x0A \<notin> set (ss_rest i)"
  shows "turns C \<lparr>t_req = q, t_in = i, t_out = out, t_seen = sn\<rparr> =
    Some (Wait, \<lparr>t_req = q, t_in = (if ss_rest i = [] then i\<lparr>ss_fail := True\<rparr> else i), t_out = out, t_seen = sn\<rparr>)"
proof -
  have "to_int32 (int (ss_get i)) = int (ss_get i)"
    using assms(4) by (intro to_int32_id) (simp add: is_int32_def INT_MIN_def INT_MAX_def)
  then show ?thesis using assms next_line_part [OF assms(2,3,5)]
    by (intro turns_stop) (auto simp: turn_def wait_command_def wait_header_def in_head_def)
qed


definition filled :: "string \<Rightarrow> sstream" where
  "filled a = ss_new\<lparr>ss_str := a, ss_put := length a\<rparr>"

lemma filled_simps [simp]:
  "ss_good (filled a)" "ss_ok (filled a)" "ss_rest (filled a) = a" "ss_str (filled a) = a" "ss_get (filled a) = 0"
  by (simp_all add: filled_def ss_new_def ss_good_def ss_ok_def ss_rest_def)

lemma filled_more: "ss_write b (ss_clear (advance n (filled a))) = advance n (filled (a @ b))"
  by (simp add: ss_write_def ss_clear_def filled_def ss_new_def ss_good_def advance_def)

lemma connection_new [simp]: "connection (tcp_request_new c) = c"
  by (simp add: tcp_request_new_def)

text \<open>What one read event with data does, up to the discarding of the buffer.\<close>

definition fill :: "string \<Rightarrow> tcp_request \<Rightarrow> tcp_request" where
  "fill a rq = rq\<lparr>write_buffer := ss_clear (write_buffer rq),
     read_buffer := ss_write a (ss_clear (read_buffer rq))\<rparr>"

lemma connection_read_data:
  "a \<noteq> [] \<Longrightarrow> connection_read (Some h) (Transferred a) rq srv =
     (let (ok, rq, srv) = run_handler h (fill a rq) srv in (ok, if ok then discard_read rq else rq, srv))"
  by (simp add: connection_read_def socket_read_def io_error_def fill_def)

lemma fill_new:
  "fill a (tcp_request_new c) = (tcp_request_new c)\<lparr>write_buffer := ss_new, read_buffer := filled a\<rparr>"
  by (simp add: fill_def tcp_request_new_def ss_clear_def ss_new_def ss_write_def filled_def ss_good_def)

lemma run_waits:
  assumes "process_data C (connection rq) (read_buffer rq) (write_buffer rq) srv =
    Some (Wait, i, write_buffer rq, srv')"
  shows "run_handler (http_handler C) rq srv = (True, rq\<lparr>read_buffer := i\<rparr>, srv')"
  using assms by (cases rq) (simp add: run_handler_def http_handler_def)

lemma process_first_piece:
  assumes "list_all header_line_ok ls" "CHR 0x0A \<notin> set p" "length (header_text ls) < 2 ^ 31"
    and "http_reqs srv c = None" "request_handler C \<noteq> None"
  shows "process_data C c (filled (header_text ls @ p)) out srv =
    Some (Wait, (let i = advance (length (header_text ls)) (filled (header_text ls @ p))
                 in if p = [] then i\<lparr>ss_fail := True\<rparr> else i),
      out, \<lparr>http_reqs = (http_reqs srv)(c := Some (head_of C ls)), seen = seen srv\<rparr>)"
proof -
  let ?i = "filled (header_text ls @ p)"
  have "ss_ok (advance (length (header_text ls)) ?i)" by (rule advance_ok) simp_all
  then show ?thesis
    using turns_head [of ?i ls p C out "seen srv"] turns_wait [of "head_of C ls" "advance (length (header_text ls)) ?i"
        C out "seen srv"] assms
    by (simp add: process_data_def store_request_def Let_def)
qed

lemma process_again:
  assumes "CHR 0x0A \<notin> set p" "p \<noteq> []" "length (header_text ls) < 2 ^ 31"
    and "http_reqs srv c = Some (head_of C ls)" "request_handler C \<noteq> None"
  shows "process_data C c (advance (length (header_text ls)) (filled (header_text ls @ p))) out srv =
    Some (Wait, advance (length (header_text ls)) (filled (header_text ls @ p)), out, srv)"
proof -
  let ?i = "advance (length (header_text ls)) (filled (header_text ls @ p))"
  have "ss_ok ?i" by (rule advance_ok) simp_all
  moreover have "(http_reqs srv)(c := Some (head_of C ls)) = http_reqs srv" using assms(4) by (intro ext) simp
  ultimately show ?thesis
    using turns_wait [of "head_of C ls" ?i C out "seen srv"] assms
    by (simp add: process_data_def store_request_def)
qed


text \<open>A piece that ends inside a line: after the read event and the worker's turn the connection stands before
  the unfinished line, with nothing lost.\<close>

definition paused :: "int \<Rightarrow> string list \<Rightarrow> string \<Rightarrow> tcp_request" where
  "paused c ls p = (tcp_request_new c)\<lparr>write_buffer := ss_new,
     read_buffer := advance (length (header_text ls)) (filled (header_text ls @ p))\<rparr>"

lemma read_inside_line:
  assumes "list_all header_line_ok ls" "CHR 0x0A \<notin> set p" "p \<noteq> []" "length (header_text ls) < 2 ^ 31"
    and "http_reqs srv c = None" "request_handler C \<noteq> None"
  shows "connection_read (Some (http_handler C)) (Transferred (header_text ls @ p)) (tcp_request_new c) srv =
    (True, paused c ls p, \<lparr>http_reqs = (http_reqs srv)(c := Some (head_of C ls)), seen = seen srv\<rparr>)"
proof -
  let ?rq = "fill (header_text ls @ p) (tcp_request_new c)"
  have c: "connection ?rq = c" "write_buffer ?rq = ss_new" "read_buffer ?rq = filled (header_text ls @ p)"
    by (simp_all add: fill_new)
  have r: "run_handler (http_handler C) ?rq srv =
      (True, paused c ls p, \<lparr>http_reqs = (http_reqs srv)(c := Some (head_of C ls)), seen = seen srv\<rparr>)"
    using run_waits [of C ?rq srv] process_first_piece [OF assms(1,2,4-6)] assms(3) unfolding c
    by (simp add: paused_def fill_new)
  have "discard_read (paused c ls p) = paused c ls p"
    using assms(3) by (simp add: discard_read_def paused_def tellg_good ss_tellp_def ss_failed_def)
      (simp add: filled_def advance_def ss_new_def)
  then show ?thesis using assms(3) r by (simp add: connection_read_data)
qed

lemma work_inside_line:
  assumes "CHR 0x0A \<notin> set p" "p \<noteq> []" "length (header_text ls) < 2 ^ 31"
    and "http_reqs srv c = Some (head_of C ls)" "request_handler C \<noteq> None"
  shows "run_handler (http_handler C) (paused c ls p) srv = (True, paused c ls p, srv)"
proof -
  have c: "connection (paused c ls p) = c" "write_buffer (paused c ls p) = ss_new"
    "read_buffer (paused c ls p) = advance (length (header_text ls)) (filled (header_text ls @ p))"
    by (simp_all add: paused_def tcp_request_new_def)
  show ?thesis using run_waits [of C "paused c ls p" srv] process_again [OF assms] unfolding c
    by (simp add: paused_def)
qed

lemma store_request_found:
  "r \<noteq> Throws \<Longrightarrow> store_request c r q' (m(c := q)) = store_request c r q' m"
  by (cases r) (simp_all add: store_request_def)

lemma process_resumed:
  assumes "list_all header_line_ok ls" "length (header_text ls @ p) < 2 ^ 31"
    and "http_reqs srv c = None" "request_handler C \<noteq> None"
    and "srv1 = \<lparr>http_reqs = (http_reqs srv)(c := Some (head_of C ls)), seen = seen srv\<rparr>"
  shows "\<exists>r i' out' s s'. r \<noteq> Next \<and> process_data C c (filled (header_text ls @ p)) out srv = Some (r, i', out', s) \<and>
    process_data C c (advance (length (header_text ls)) (filled (header_text ls @ p))) out srv1 = Some (r, i', out', s') \<and>
    seen s = seen s' \<and> (r \<noteq> Throws \<longrightarrow> s = s')"
proof -
  let ?i = "filled (header_text ls @ p)"
  let ?T = "\<lambda>q j. \<lparr>t_req = q, t_in = j, t_out = out, t_seen = seen srv\<rparr>"
  obtain r t where t: "turns C (?T (request_new (hc_method C)) ?i) = Some (r, t)" "r \<noteq> Next"
    using turns_return [of "?T (request_new (hc_method C)) ?i" C] assms(2) by auto
  moreover have "turns C (?T (head_of C ls) (advance (length (header_text ls)) ?i)) = Some (r, t)"
    using turns_head [of ?i ls p C out "seen srv"] assms(1) t by simp
  ultimately show ?thesis using assms(3-5) store_request_found by (auto simp: process_data_def)
qed

lemma split_resumed:
  assumes "list_all header_line_ok ls" "length (header_text ls @ p @ b) < 2 ^ 31" "p \<noteq> []" "b \<noteq> []"
    and "http_reqs srv c = None" "request_handler C \<noteq> None"
    and "srv1 = \<lparr>http_reqs = (http_reqs srv)(c := Some (head_of C ls)), seen = seen srv\<rparr>"
    and "connection_read (Some (http_handler C)) (Transferred b) (paused c ls p) srv1 = (ok1, rq1, s1)"
    and "connection_read (Some (http_handler C)) (Transferred (header_text ls @ p @ b)) (tcp_request_new c) srv = (ok2, rq2, s2)"
  shows "ok1 = ok2 \<and> rq1 = rq2 \<and> seen s1 = seen s2 \<and> (ok1 \<longrightarrow> s1 = s2)"
proof -
  let ?H = "header_text ls" and ?f = "http_handler C"
  let ?rq = "(tcp_request_new c)\<lparr>write_buffer := ss_new\<rparr>"
  have 1: "fill b (paused c ls p) = ?rq\<lparr>read_buffer := advance (length ?H) (filled (?H @ p @ b))\<rparr>"
    using filled_more [of b "length ?H" "?H @ p"] by (simp add: fill_def paused_def) (simp add: ss_clear_def ss_new_def)
  have 2: "fill (?H @ p @ b) (tcp_request_new c) = ?rq\<lparr>read_buffer := filled (?H @ p @ b)\<rparr>"
    by (simp add: fill_new)
  obtain r i' out' s s' where "r \<noteq> Next" "process_data C c (filled (?H @ p @ b)) ss_new srv = Some (r, i', out', s)"
    "process_data C c (advance (length ?H) (filled (?H @ p @ b))) ss_new srv1 = Some (r, i', out', s')"
    "seen s = seen s'" "r \<noteq> Throws \<longrightarrow> s = s'"
    using process_resumed [OF assms(1,2,5-7)] by blast
  then have "\<exists>rq ok. run_handler ?f (fill (?H @ p @ b) (tcp_request_new c)) srv = (ok, rq, s) \<and>
      run_handler ?f (fill b (paused c ls p)) srv1 = (ok, rq, s') \<and> seen s = seen s' \<and> (ok \<longrightarrow> s = s')"
    unfolding 1 2 by (cases r) (auto simp: run_handler_def http_handler_def Let_def)
  then show ?thesis using assms(3,4,8,9) by (auto simp: connection_read_data split: if_splits)
qed


text \<open>A piece that ends after a line: the failed read leaves \<open>failbit\<close>, the buffer is discarded, and the worker
  takes the next failed read for the empty line.\<close>

lemma read_after_line:
  assumes "list_all header_line_ok ls" "ls \<noteq> []" "length (header_text ls) < 2 ^ 31"
    and "http_reqs srv c = None" "request_handler C \<noteq> None"
  shows "connection_read (Some (http_handler C)) (Transferred (header_text ls)) (tcp_request_new c) srv =
    (True, (tcp_request_new c)\<lparr>write_buffer := ss_new, read_buffer := ss_new\<lparr>ss_fail := True\<rparr>\<rparr>,
     \<lparr>http_reqs = (http_reqs srv)(c := Some (head_of C ls)), seen = seen srv\<rparr>)"
proof -
  let ?rq = "fill (header_text ls) (tcp_request_new c)"
  let ?i = "(advance (length (header_text ls)) (filled (header_text ls)))\<lparr>ss_fail := True\<rparr>"
  have c: "connection ?rq = c" "write_buffer ?rq = ss_new" "read_buffer ?rq = filled (header_text ls)"
    by (simp_all add: fill_new)
  have r: "run_handler (http_handler C) ?rq srv = (True, ?rq\<lparr>read_buffer := ?i\<rparr>,
      \<lparr>http_reqs = (http_reqs srv)(c := Some (head_of C ls)), seen = seen srv\<rparr>)"
    using run_waits [of C ?rq srv] process_first_piece [OF assms(1) _ assms(3-5), of "[]"] unfolding c by simp
  have "discard_read (?rq\<lparr>read_buffer := ?i\<rparr>) =
      (tcp_request_new c)\<lparr>write_buffer := ss_new, read_buffer := ss_new\<lparr>ss_fail := True\<rparr>\<rparr>"
    by (simp add: discard_read_def tellg_bad ss_good_def ss_tellp_def ss_failed_def fill_new)
      (simp add: ss_reset_def filled_def advance_def ss_new_def)
  moreover have "header_text ls \<noteq> []" using assms(2) by (cases ls) (simp_all add: header_text_def line_def)
  ultimately show ?thesis using r by (simp add: connection_read_data)
qed

lemma process_after_failure:
  assumes "ss_fail i" "\<not> ss_eof i" "http_reqs srv c = Some (head_of C ls)" "ls \<noteq> []"
    and "declared (rq_req (head_of C ls)) = Some 0" "request_handler C = Some f"
    and "response_print (f (rq_req (head_of C ls))) = Some s"
  shows "\<exists>j out'. process_data C c i out srv = Some (Finish (get_header ''Connection'' (rq_req (head_of C ls)) = ''keep-alive''),
    j, out', \<lparr>http_reqs = (http_reqs srv)(c := None), seen = seen srv @ [rq_req (head_of C ls)]\<rparr>)"
proof -
  let ?T = "\<lambda>q. \<lparr>t_req = q, t_in = i\<lparr>ss_fail := True\<rparr>, t_out = out, t_seen = seen srv\<rparr>"
  let ?q = "(head_of C ls)\<lparr>data_size := 0, rq_state := RECEIVING_DATA\<rparr>"
  have "next_line to_int32 i = Inr ([], i\<lparr>ss_fail := True\<rparr>)"
    using assms(1,2) by (intro next_line_bad) (simp_all add: ss_good_def)
  then have "turns C \<lparr>t_req = head_of C ls, t_in = i, t_out = out, t_seen = seen srv\<rparr> = turns C (?T ?q)"
    using turns_blank [of "\<lparr>t_req = head_of C ls, t_in = i, t_out = out, t_seen = seen srv\<rparr>" "[]" _ 0 C] assms(4,5)
    by simp
  also have "\<dots> = turns C (?T (?q\<lparr>rq_state := PROCESS_REQUEST\<rparr>))"
    by (intro turns_step) (simp add: turn_def receiving_data_def)
  finally show ?thesis using turns_answer [of "?T (?q\<lparr>rq_state := PROCESS_REQUEST\<rparr>)" C f s] assms(3,6,7)
    by (simp add: process_data_def store_request_def)
qed


subsection \<open>Properties\<close>

text \<open>C28: \<open>process_data\<close> returns, or throws, for every state of the connection and every input buffer shorter
  than 2 GiB.\<close>
theorem process_data_returns:
  assumes "ss_ok i" "length (ss_str i) < 2 ^ 31"
  shows "\<exists>r i' out' srv'. process_data C c i out srv = Some (r, i', out', srv') \<and> r \<noteq> Next"
proof (cases "request_handler C")
  case (Some f)
  let ?t = "\<lparr>t_req = (case http_reqs srv c of None \<Rightarrow> request_new (hc_method C) | Some rq \<Rightarrow> rq), t_in = i,
    t_out = out, t_seen = seen srv\<rparr>"
  obtain r t where "turns C ?t = Some (r, t)" "r \<noteq> Next" using turns_return [of ?t C] assms by auto
  then show ?thesis using Some by (simp add: process_data_def)
qed (simp add: process_data_def)

text \<open>A server that answers every request with an empty page.\<close>

definition plain_conf :: http_conf where
  "plain_conf = \<lparr>hc_env = \<lparr>env_tz = 0, env_tm = gmtime 0, env_bool = False\<rparr>, hc_method = method_unknown,
     request_handler = Some (\<lambda>r. response_init)\<rparr>"

definition no_requests :: http_server where
  "no_requests = \<lparr>http_reqs = (\<lambda>_. None), seen = []\<rparr>"

theorem process_data_returns_witness:
  "\<exists>r i' out' srv'. process_data plain_conf 5 (filled ''GET'') ss_new no_requests = Some (r, i', out', srv') \<and> r \<noteq> Next"
  using process_data_returns [of "filled ''GET''" plain_conf 5 ss_new no_requests] by simp

text \<open>C6: A request whose head is in the buffer is answered in one call: the handler is called once, with the
  method, path and version of the first line, every header line, and as body everything that follows the
  empty line, if the headers declare a body.  How many bytes they declare plays no part: a body that has not
  arrived completely, or not at all, is passed on as it is, because reading at the end of the stream makes
  the count of received bytes wrap around.\<close>
theorem request_answered_in_one_call:
  assumes "ss_good i" "ss_ok i" "length (ss_str i) < 2 ^ 31"
    and "ss_rest i = header_text ls @ line blank @ b"
    and "list_all header_line_ok ls" "ls \<noteq> []" "CHR 0x0A \<notin> set blank" "trim blank = []"
    and "declared (rq_req (head_of C ls)) = Some n" "n < 2 ^ 63" "http_reqs srv c = None"
    and "request_handler C = Some f" "r = delivered n b (rq_req (head_of C ls))" "response_print (f r) = Some s"
  shows "(\<exists>j. process_data C c i out srv = Some (Finish (get_header ''Connection'' r = ''keep-alive''), j,
      ss_write (http_version r @ '' '' @ get_status (f r) @ [CHR 0x0A] @ s) out,
      \<lparr>http_reqs = http_reqs srv, seen = seen srv @ [r]\<rparr>)) \<and>
    body r = (if n = 0 then [] else b)"
  using request_served [OF assms(1-14), of out] delivered_body [of n b C ls] assms(13) by simp

text \<open>A head with a declared length of nine bytes.\<close>

definition nine_head :: "string list" where
  "nine_head = [''POST /form HTTP/1.1'', ''Content-Length: 9'']"

lemma size_9: "from_string_size ''9'' = Some 9"
  by (simp add: from_string_size_def strtol_sign_def is_space_def is_digit_def digit_val_def)

lemma nine_declared: "declared (rq_req (head_of plain_conf nine_head)) = Some 9"
proof -
  have c: "trim ''Content-Length: 9'' = ''Content-Length'' @ '': '' @ ''9''" "clean_pair (''Content-Length'', ''9'')"
    by code_simp+
  have "rq_req (head_of plain_conf nine_head) =
      header_put ''Content-Length'' ''9'' (rq_req (head_of plain_conf [''POST /form HTTP/1.1'']))"
    using set_header_line_pair [OF c(2)]
    by (simp add: head_of_def nine_head_def feed_def request_new_def c(1) del: append_Cons append.simps)
  then show ?thesis using get_header_put [OF head_of_plain(1)] size_9 by (simp add: declared_def)
qed

lemma plain_prints: "response_print response_init \<noteq> None"
  by code_simp

theorem request_answered_in_one_call_witness:
  "\<exists>keep j out' r. process_data plain_conf 5 (filled (header_text nine_head @ line [CHR 0x0D] @ ''x=1'')) ss_new no_requests =
     Some (Finish keep, j, out', \<lparr>http_reqs = (\<lambda>_. None), seen = [r]\<rparr>) \<and> body r = ''x=1''"
proof -
  obtain s where s: "response_print response_init = Some s" using plain_prints by blast
  have h: "list_all header_line_ok nine_head" "nine_head \<noteq> []" "CHR 0x0A \<notin> set [CHR 0x0D]" "trim [CHR 0x0D] = []"
    by code_simp+
  let ?i = "filled (header_text nine_head @ line [CHR 0x0D] @ ''x=1'')"
  have l: "length (ss_str ?i) < 2 ^ 31" by (simp add: nine_head_def header_text_def line_def)
  have c: "request_handler plain_conf = Some (\<lambda>r. response_init)" "http_reqs no_requests 5 = None" "(9 :: 64 word) < 2 ^ 63"
    "http_reqs no_requests = (\<lambda>_. None)" "seen no_requests = []"
    by (simp_all add: plain_conf_def no_requests_def)
  have "ss_rest ?i = header_text nine_head @ line [CHR 0x0D] @ ''x=1''" "(if (9 :: 64 word) = 0 then [] else ''x=1'') = ''x=1''"
    by simp_all
  with request_answered_in_one_call [OF filled_simps(1,2) l _ h nine_declared c(3,2,1) refl s, of "''x=1''" ss_new]
  show ?thesis unfolding c(4,5) append_Nil by metis
qed

text \<open>C9: Input that is cut inside a line of the head is not harmed: after the read event and the worker's turn
  nothing has been answered, the worker's turn changes nothing, and the next read event has the same effect
  as if all the data had come at once.\<close>
theorem split_inside_line_is_harmless:
  assumes "list_all header_line_ok ls" "CHR 0x0A \<notin> set p" "p \<noteq> []" "b \<noteq> []"
    and "length (header_text ls @ p @ b) < 2 ^ 31" "http_reqs srv c = None" "request_handler C \<noteq> None"
    and "connection_read (Some (http_handler C)) (Transferred (header_text ls @ p)) (tcp_request_new c) srv =
      (ok, rq, srv1)"
    and "connection_read (Some (http_handler C)) (Transferred b) rq srv1 = (ok1, rq1, s1)"
    and "connection_read (Some (http_handler C)) (Transferred (header_text ls @ p @ b)) (tcp_request_new c) srv =
      (ok2, rq2, s2)"
  shows "ok \<and> seen srv1 = seen srv \<and> run_handler (http_handler C) rq srv1 = (True, rq, srv1) \<and>
    ok1 = ok2 \<and> rq1 = rq2 \<and> seen s1 = seen s2 \<and> (ok1 \<longrightarrow> s1 = s2)"
proof -
  have l: "length (header_text ls) < 2 ^ 31" using assms(5) by simp
  have 1: "ok" "rq = paused c ls p" "srv1 = \<lparr>http_reqs = (http_reqs srv)(c := Some (head_of C ls)), seen = seen srv\<rparr>"
    using read_inside_line [OF assms(1-3) l assms(6,7)] assms(8) by simp_all
  then show ?thesis
    using work_inside_line [OF assms(2,3) l _ assms(7), of srv1 c]
      split_resumed [OF assms(1,5,3,4,6,7) 1(3) _ assms(10)] assms(9) by auto
qed

theorem split_inside_line_is_harmless_witness:
  "\<exists>rq srv1. connection_read (Some (http_handler plain_conf)) (Transferred (header_text [''GET / HTTP/1.1''] @ ''Ho''))
       (tcp_request_new 5) no_requests = (True, rq, srv1) \<and>
     seen srv1 = [] \<and> run_handler (http_handler plain_conf) rq srv1 = (True, rq, srv1)"
proof -
  let ?ls = "[''GET / HTTP/1.1'']" and ?read = "connection_read (Some (http_handler plain_conf))"
  obtain ok rq srv1 where 1: "?read (Transferred (header_text ?ls @ ''Ho'')) (tcp_request_new 5) no_requests = (ok, rq, srv1)"
    using prod_cases3 by blast
  obtain ok1 rq1 s1 where 2: "?read (Transferred ''st'') rq srv1 = (ok1, rq1, s1)" using prod_cases3 by blast
  obtain ok2 rq2 s2 where 3:
    "?read (Transferred (header_text ?ls @ ''Ho'' @ ''st'')) (tcp_request_new 5) no_requests = (ok2, rq2, s2)"
    using prod_cases3 by blast
  have h: "list_all header_line_ok ?ls" by code_simp
  have l: "length (header_text ?ls @ ''Ho'' @ ''st'') < 2 ^ 31" by (simp add: header_text_def line_def)
  show ?thesis using split_inside_line_is_harmless [OF h _ _ _ l _ _ 1 2 3] 1
    by (simp add: no_requests_def plain_conf_def)
qed






end
