(* ===== verification/Delegate.thy ===== *)
theory Delegate
  imports Ordered_Map Streams
begin

text \<open>
  \<open>include/dcl/delegate.h\<close>, as it is compiled: with the static function hack, where a delegate is a pair of an object
  pointer and a member function pointer, and a static function is stored in the place of the object pointer.
  Addresses of objects and functions share one space (0 is null); a member function pointer is its 16
  bytes, all zero for null.  What the pointers refer to is a parameter, the record \<open>program\<close>: methods, static functions,
  and the pointer to the class's own \<open>InvokeStaticFunction\<close>.  Argument lists are tuples in the closure;
  the wrappers \<open>delegate0\<close> to \<open>delegate8\<close> take their arguments one by one.
\<close>

type_synonym addr = nat
type_synonym mfp = "byte list"

definition null_mfp :: mfp where
  "null_mfp = replicate 16 0"

record memento =
  m_pthis :: addr
  m_pFunction :: mfp

record ('a, 'r) program =
  method_at :: "mfp \<Rightarrow> addr \<Rightarrow> 'a \<Rightarrow> 'r option"
  func_at :: "addr \<Rightarrow> ('a \<Rightarrow> 'r option) option"
  invoker :: mfp

subsection \<open>DelegateMemento\<close>

definition memento_init :: memento where
  "memento_init = \<lparr>m_pthis = 0, m_pFunction = null_mfp\<rparr>"

definition memento_clear :: "memento \<Rightarrow> memento" where
  "memento_clear c = c\<lparr>m_pthis := 0, m_pFunction := null_mfp\<rparr>"

definition IsEqual :: "memento \<Rightarrow> memento \<Rightarrow> bool" where
  "IsEqual c x = (m_pthis c = m_pthis x \<and> m_pFunction c = m_pFunction x)"

definition memcmp_less :: "byte list \<Rightarrow> byte list \<Rightarrow> bool" where
  "memcmp_less a b = lex_less unat a b"

definition IsLess :: "memento \<Rightarrow> memento \<Rightarrow> bool" where
  "IsLess c right =
     (if m_pthis c \<noteq> m_pthis right then m_pthis c < m_pthis right
      else memcmp_less (m_pFunction c) (m_pFunction right))"

definition memento_empty :: "memento \<Rightarrow> bool" where
  "memento_empty c = (m_pthis c = 0 \<and> m_pFunction c = null_mfp)"

definition SetMementoFrom :: "memento \<Rightarrow> memento \<Rightarrow> memento" where
  "SetMementoFrom c right = c\<lparr>m_pFunction := m_pFunction right, m_pthis := m_pthis right\<rparr>"

subsection \<open>ClosurePtr\<close>

definition bindmemfunc :: "memento \<Rightarrow> addr \<Rightarrow> mfp \<Rightarrow> memento" where
  "bindmemfunc c pthis f = c\<lparr>m_pthis := pthis, m_pFunction := f\<rparr>"

definition bindconstmemfunc :: "memento \<Rightarrow> addr \<Rightarrow> mfp \<Rightarrow> memento" where
  "bindconstmemfunc c pthis f = c\<lparr>m_pthis := pthis, m_pFunction := f\<rparr>"

definition CopyFrom :: "memento \<Rightarrow> addr \<Rightarrow> memento \<Rightarrow> memento" where
  "CopyFrom c parent right = SetMementoFrom c right"

definition bindstaticfunc :: "memento \<Rightarrow> addr \<Rightarrow> mfp \<Rightarrow> addr \<Rightarrow> memento" where
  "bindstaticfunc c parent static_function_invoker f =
     (let c = (if f = 0 then c\<lparr>m_pFunction := null_mfp\<rparr> else bindmemfunc c parent static_function_invoker)
      in c\<lparr>m_pthis := f\<rparr>)"

text \<open>\<open>GetStaticFunction\<close> converts its own \<open>this\<close>, the address of the closure it is called on.\<close>

definition GetStaticFunction :: "addr \<Rightarrow> addr" where
  "GetStaticFunction this = this"

definition IsEqualToStaticFuncPtr :: "addr \<Rightarrow> memento \<Rightarrow> addr \<Rightarrow> bool" where
  "IsEqualToStaticFuncPtr this c funcptr =
     (if funcptr = 0 then memento_empty c else funcptr = GetStaticFunction this)"

subsection \<open>The delegate classes\<close>

text \<open>
  \<open>operator ()\<close>: the call through the member function pointer.  Where that is the class's own invoker it runs
  with the stored static function as its \<open>this\<close>; the closure is the first member of the delegate, so the address
  it converts is that function.  \<^const>\<open>None\<close> is undefined behaviour.
\<close>

definition InvokeStaticFunction :: "('a, 'r) program \<Rightarrow> addr \<Rightarrow> 'a \<Rightarrow> 'r option" where
  "InvokeStaticFunction P this a = (case func_at P (GetStaticFunction this) of None \<Rightarrow> None | Some f \<Rightarrow> f a)"

definition closure_call :: "('a, 'r) program \<Rightarrow> memento \<Rightarrow> 'a \<Rightarrow> 'r option" where
  "closure_call P c a =
     (if m_pFunction c = null_mfp then None
      else if m_pFunction c = invoker P then InvokeStaticFunction P (m_pthis c) a
      else method_at P (m_pFunction c) (m_pthis c) a)"

definition delegate_init :: memento where
  "delegate_init = memento_clear memento_init"

definition delegate_copy :: "memento \<Rightarrow> addr \<Rightarrow> memento \<Rightarrow> memento" where
  "delegate_copy d self x = CopyFrom d self x"

definition delegate_bind_method :: "memento \<Rightarrow> addr \<Rightarrow> mfp \<Rightarrow> memento" where
  "delegate_bind_method d pthis f = bindmemfunc d pthis f"

definition delegate_bind_const_method :: "memento \<Rightarrow> addr \<Rightarrow> mfp \<Rightarrow> memento" where
  "delegate_bind_const_method d pthis f = bindconstmemfunc d pthis f"

definition delegate_bind_static :: "('a, 'r) program \<Rightarrow> addr \<Rightarrow> memento \<Rightarrow> addr \<Rightarrow> memento" where
  "delegate_bind_static P self d f = bindstaticfunc d self (invoker P) f"

definition delegate_eq_static :: "addr \<Rightarrow> memento \<Rightarrow> addr \<Rightarrow> bool" where
  "delegate_eq_static self d f = IsEqualToStaticFuncPtr self d f"

definition delegate_SetMemento :: "memento \<Rightarrow> addr \<Rightarrow> memento \<Rightarrow> memento" where
  "delegate_SetMemento d self any = CopyFrom d self any"

definition create_delegate :: "addr \<Rightarrow> mfp \<Rightarrow> memento" where
  "create_delegate x func = delegate_bind_method delegate_init x func"

definition delegate0_call ::
  "(unit, 'r) program \<Rightarrow> memento \<Rightarrow> 'r option" where
  "delegate0_call P d = closure_call P d ()"

definition delegate1_call ::
  "('p1, 'r) program \<Rightarrow> memento \<Rightarrow> 'p1 \<Rightarrow> 'r option" where
  "delegate1_call P d p1 = closure_call P d p1"

definition delegate2_call ::
  "('p1 \<times> 'p2, 'r) program \<Rightarrow> memento \<Rightarrow> 'p1 \<Rightarrow> 'p2 \<Rightarrow> 'r option" where
  "delegate2_call P d p1 p2 = closure_call P d (p1, p2)"

definition delegate3_call ::
  "('p1 \<times> 'p2 \<times> 'p3, 'r) program \<Rightarrow> memento \<Rightarrow> 'p1 \<Rightarrow> 'p2 \<Rightarrow> 'p3 \<Rightarrow> 'r option" where
  "delegate3_call P d p1 p2 p3 = closure_call P d (p1, p2, p3)"

definition delegate4_call ::
  "('p1 \<times> 'p2 \<times> 'p3 \<times> 'p4, 'r) program \<Rightarrow> memento \<Rightarrow> 'p1 \<Rightarrow> 'p2 \<Rightarrow> 'p3 \<Rightarrow> 'p4 \<Rightarrow> 'r option" where
  "delegate4_call P d p1 p2 p3 p4 = closure_call P d (p1, p2, p3, p4)"

definition delegate5_call ::
  "('p1 \<times> 'p2 \<times> 'p3 \<times> 'p4 \<times> 'p5, 'r) program \<Rightarrow> memento \<Rightarrow> 'p1 \<Rightarrow> 'p2 \<Rightarrow> 'p3 \<Rightarrow> 'p4 \<Rightarrow> 'p5 \<Rightarrow> 'r option" where
  "delegate5_call P d p1 p2 p3 p4 p5 = closure_call P d (p1, p2, p3, p4, p5)"

definition delegate6_call ::
  "('p1 \<times> 'p2 \<times> 'p3 \<times> 'p4 \<times> 'p5 \<times> 'p6, 'r) program \<Rightarrow> memento \<Rightarrow> 'p1 \<Rightarrow> 'p2 \<Rightarrow> 'p3 \<Rightarrow> 'p4 \<Rightarrow> 'p5 \<Rightarrow> 'p6 \<Rightarrow> 'r option" where
  "delegate6_call P d p1 p2 p3 p4 p5 p6 = closure_call P d (p1, p2, p3, p4, p5, p6)"

definition delegate7_call ::
  "('p1 \<times> 'p2 \<times> 'p3 \<times> 'p4 \<times> 'p5 \<times> 'p6 \<times> 'p7, 'r) program \<Rightarrow> memento \<Rightarrow> 'p1 \<Rightarrow> 'p2 \<Rightarrow> 'p3 \<Rightarrow> 'p4 \<Rightarrow> 'p5 \<Rightarrow> 'p6 \<Rightarrow> 'p7 \<Rightarrow> 'r option" where
  "delegate7_call P d p1 p2 p3 p4 p5 p6 p7 = closure_call P d (p1, p2, p3, p4, p5, p6, p7)"

definition delegate8_call ::
  "('p1 \<times> 'p2 \<times> 'p3 \<times> 'p4 \<times> 'p5 \<times> 'p6 \<times> 'p7 \<times> 'p8, 'r) program \<Rightarrow> memento \<Rightarrow> 'p1 \<Rightarrow> 'p2 \<Rightarrow> 'p3 \<Rightarrow> 'p4 \<Rightarrow> 'p5 \<Rightarrow> 'p6 \<Rightarrow> 'p7 \<Rightarrow> 'p8 \<Rightarrow> 'r option" where
  "delegate8_call P d p1 p2 p3 p4 p5 p6 p7 p8 = closure_call P d (p1, p2, p3, p4, p5, p6, p7, p8)"

subsection \<open>Comparison\<close>

lemma unat_map_eq: "map unat (a :: byte list) = map unat b \<longleftrightarrow> a = b"
  by (auto simp: list_eq_iff_nth_eq word_unat_eq_iff)

lemma IsLess_equiv: "key_equiv IsLess a b \<longleftrightarrow> IsEqual a b"
  using lex_less_equiv [of unat "m_pFunction a" "m_pFunction b"]
  by (auto simp: key_equiv_def IsLess_def IsEqual_def memcmp_less_def unat_map_eq)

lemma IsEqual_iff: "IsEqual a b \<longleftrightarrow> a = b"
  by (auto simp: IsEqual_def)

interpretation delegate_order: strict_weak_order IsLess
proof
  show "\<not> IsLess a a" for a by (simp add: IsLess_def memcmp_less_def lex_less_irrefl)
  show "IsLess a c" if "IsLess a b" "IsLess b c" for a b c
    using that lex_less_trans by (auto simp: IsLess_def memcmp_less_def split: if_splits)
  show "key_equiv IsLess a c" if "key_equiv IsLess a b" "key_equiv IsLess b c" for a b c
    using that by (simp add: IsLess_equiv IsEqual_iff)
qed

subsection \<open>Binding and calling\<close>

text \<open>The methods that a program offers to bind: neither null nor the invoker.\<close>

definition bindable :: "('a, 'r) program \<Rightarrow> mfp \<Rightarrow> bool" where
  "bindable P f = (f \<noteq> null_mfp \<and> f \<noteq> invoker P)"

lemma call_method: "bindable P f \<Longrightarrow> closure_call P (delegate_bind_method d x f) a = method_at P f x a"
  by (simp add: closure_call_def delegate_bind_method_def bindmemfunc_def bindable_def)

lemma call_static:
  "invoker P \<noteq> null_mfp \<Longrightarrow> f \<noteq> 0 \<Longrightarrow> func_at P f = Some g \<Longrightarrow>
     closure_call P (delegate_bind_static P self d f) a = g a"
  by (simp add: closure_call_def delegate_bind_static_def bindstaticfunc_def bindmemfunc_def Let_def
      InvokeStaticFunction_def GetStaticFunction_def)

lemmas delegate_defs = delegate_bind_static_def bindstaticfunc_def memento_empty_def memento_clear_def
  delegate_init_def memento_init_def delegate_copy_def CopyFrom_def SetMementoFrom_def

subsection \<open>Properties\<close>


definition demo :: "(nat \<times> nat, nat) program" where
  "demo = \<lparr>method_at = (\<lambda>f x (a, b). Some (x + a + b)), func_at = (\<lambda>f. if f = 7 then Some (\<lambda>(a, b). Some (a * b)) else None),
     invoker = replicate 16 1\<rparr>"


text \<open>the order of delegates is a strict weak order whose equivalence is equality, so that delegates can be kept in
  ordered containers: exactly one of less, equal and greater holds of any two.\<close>

theorem delegate_total_order:
  "\<not> IsLess a a \<and> (IsLess a b \<and> IsLess b c \<longrightarrow> IsLess a c) \<and>
   (IsEqual a b \<longleftrightarrow> \<not> IsLess a b \<and> \<not> IsLess b a) \<and> (IsEqual a b \<longleftrightarrow> a = b)"
  using delegate_order.less_irrefl [of a] delegate_order.less_trans [of a b c] IsLess_equiv [of a b]
  by (auto simp: key_equiv_def IsEqual_iff)

theorem delegate_total_order_witness:
  "IsLess \<lparr>m_pthis = 1, m_pFunction = null_mfp\<rparr> \<lparr>m_pthis = 3, m_pFunction = null_mfp\<rparr>"
  using delegate_total_order [of "\<lparr>m_pthis = 1, m_pFunction = null_mfp\<rparr>" "\<lparr>m_pthis = 2, m_pFunction = null_mfp\<rparr>"
      "\<lparr>m_pthis = 3, m_pFunction = null_mfp\<rparr>"]
  by (simp add: IsLess_def)

text \<open>comparing a delegate with a static function it is bound to answers false: the comparison reads the address
  of the delegate instead of the stored function.  Only the comparison with the null function is right.\<close>

theorem static_comparison_fails:
  assumes "f \<noteq> 0" "f \<noteq> self"
  shows "\<not> delegate_eq_static self (delegate_bind_static P self d f) f \<and>
    delegate_eq_static self (delegate_bind_static P self d 0) 0"
  using assms
  by (simp add: delegate_eq_static_def IsEqualToStaticFuncPtr_def GetStaticFunction_def) (simp add: delegate_defs)

theorem static_comparison_fails_witness:
  "\<not> delegate_eq_static 50 (delegate_bind_static demo 50 delegate_init 7) 7"
  using static_comparison_fails [of 7 50 demo delegate_init] by simp

end
