(* ===== verification/Pool.thy ===== *)
theory Pool
  imports Ordered_Map "HOL-Library.Multiset" "HOL-Library.Extended_Nat"
begin

text \<open>
  \<open>include/dcl/pool.h\<close>: the object pool, its size policies and its smart pointer.  An object is the number of its
  allocation.  \<open>acquire_item\<close> and \<open>release_item\<close> are two steps each, because only the second one is under the
  mutex: first the policy's semaphore is taken or returned, then the queues change.  The step relation
  \<open>pool_step\<close> interleaves the steps of any number of clients.
\<close>

subsection \<open>The size policy\<close>

datatype policy = Unlimited | Limited nat

text \<open>\<open>lock\<close>: \<^const>\<open>None\<close> while the caller blocks.\<close>

fun policy_lock :: "policy \<Rightarrow> policy option" where
  "policy_lock Unlimited = Some Unlimited"
| "policy_lock (Limited n) = (if n = 0 then None else Some (Limited (n - 1)))"

fun policy_unlock :: "policy \<Rightarrow> policy" where
  "policy_unlock Unlimited = Unlimited"
| "policy_unlock (Limited n) = Limited (n + 1)"

text \<open>What a pool relies on of its policy: permits are counted.\<close>

locale size_policy =
  fixes lock :: "'s \<Rightarrow> 's option"
    and unlock :: "'s \<Rightarrow> 's"
    and permits :: "'s \<Rightarrow> enat"
  assumes lock_blocks: "lock s = None \<longleftrightarrow> permits s = 0"
    and lock_permits: "lock s = Some s' \<Longrightarrow> permits s = permits s' + 1"
    and unlock_permits: "permits (unlock s) = permits s + 1"
begin

lemma unlock_never_blocks: "lock (unlock s) \<noteq> None"
  by (simp add: lock_blocks unlock_permits)

lemma lock_unlock_permits: "lock s = Some s' \<Longrightarrow> permits (unlock s') = permits s"
  by (simp add: lock_permits unlock_permits)

end

fun policy_permits :: "policy \<Rightarrow> enat" where
  "policy_permits Unlimited = \<infinity>"
| "policy_permits (Limited n) = enat n"

interpretation policies: size_policy policy_lock policy_unlock policy_permits
proof
  show "policy_lock s = None \<longleftrightarrow> policy_permits s = 0" for s by (cases s) (simp_all add: zero_enat_def)
  show "policy_permits s = policy_permits s' + 1" if "policy_lock s = Some s'" for s s'
    using that by (cases s) (auto simp: one_enat_def split: if_splits)
  show "policy_permits (policy_unlock s) = policy_permits s + 1" for s
    by (cases s) (simp_all add: one_enat_def)
qed

subsection \<open>The pool\<close>

type_synonym item = nat

record pool =
  free_q :: "(string, item list) omap"
  all_items :: "item list"
  size_policy :: policy

definition key_less :: "string \<Rightarrow> string \<Rightarrow> bool" where
  "key_less = lex_less of_char"

definition pool_new :: "policy \<Rightarrow> pool" where
  "pool_new ps = \<lparr>free_q = [], all_items = [], size_policy = ps\<rparr>"

text \<open>\<open>_free[key]\<close>: a missing key reads as the empty queue that the access inserts.\<close>

definition queue_at :: "string \<Rightarrow> (string, item list) omap \<Rightarrow> item list" where
  "queue_at key m = (case map_find key_less key m of None \<Rightarrow> [] | Some q \<Rightarrow> q)"

definition acquire_lock :: "pool \<Rightarrow> pool option" where
  "acquire_lock p = map_option (\<lambda>ps. p\<lparr>size_policy := ps\<rparr>) (policy_lock (size_policy p))"

definition acquire_body :: "string \<Rightarrow> pool \<Rightarrow> item \<times> pool" where
  "acquire_body key p =
     (case queue_at key (free_q p) of
        [] \<Rightarrow> (length (all_items p),
               p\<lparr>free_q := map_assign key_less key [] (free_q p),
                 all_items := all_items p @ [length (all_items p)]\<rparr>)
      | item # q \<Rightarrow> (item, p\<lparr>free_q := map_assign key_less key q (free_q p)\<rparr>))"

definition release_unlock :: "pool \<Rightarrow> pool" where
  "release_unlock p = p\<lparr>size_policy := policy_unlock (size_policy p)\<rparr>"

definition release_body :: "item \<Rightarrow> string \<Rightarrow> pool \<Rightarrow> pool" where
  "release_body item key p =
     p\<lparr>free_q := map_assign key_less key (queue_at key (free_q p) @ [item]) (free_q p)\<rparr>"

definition acquire_item :: "string \<Rightarrow> pool \<Rightarrow> (item \<times> pool) option" where
  "acquire_item key p = map_option (acquire_body key) (acquire_lock p)"

definition release_item :: "item \<Rightarrow> string \<Rightarrow> pool \<Rightarrow> pool" where
  "release_item item key p = release_body item key (release_unlock p)"

definition pool_size :: "pool \<Rightarrow> nat" where
  "pool_size p = length (all_items p)"

definition in_use :: "pool \<Rightarrow> int" where
  "in_use p = int (length (all_items p)) - int (sum_list (map (\<lambda>(k, q). length q) (free_q p)))"

subsection \<open>The smart pointer\<close>

record pool_ptr =
  ptr_item :: "item option"
  ptr_key :: string

definition ptr_null :: pool_ptr where
  "ptr_null = \<lparr>ptr_item = None, ptr_key = []\<rparr>"

definition acquire :: "string \<Rightarrow> pool \<Rightarrow> (pool_ptr \<times> pool) option" where
  "acquire key p =
     map_option (\<lambda>(i, p'). (\<lparr>ptr_item = Some i, ptr_key = key\<rparr>, p')) (acquire_item key p)"

definition ptr_destroy :: "pool_ptr \<Rightarrow> pool \<Rightarrow> pool" where
  "ptr_destroy x p = (case ptr_item x of None \<Rightarrow> p | Some i \<Rightarrow> release_item i (ptr_key x) p)"

text \<open>Copying moves: the source loses the object.\<close>

definition ptr_copy :: "pool_ptr \<Rightarrow> pool_ptr \<times> pool_ptr" where
  "ptr_copy src = (src, src\<lparr>ptr_item := None\<rparr>)"

definition ptr_assign :: "pool_ptr \<Rightarrow> pool_ptr \<Rightarrow> pool \<Rightarrow> pool_ptr \<times> pool_ptr \<times> pool" where
  "ptr_assign dst src p =
     (let p = ptr_destroy dst p in (src, src\<lparr>ptr_item := None\<rparr>, p))"

subsection \<open>Interleaved clients\<close>

datatype phase = Idle | Locked string | Holding item string | Releasing item string

type_synonym config = "pool \<times> (nat \<Rightarrow> phase)"

inductive pool_step :: "config \<Rightarrow> config \<Rightarrow> bool" where
  lock: "ph c = Idle \<Longrightarrow> acquire_lock p = Some p' \<Longrightarrow> pool_step (p, ph) (p', ph(c := Locked key))"
| take: "ph c = Locked key \<Longrightarrow> acquire_body key p = (i, p') \<Longrightarrow> pool_step (p, ph) (p', ph(c := Holding i key))"
| unlock: "ph c = Holding i key \<Longrightarrow> pool_step (p, ph) (release_unlock p, ph(c := Releasing i key))"
| put: "ph c = Releasing i key \<Longrightarrow> pool_step (p, ph) (release_body i key p, ph(c := Idle))"

inductive_cases pool_stepE: "pool_step (p, ph) cfg"

definition pool_start :: "policy \<Rightarrow> config" where
  "pool_start ps = (pool_new ps, \<lambda>_. Idle)"

definition pool_reachable :: "policy \<Rightarrow> config \<Rightarrow> bool" where
  "pool_reachable ps cfg = pool_step\<^sup>*\<^sup>* (pool_start ps) cfg"

subsection \<open>The free queues as one bag\<close>

interpretation pool_keys: strict_weak_order key_less
  unfolding key_less_def by (rule lex_less_order)

definition free_items :: "pool \<Rightarrow> item multiset" where
  "free_items p = mset (concat (map snd (free_q p)))"

lemma queue_bag:
  "map_ok key_less m \<Longrightarrow>
     mset (concat (map snd (map_assign key_less k q m))) + mset (queue_at k m) =
       mset (concat (map snd m)) + mset q"
proof (induction m)
  case (Cons e m)
  obtain a b where e: "e = (a, b)" by (cases e)
  show ?case
  proof (cases "key_less a k")
    case True
    then have "queue_at k (e # m) = queue_at k m" by (simp add: queue_at_def e)
    then show ?thesis using Cons True by (simp add: e ac_simps)
  next
    case False
    then show ?thesis by (simp add: queue_at_def e)
  qed
qed (simp add: queue_at_def)

lemma acquire_body_new:
  assumes "map_ok key_less (free_q p)" "queue_at key (free_q p) = []"
  shows "acquire_body key p = (i, p') \<Longrightarrow>
    i = length (all_items p) \<and> all_items p' = all_items p @ [i] \<and> free_items p' = free_items p \<and>
    map_ok key_less (free_q p') \<and> size_policy p' = size_policy p"
  using assms queue_bag [OF assms(1), of key "[]"] pool_keys.map_ok_assign [OF assms(1)]
  by (auto simp: acquire_body_def free_items_def)

lemma acquire_body_reuse:
  assumes "map_ok key_less (free_q p)" "queue_at key (free_q p) = x # q"
  shows "acquire_body key p = (i, p') \<Longrightarrow>
    i = x \<and> all_items p' = all_items p \<and> free_items p = add_mset i (free_items p') \<and>
    map_ok key_less (free_q p') \<and> size_policy p' = size_policy p"
  using assms queue_bag [OF assms(1), of key q] pool_keys.map_ok_assign [OF assms(1)]
  by (auto simp: acquire_body_def free_items_def)

lemma release_body_free:
  assumes "map_ok key_less (free_q p)"
  shows "free_items (release_body i key p) = add_mset i (free_items p)"
    and "map_ok key_less (free_q (release_body i key p))"
  using queue_bag [OF assms, of key "queue_at key (free_q p) @ [i]"] pool_keys.map_ok_assign [OF assms]
  by (simp_all add: release_body_def free_items_def)

subsection \<open>The invariants\<close>

fun owned :: "phase \<Rightarrow> item option" where
  "owned (Holding i key) = Some i"
| "owned (Releasing i key) = Some i"
| "owned _ = None"

fun active :: "phase \<Rightarrow> bool" where
  "active (Locked key) = True"
| "active (Holding i key) = True"
| "active _ = False"

text \<open>Every object is in the free queues once, or with one client, and never both.\<close>

definition partition :: "nat \<Rightarrow> item multiset \<Rightarrow> (nat \<Rightarrow> item option) \<Rightarrow> bool" where
  "partition n F own =
     ((\<forall>i. count F i \<le> 1) \<and> (\<forall>i. i < n \<longleftrightarrow> i \<in># F \<or> i \<in> ran own) \<and>
      (\<forall>i. i \<in># F \<longrightarrow> i \<notin> ran own) \<and> inj_on own (dom own))"

lemma partition_unique: "partition n F own \<Longrightarrow> own c = Some i \<Longrightarrow> own d = Some i \<Longrightarrow> c = d"
  unfolding partition_def inj_on_def dom_def by auto

lemma inj_on_insert_fresh:
  "inj_on own (dom own) \<Longrightarrow> i \<notin> ran own \<Longrightarrow> inj_on (own(c \<mapsto> i)) (dom (own(c \<mapsto> i)))"
  unfolding inj_on_def dom_def ran_def by auto

lemma partition_new:
  assumes "partition n F own" "own c = None"
  shows "partition (Suc n) F (own(c \<mapsto> n))"
proof -
  have r: "ran (own(c \<mapsto> n)) = insert n (ran own)" using assms(2) by (rule ran_map_upd)
  have "n \<notin># F" "n \<notin> ran own" using assms(1) by (auto simp: partition_def)
  then show ?thesis using assms(1) inj_on_insert_fresh [of own n c]
    unfolding partition_def r by (auto simp: less_Suc_eq)
qed

lemma partition_reuse:
  assumes "partition n (add_mset i F) own" "own c = None"
  shows "partition n F (own(c \<mapsto> i))"
proof -
  have r: "ran (own(c \<mapsto> i)) = insert i (ran own)" using assms(2) by (rule ran_map_upd)
  have "count (add_mset i F) i \<le> 1" using assms(1) unfolding partition_def by blast
  then have "i \<notin># F" by (simp add: not_in_iff)
  moreover have "i \<notin> ran own" using assms(1) by (simp add: partition_def)
  moreover have "count F j \<le> 1" for j
    using assms(1) unfolding partition_def by (metis count_add_mset le_SucI Suc_leD)
  ultimately show ?thesis using assms(1) inj_on_insert_fresh [of own i c]
    unfolding partition_def r by auto
qed

lemma partition_put:
  assumes "partition n F own" "own c = Some i"
  shows "partition n (add_mset i F) (own(c := None))"
proof -
  have r: "ran (own(c := None)) = ran own - {i}"
  proof
    show "ran (own(c := None)) \<subseteq> ran own - {i}"
      using partition_unique [OF assms(1) assms(2)] by (auto simp: ran_def split: if_splits)
    show "ran own - {i} \<subseteq> ran (own(c := None))"
    proof
      fix x assume "x \<in> ran own - {i}"
      then obtain a where "own a = Some x" "x \<noteq> i" by (auto simp: ran_def)
      then have "(own(c := None)) a = Some x" using assms(2) by auto
      then show "x \<in> ran (own(c := None))" by (rule ranI)
    qed
  qed
  have i: "i \<in> ran own" using assms(2) by (rule ranI)
  moreover have "i \<notin># F" using assms(1) i unfolding partition_def by blast
  moreover have "inj_on (own(c := None)) (dom (own(c := None)))"
    using assms(1) unfolding partition_def inj_on_def dom_def by auto
  ultimately show ?thesis using assms(1) unfolding partition_def r by (auto simp: not_in_iff)
qed

definition ownership_inv :: "config \<Rightarrow> bool" where
  "ownership_inv cfg = (case cfg of (p, ph) \<Rightarrow>
     map_ok key_less (free_q p) \<and> all_items p = [0..<length (all_items p)] \<and>
     partition (length (all_items p)) (free_items p) (\<lambda>c. owned (ph c)))"

lemma ownership_start: "ownership_inv (pool_start ps)"
  by (simp add: ownership_inv_def pool_start_def pool_new_def free_items_def partition_def ran_def)

lemma ownership_step:
  assumes "pool_step (p, ph) (p', ph')" "ownership_inv (p, ph)"
  shows "ownership_inv (p', ph')"
  using assms(1)
proof cases
  case (lock c key)
  then have "(\<lambda>d. owned (ph' d)) = (\<lambda>d. owned (ph d))" by auto
  with lock show ?thesis using assms(2) by (auto simp: ownership_inv_def acquire_lock_def free_items_def)
next
  case (take c key i)
  have ok: "map_ok key_less (free_q p)" using assms(2) by (simp add: ownership_inv_def)
  have part: "partition (length (all_items p)) (free_items p) (\<lambda>c. owned (ph c))" "owned (ph c) = None"
    using assms(2) take by (simp_all add: ownership_inv_def)
  have own: "(\<lambda>d. owned (ph' d)) = (\<lambda>d. owned (ph d))(c \<mapsto> i)" using take by auto
  show ?thesis
  proof (cases "queue_at key (free_q p)")
    case Nil
    note n = acquire_body_new [OF ok Nil take(3)]
    show ?thesis using n partition_new [OF part] assms(2) by (simp add: ownership_inv_def own)
  next
    case (Cons x q)
    note n = acquire_body_reuse [OF ok Cons take(3)]
    then have "partition (length (all_items p)) (free_items p') ((\<lambda>d. owned (ph d))(c \<mapsto> i))"
      using part by (intro partition_reuse) simp_all
    with n show ?thesis using assms(2) by (simp add: ownership_inv_def own)
  qed
next
  case (unlock c i key)
  then have "(\<lambda>d. owned (ph' d)) = (\<lambda>d. owned (ph d))" by auto
  with unlock show ?thesis using assms(2) by (simp add: ownership_inv_def release_unlock_def free_items_def)
next
  case (put c i key)
  have ok: "map_ok key_less (free_q p)" using assms(2) by (simp add: ownership_inv_def)
  have own: "(\<lambda>d. owned (ph' d)) = (\<lambda>d. owned (ph d))(c := None)" using put by auto
  have "all_items p' = all_items p" using put by (simp add: release_body_def)
  moreover have "partition (length (all_items p)) (add_mset i (free_items p)) ((\<lambda>d. owned (ph d))(c := None))"
    using put assms(2) by (intro partition_put) (simp_all add: ownership_inv_def)
  moreover have "all_items p = [0..<length (all_items p)]" using assms(2) by (simp add: ownership_inv_def)
  ultimately show ?thesis
    using release_body_free [OF ok, of i key] unfolding ownership_inv_def prod.case own put(1) by simp
qed

lemma ownership_reachable: "pool_reachable ps cfg \<Longrightarrow> ownership_inv cfg"
  unfolding pool_reachable_def
proof (induction rule: rtranclp_induct)
  case (step y z)
  then show ?case using ownership_step by (cases y, cases z) blast
qed (rule ownership_start)

text \<open>Permits: what the policy has left, and the clients between the two semaphore operations.\<close>

definition permit_inv :: "policy \<Rightarrow> config \<Rightarrow> bool" where
  "permit_inv ps cfg = (case cfg of (p, ph) \<Rightarrow>
     finite {c. active (ph c)} \<and>
     policy_permits (size_policy p) + enat (card {c. active (ph c)}) = policy_permits ps)"

lemma permit_step:
  assumes "pool_step (p, ph) (p', ph')" "permit_inv ps (p, ph)"
  shows "permit_inv ps (p', ph')"
proof -
  let ?A = "{d. active (ph d)}" and ?A' = "{d. active (ph' d)}"
  have f: "finite ?A" "policy_permits (size_policy p) + enat (card ?A) = policy_permits ps"
    using assms(2) by (simp_all add: permit_inv_def)
  from assms(1) show ?thesis
  proof cases
    case (lock c key)
    then obtain s where s: "policy_lock (size_policy p) = Some s" "size_policy p' = s"
      by (auto simp: acquire_lock_def)
    have "?A' = insert c ?A" "c \<notin> ?A" using lock by auto
    then have "finite ?A'" "card ?A' = card ?A + 1" using f(1) by simp_all
    then show ?thesis using f(2) s policies.lock_permits [OF s(1)]
      by (simp add: permit_inv_def plus_1_eSuc eSuc_enat [symmetric] iadd_Suc iadd_Suc_right)
  next
    case (take c key i)
    then have "?A' = ?A" by auto
    moreover have "size_policy p' = size_policy p" using take by (auto simp: acquire_body_def split: list.splits)
    ultimately show ?thesis using f by (simp add: permit_inv_def)
  next
    case (unlock c i key)
    then have c: "c \<in> ?A" and A': "?A' = ?A - {c}" by auto
    have "card ?A = Suc (card ?A')" "finite ?A'" unfolding A' using card.remove [OF f(1) c] f(1) by simp_all
    then show ?thesis using f(2) unlock policies.unlock_permits [of "size_policy p"]
      by (simp add: permit_inv_def release_unlock_def plus_1_eSuc eSuc_enat [symmetric] iadd_Suc iadd_Suc_right)
  next
    case (put c i key)
    then have "?A' = ?A" by auto
    moreover have "size_policy p' = size_policy p" using put by (simp add: release_body_def)
    ultimately show ?thesis using f by (simp add: permit_inv_def)
  qed
qed

lemma permit_reachable: "pool_reachable ps cfg \<Longrightarrow> permit_inv ps cfg"
  unfolding pool_reachable_def
proof (induction rule: rtranclp_induct)
  case base
  then show ?case by (simp add: permit_inv_def pool_start_def pool_new_def zero_enat_def [symmetric])
next
  case (step y z)
  then show ?case using permit_step by (cases y, cases z) blast
qed

lemma in_use_owned:
  assumes "ownership_inv (p, ph)"
  shows "in_use p = int (card (ran (\<lambda>c. owned (ph c))))"
proof -
  let ?F = "free_items p" and ?R = "ran (\<lambda>c. owned (ph c))" and ?n = "length (all_items p)"
  have part: "partition ?n ?F (\<lambda>c. owned (ph c))" using assms by (simp add: ownership_inv_def)
  have "{..<?n} = set_mset ?F \<union> ?R" "set_mset ?F \<inter> ?R = {}"
    using part unfolding partition_def by auto
  moreover from this have "finite ?R" using finite_lessThan [of ?n] by (metis finite_Un)
  ultimately have "?n = card (set_mset ?F) + card ?R"
    using card_Un_disjoint [of "set_mset ?F" ?R] card_lessThan [of ?n] by simp
  moreover have "card (set_mset ?F) = size ?F"
  proof -
    have "count ?F i = 1" if "i \<in># ?F" for i
      using part that unfolding partition_def by (metis count_greater_zero_iff le_antisym One_nat_def Suc_leI)
    then have "(\<Sum>i \<in> set_mset ?F. count ?F i) = (\<Sum>i \<in> set_mset ?F. 1)" by (intro sum.cong) auto
    then show ?thesis unfolding size_multiset_overloaded_eq card_eq_sum by simp
  qed
  moreover have "size ?F = sum_list (map (\<lambda>(k, q). length q) (free_q p))"
    by (simp add: free_items_def size_mset length_concat comp_def split_def)
  ultimately show ?thesis by (simp add: in_use_def)
qed

subsection \<open>Properties\<close>


text \<open>Two clients on a pool of one: the first releases, the second acquires between the two steps of the release.\<close>

definition race :: "config list" where
  "race = (let p0 = pool_new (Limited 1);
               p1 = p0\<lparr>size_policy := Limited 0\<rparr>;
               p2 = snd (acquire_body [] p1);
               p3 = release_unlock p2;
               p4 = p3\<lparr>size_policy := Limited 0\<rparr>;
               p5 = snd (acquire_body [] p4);
               idle = (\<lambda>_. Idle)
    in [(p0, idle), (p1, idle(0 := Locked [])), (p2, idle(0 := Holding 0 [])), (p3, idle(0 := Releasing 0 [])),
        (p4, idle(0 := Releasing 0 [], 1 := Locked [])), (p5, idle(0 := Releasing 0 [], 1 := Holding 1 []))])"

lemma race_steps: "\<forall>k < 5. pool_step (race ! k) (race ! Suc k)"
proof -
  let ?idle = "\<lambda>_. Idle"
  let ?p0 = "pool_new (Limited 1)"
  let ?p1 = "?p0\<lparr>size_policy := Limited 0\<rparr>"
  let ?p2 = "snd (acquire_body [] ?p1)"
  let ?p3 = "release_unlock ?p2"
  let ?p4 = "?p3\<lparr>size_policy := Limited 0\<rparr>"
  have "pool_step (?p0, ?idle) (?p1, ?idle(0 := Locked []))"
    by (rule pool_step.lock) (simp_all add: acquire_lock_def pool_new_def)
  moreover have "pool_step (?p1, ?idle(0 := Locked [])) (?p2, ?idle(0 := Holding 0 []))"
    using pool_step.take [of "?idle(0 := Locked [])" 0 "[]" ?p1 0 ?p2]
    by (simp add: acquire_body_def pool_new_def queue_at_def)
  moreover have "pool_step (?p2, ?idle(0 := Holding 0 [])) (?p3, ?idle(0 := Releasing 0 []))"
    using pool_step.unlock [of "?idle(0 := Holding 0 [])" 0 0 "[]" ?p2] by simp
  moreover have "pool_step (?p3, ?idle(0 := Releasing 0 [])) (?p4, ?idle(0 := Releasing 0 [], 1 := Locked []))"
    by (rule pool_step.lock)
       (simp_all add: acquire_lock_def pool_new_def acquire_body_def queue_at_def release_unlock_def)
  moreover have "pool_step (?p4, ?idle(0 := Releasing 0 [], 1 := Locked []))
      (snd (acquire_body [] ?p4), ?idle(0 := Releasing 0 [], 1 := Holding 1 []))"
    using pool_step.take [of "?idle(0 := Releasing 0 [], 1 := Locked [])" 1 "[]" ?p4 1 "snd (acquire_body [] ?p4)"]
    by (simp add: acquire_body_def pool_new_def queue_at_def release_unlock_def pool_keys.less_irrefl)
  ultimately show ?thesis by (simp add: race_def Let_def All_less_Suc numeral_eq_Suc)
qed

lemma race_reachable: "k \<le> 5 \<Longrightarrow> pool_reachable (Limited 1) (race ! k)"
proof (induction k)
  case 0
  then show ?case by (simp add: pool_reachable_def race_def Let_def pool_start_def)
next
  case (Suc k)
  then have "pool_step (race ! k) (race ! Suc k)" using race_steps by simp
  with Suc show ?case unfolding pool_reachable_def by (simp add: rtranclp.rtrancl_into_rtrancl)
qed


text \<open>C35: a pool with \<open>pool_size_limited_policy\<close> never has more clients between taking and returning their permit
  than the limit; a client blocks exactly when all permits are taken.\<close>

theorem pool_limit:
  assumes "pool_reachable (Limited n) (p, ph)"
  shows "finite {c. active (ph c)} \<and> card {c. active (ph c)} \<le> n \<and>
    (acquire_lock p = None \<longleftrightarrow> card {c. active (ph c)} = n)"
proof -
  have inv: "finite {c. active (ph c)}" "policy_permits (size_policy p) + enat (card {c. active (ph c)}) = enat n"
    using permit_reachable [OF assms] by (simp_all add: permit_inv_def)
  then obtain m where m: "policy_permits (size_policy p) = enat m" "m + card {c. active (ph c)} = n"
    by (cases "policy_permits (size_policy p)") auto
  have "acquire_lock p = None \<longleftrightarrow> m = 0"
    using policies.lock_blocks [of "size_policy p"] m(1) by (simp add: acquire_lock_def zero_enat_def)
  with inv m show ?thesis by auto
qed

theorem pool_limit_witness:
  "card {c. active (snd (race ! 2) c)} = 1 \<and> acquire_lock (fst (race ! 2)) = None"
proof -
  have p: "snd (race ! 2) = (\<lambda>_. Idle)(0 := Holding 0 [])" by (simp add: race_def Let_def)
  have "{c. active (snd (race ! 2) c)} = {0}" unfolding p by auto
  then show ?thesis
    using pool_limit [of 1 "fst (race ! 2)" "snd (race ! 2)"] race_reachable [of 2] by simp
qed

text \<open>the permit is returned before the object is back in its queue, so the limit does not bound the pool itself:
  with a limit of one, two clients can have two objects at once, and the pool then holds two.\<close>

theorem pool_limit_overrun:
  "\<exists>p ph. pool_reachable (Limited 1) (p, ph) \<and> pool_size p = 2 \<and> in_use p = 2"
proof -
  have "pool_size (fst (race ! 5)) = 2 \<and> in_use (fst (race ! 5)) = 2"
    by (simp add: race_def Let_def pool_size_def in_use_def acquire_body_def pool_new_def queue_at_def
        release_unlock_def pool_keys.less_irrefl)
  then show ?thesis using race_reachable [of 5] by (metis le_refl prod.collapse)
qed

end
