(* ===== verification/Web_App.thy ===== *)
theory Web_App
  imports Http_Header
begin

text \<open>
  \<open>web_application.h\<close> and its three implementations, \<open>cgi_application\<close>, \<open>apache_application\<close> and
  \<open>isapi_application\<close>: what turns the request of a web server into an \<open>http_request\<close>, calls the function that
  answers, and hands the \<open>http_response\<close> back.  The web servers are parameters: the environment and the standard
  input of a CGI process, the tables of Apache, the server variables of IIS.  A thrown exception is its
  \<open>what()\<close>, with the base class that tells the handlers of Apache apart.
\<close>

datatype exn = Dbp_Exception string | Std_Exception string

fun what :: "exn \<Rightarrow> string" where
  "what (Dbp_Exception s) = s"
| "what (Std_Exception s) = s"

record web_app =
  request_handler :: "(http_request \<Rightarrow> exn + http_response) option"
  exception_handler :: "(exn \<Rightarrow> http_response \<Rightarrow> exn + http_response) option"

definition server_error :: "exn \<Rightarrow> http_response \<Rightarrow> http_response" where
  "server_error e resp = set_content (what e) (set_status error_internal_server_error resp)"

text \<open>\<open>to_string<const char*>\<close>: a null pointer is the empty string.\<close>

definition to_string_ptr :: "string option \<Rightarrow> string" where
  "to_string_ptr p = (case p of None \<Rightarrow> [] | Some s \<Rightarrow> s)"

subsection \<open>CGI\<close>

definition cgi_split :: "string \<Rightarrow> string \<times> string" where
  "cgi_split line = (case find_first_of ''='' line 0 of
     None \<Rightarrow> (line, [])
   | Some pos \<Rightarrow> (substr line 0 pos, substr line (pos + 1) (length line - pos - 1)))"

lemma underscore_split:
  assumes "find_first_of ''_'' s 0 = Some pos"
  shows "s = take pos s @ CHR ''_'' # drop (Suc pos) s" "s[pos := CHR ''-''] = take pos s @ CHR ''-'' # drop (Suc pos) s"
proof -
  have "pos < length s" "s ! pos = CHR ''_''"
    using assms by (auto simp: find_first_of_def dest: find_idx_SomeD)
  then show "s = take pos s @ CHR ''_'' # drop (Suc pos) s" "s[pos := CHR ''-''] = take pos s @ CHR ''-'' # drop (Suc pos) s"
    by (simp_all add: id_take_nth_drop [symmetric] upd_conv_take_nth_drop) (metis id_take_nth_drop)
qed

text \<open>The loop that turns underscores into dashes.\<close>

function dash_loop :: "string \<Rightarrow> string" where
  "dash_loop left = (case find_first_of ''_'' left 0 of
     None \<Rightarrow> left
   | Some pos \<Rightarrow> dash_loop (left[pos := CHR ''-'']))"
  by pat_completeness auto

termination
proof (relation "measure (\<lambda>s. length (filter ((=) (CHR ''_'')) s))", goal_cases)
  case (2 left pos)
  note u = underscore_split [OF 2]
  show ?case by (subst (2) u(1), subst u(2)) simp
qed simp

declare dash_loop.simps [simp del]

definition to_dash :: "char \<Rightarrow> char" where
  "to_dash c = (if c = CHR ''_'' then CHR ''-'' else c)"

text \<open>One variable of the environment; the counter is \<open>c_len\<close>.\<close>

definition cgi_variable :: "env \<Rightarrow> string \<Rightarrow> int \<times> http_request \<Rightarrow> int \<times> http_request" where
  "cgi_variable e line s =
     (let (left, right) = cgi_split line; (c_len, req) = s
      in if left = ''AUTH_TYPE'' then (c_len, req\<lparr>auth_type := right\<rparr>)
         else if left = ''CONTENT_LENGTH'' then (from_string_int right, req)
         else if left = ''CONTENT_TYPE'' then (c_len, set_content_type right req)
         else if left = ''GATEWAY_INTERFACE'' then (c_len, req\<lparr>gateway_interface := right\<rparr>)
         else if left = ''PATH_INFO'' then (c_len, req\<lparr>path_info := right\<rparr>)
         else if left = ''PATH_TRANSLATED'' then (c_len, req\<lparr>path_translated := right\<rparr>)
         else if left = ''QUERY_STRING'' then (c_len, req\<lparr>query_string := right\<rparr>)
         else if left = ''REMOTE_ADDR'' then (c_len, req\<lparr>remote_addr := right\<rparr>)
         else if left = ''REMOTE_HOST'' then (c_len, req\<lparr>remote_host := right\<rparr>)
         else if left = ''REMOTE_IDENT'' then (c_len, req\<lparr>remote_ident := right\<rparr>)
         else if left = ''REMOTE_USER'' then (c_len, req\<lparr>remote_user := right\<rparr>)
         else if left = ''REQUEST_METHOD'' then (c_len, set_method right req)
         else if left = ''SCRIPT_NAME'' then (c_len, req\<lparr>script_name := right\<rparr>)
         else if left = ''SERVER_NAME'' then (c_len, req\<lparr>server_name := right\<rparr>)
         else if left = ''SERVER_PORT'' then (c_len, req\<lparr>server_port := from_string_int right\<rparr>)
         else if left = ''SERVER_PROTOCOL'' then (c_len, req\<lparr>server_protocol := right\<rparr>)
         else if left = ''SERVER_SOFTWARE'' then (c_len, req\<lparr>server_software := right\<rparr>)
         else if left = ''HTTPS'' then (c_len, req\<lparr>https := (right = ''on'')\<rparr>)
         else if substr left 0 5 = ''HTTP_''
         then (c_len, set_header e (dash_loop (substr left 5 (length left - 5))) right req)
         else s)"

text \<open>The null pointer of \<open>get_request()\<close> is the empty environment; \<open>m\<close> is the uninitialised method.\<close>

definition cgi_get_request :: "env \<Rightarrow> http_method \<Rightarrow> string list \<Rightarrow> char istream \<Rightarrow> char istream \<times> http_request" where
  "cgi_get_request e m envp cin =
     (let (c_len, req) = fold (cgi_variable e) envp (0, request_init m)
      in if c_len > 0 then add_content_n c_len cin req else (cin, req))"

text \<open>The output; \<^const>\<open>None\<close> where printing a cookie reads an indeterminate buffer.\<close>

definition cgi_send_response :: "http_response \<Rightarrow> string option" where
  "cgi_send_response response =
     map_option (\<lambda>s. ''Status: '' @ get_status response @ CRLF @ s) (response_print response)"

definition guarded :: "web_app \<Rightarrow> exn \<Rightarrow> exn + http_response" where
  "guarded app e = (case exception_handler app of
     Some h \<Rightarrow> h e response_init
   | None \<Rightarrow> Inr (server_error e response_init))"

text \<open>An exception of the exception handler leaves \<open>run\<close>.\<close>

definition cgi_run :: "web_app \<Rightarrow> env \<Rightarrow> http_method \<Rightarrow> string list \<Rightarrow> char istream \<Rightarrow> exn + string option" where
  "cgi_run app e m envp cin =
     (let req = snd (cgi_get_request e m envp cin)
      in case request_handler app of
           None \<Rightarrow> Inr (Some [])
         | Some f \<Rightarrow>
             (case (case f req of Inr resp \<Rightarrow> Inr resp | Inl x \<Rightarrow> guarded app x) of
                Inl x \<Rightarrow> Inl x
              | Inr resp \<Rightarrow> Inr (cgi_send_response resp)))"

subsection \<open>Apache\<close>

record apache_request =
  ap_headers_in :: "(string option \<times> string option) list"
  ap_auth_type :: "string option"
  ap_user :: "string option"
  ap_filename :: "string option"
  ap_method :: "string option"
  ap_path_info :: "string option"
  ap_args :: "string option"
  ap_uri :: "string option"
  ap_server_hostname :: "string option"
  ap_port :: int
  ap_protocol :: "string option"
  ap_remote_host :: "string option"
  ap_client_ip :: "string option"
  ap_banner :: "string option"
  ap_input :: string

definition fill_request :: "env \<Rightarrow> string option \<times> string option \<Rightarrow> http_request \<Rightarrow> http_request" where
  "fill_request e kv req = (case kv of (Some key, Some value) \<Rightarrow> set_header e key value req | _ \<Rightarrow> req)"

definition apache_get_request :: "env \<Rightarrow> http_method \<Rightarrow> apache_request \<Rightarrow> http_request" where
  "apache_get_request e m rq =
     (let req = fold (fill_request e) (ap_headers_in rq) (request_init m);
          req = req\<lparr>auth_type := to_string_ptr (ap_auth_type rq), remote_user := to_string_ptr (ap_user rq),
            path_translated := to_string_ptr (ap_filename rq)\<rparr>;
          req = set_method (to_string_ptr (ap_method rq)) req;
          req = req\<lparr>path_info := to_string_ptr (ap_path_info rq), query_string := to_string_ptr (ap_args rq),
            script_name := to_string_ptr (ap_uri rq), server_name := to_string_ptr (ap_server_hostname rq),
            server_port := ap_port rq, server_protocol := to_string_ptr (ap_protocol rq),
            server_software := to_string_ptr (ap_banner rq), remote_host := to_string_ptr (ap_remote_host rq),
            remote_addr := to_string_ptr (ap_client_ip rq), gateway_interface := ''CGI/1.1'',
            https := (ap_port rq = 443)\<rparr>
      in if length (ap_input rq) > 0 then set_content_n (to_int32 (int (length (ap_input rq)))) (ap_input rq) req
         else req)"

text \<open>What Apache is told, in order.\<close>

datatype apache_call = Table_Set string string | Ap_Status int | Ap_Content_Type string | Ap_Output string

definition set_cookie_calls :: "http_cookie list \<Rightarrow> apache_call list option" where
  "set_cookie_calls cs =
     those (map (\<lambda>c. map_option (\<lambda>v. Table_Set ''Set-Cookie'' (c_str v)) (cookie_str c)) cs)"

definition apache_send_response :: "http_response \<Rightarrow> apache_call list option" where
  "apache_send_response response =
     map_option (\<lambda>cs.
         map (\<lambda>(k, v). Table_Set (c_str k) (c_str v))
           (filter (\<lambda>(k, v). k \<noteq> ''Content-Length'' \<and> k \<noteq> ''Content-Type'') (headers response)) @
         cs @ [Ap_Status (http_error_code (status response))] @
         (if get_content_type response \<noteq> [] then [Ap_Content_Type (c_str (get_content_type response))] else []) @
         (if get_content_size response > 0 then [Ap_Output (take (get_content_size response) (content response))]
          else []))
       (set_cookie_calls (cookies response))"

definition DECLINED :: int where "DECLINED = -1"

text \<open>The result of the handler, what is told to Apache, and what is logged.\<close>

definition apache_handle_request ::
  "web_app \<Rightarrow> env \<Rightarrow> http_method \<Rightarrow> apache_request \<Rightarrow> exn + int \<times> apache_call list option \<times> string list" where
  "apache_handle_request app e m rq =
     (case request_handler app of
        None \<Rightarrow> Inr (DECLINED, Some [], [])
      | Some f \<Rightarrow>
          (let answer = (\<lambda>resp log. Inr
                 (if status resp = error_ok then 0 else http_error_code (status resp), apache_send_response resp, log))
           in case f (apache_get_request e m rq) of
                Inr resp \<Rightarrow> answer resp []
              | Inl (Dbp_Exception s) \<Rightarrow>
                  (case exception_handler app of
                     Some h \<Rightarrow> (case h (Dbp_Exception s) response_init of Inl x \<Rightarrow> Inl x | Inr resp \<Rightarrow> answer resp [])
                   | None \<Rightarrow> answer (server_error (Dbp_Exception s) response_init) [s])
              | Inl (Std_Exception s) \<Rightarrow> answer (server_error (Std_Exception s) response_init) [s]))"

subsection \<open>ISAPI\<close>

datatype server_variable = Value string | Insufficient_Buffer nat | No_Variable

text \<open>\<open>GetServerVariable\<close> is called with the size of the buffer, \<open>ReadClient\<close> with the number of bytes wanted;
  \<open>is_junk\<close> is what the buffer from \<open>malloc\<close> holds.\<close>

record isapi_request =
  GetServerVariable :: "string \<Rightarrow> nat \<Rightarrow> server_variable"
  ReadClient :: "nat \<Rightarrow> string option"
  WriteClient :: "string \<Rightarrow> bool"
  is_method :: "string option"
  is_query_string :: "string option"
  is_path_info :: "string option"
  is_path_translated :: "string option"
  is_content_type :: "string option"
  is_total_bytes :: nat
  is_data :: string
  is_junk :: string

definition get_server_variable :: "isapi_request \<Rightarrow> string \<Rightarrow> exn + string" where
  "get_server_variable rq name =
     (let missing = Inl (Dbp_Exception ''The specified variable doesn't exist'')
      in case GetServerVariable rq name 1024 of
           Value s \<Rightarrow> Inr s
         | No_Variable \<Rightarrow> missing
         | Insufficient_Buffer len \<Rightarrow>
             (case GetServerVariable rq name len of
                Value s \<Rightarrow> Inr s
              | No_Variable \<Rightarrow> missing
              | Insufficient_Buffer _ \<Rightarrow> Inl (Std_Exception ''std::bad_alloc'')))"

text \<open>The assignments \<open>set (get_server_variable (name))\<close> one after the other, until one throws.\<close>

fun set_variables ::
  "isapi_request \<Rightarrow> (string \<times> (string \<Rightarrow> http_request \<Rightarrow> http_request)) list \<Rightarrow> http_request \<Rightarrow> exn + http_request" where
  "set_variables rq [] req = Inr req"
| "set_variables rq ((name, f) # vs) req = (case get_server_variable rq name of
     Inl x \<Rightarrow> Inl x
   | Inr v \<Rightarrow> set_variables rq vs (f v req))"

definition isapi_body :: "isapi_request \<Rightarrow> http_request \<Rightarrow> exn + http_request" where
  "isapi_body rq req =
     (if is_total_bytes rq > 0 then
        (case (if is_total_bytes rq > length (is_data rq)
               then ReadClient rq (is_total_bytes rq - length (is_data rq)) else Some []) of
           None \<Rightarrow> Inl (Dbp_Exception ''Can't obtain data from the web server'')
         | Some rest \<Rightarrow>
             Inr (set_content_n (to_int32 (int (is_total_bytes rq)))
               (take (is_total_bytes rq) (is_data rq @ rest @ is_junk rq)) req))
      else Inr req)"

definition isapi_variables :: "(string \<times> (string \<Rightarrow> http_request \<Rightarrow> http_request)) list" where
  "isapi_variables =
     [(''AUTH_TYPE'', \<lambda>v. auth_type_update (\<lambda>_. v)), (''REMOTE_USER'', \<lambda>v. remote_user_update (\<lambda>_. v)),
      (''SCRIPT_NAME'', \<lambda>v. script_name_update (\<lambda>_. v)), (''SERVER_NAME'', \<lambda>v. server_name_update (\<lambda>_. v)),
      (''SERVER_PORT'', \<lambda>v. server_port_update (\<lambda>_. from_string_int v)),
      (''SERVER_PROTOCOL'', \<lambda>v. server_protocol_update (\<lambda>_. v)),
      (''SERVER_SOFTWARE'', \<lambda>v. server_software_update (\<lambda>_. v)), (''REMOTE_HOST'', \<lambda>v. remote_host_update (\<lambda>_. v)),
      (''REMOTE_ADDR'', \<lambda>v. remote_addr_update (\<lambda>_. v)),
      (''GATEWAY_INTERFACE'', \<lambda>v. gateway_interface_update (\<lambda>_. v))]"

definition isapi_get_request :: "env \<Rightarrow> http_method \<Rightarrow> isapi_request \<Rightarrow> exn + http_request" where
  "isapi_get_request e m rq = (case get_server_variable rq ''ALL_RAW'' of
     Inl x \<Rightarrow> Inl x
   | Inr raw \<Rightarrow>
       (let req = fold (\<lambda>i. set_header_line e (trim i)) (tokenize [CHR 0x0A] raw) (request_init m);
            req = set_method (to_string_ptr (is_method rq)) req;
            req = req\<lparr>query_string := to_string_ptr (is_query_string rq), path_info := to_string_ptr (is_path_info rq),
              path_translated := to_string_ptr (is_path_translated rq)\<rparr>;
            req = set_content_type (to_string_ptr (is_content_type rq)) req
        in case set_variables rq isapi_variables req of
             Inl x \<Rightarrow> Inl x
           | Inr req \<Rightarrow> isapi_body rq req))"

text \<open>The header text and the body that are sent.  The status line is not part of the result: it is passed as a
  pointer into a temporary string.\<close>

definition isapi_send_response :: "isapi_request \<Rightarrow> http_response \<Rightarrow> exn + (string \<times> string) option" where
  "isapi_send_response rq response = (case print_set_cookies (cookies response) of
     None \<Rightarrow> Inr None
   | Some cs \<Rightarrow>
       (let out = take (get_content_size response) (content response)
        in if get_content_size response > 0 \<and> \<not> WriteClient rq out
           then Inl (Dbp_Exception ''Can't send data to the web server'')
           else Inr (Some (print_headers (headers response) @ cs @ CRLF, out))))"

definition HSE_STATUS_SUCCESS :: int where "HSE_STATUS_SUCCESS = 1"

definition HSE_STATUS_ERROR :: int where "HSE_STATUS_ERROR = 4"

definition isapi_handle_request ::
  "web_app \<Rightarrow> env \<Rightarrow> http_method \<Rightarrow> isapi_request \<Rightarrow> exn + int \<times> (string \<times> string) option" where
  "isapi_handle_request app e m rq = (case request_handler app of
     None \<Rightarrow> Inr (HSE_STATUS_ERROR, None)
   | Some f \<Rightarrow>
       (case isapi_get_request e m rq of
          Inl x \<Rightarrow> Inl x
        | Inr req \<Rightarrow>
            (case (case f req of Inr resp \<Rightarrow> Inr resp | Inl x \<Rightarrow> guarded app x) of
               Inl x \<Rightarrow> Inl x
             | Inr resp \<Rightarrow>
                 (case isapi_send_response rq resp of
                    Inl x \<Rightarrow> Inl x
                  | Inr out \<Rightarrow>
                      Inr (if status resp = error_internal_server_error then HSE_STATUS_ERROR else HSE_STATUS_SUCCESS, out)))))"

section \<open>Properties\<close>

subsection \<open>The environment of a CGI process\<close>

lemma dash_loop_map: "dash_loop s = map to_dash s"
proof (induction s rule: dash_loop.induct)
  case (1 s)
  show ?case
  proof (cases "find_first_of ''_'' s 0")
    case None
    then have "\<forall>c \<in> set s. to_dash c = c" by (auto simp: find_first_of_def find_idx_None to_dash_def)
    then show ?thesis using None by (subst dash_loop.simps) (simp add: map_idI)
  next
    case (Some pos)
    note u = underscore_split [OF Some]
    have "map to_dash (s[pos := CHR ''-'']) = map to_dash s"
    proof -
      have "map to_dash (s[pos := CHR ''-'']) = map to_dash (take pos s @ CHR ''_'' # drop (Suc pos) s)"
        unfolding u(2) by (simp add: to_dash_def)
      then show ?thesis unfolding u(1) [symmetric] .
    qed
    then show ?thesis using Some 1 by (subst dash_loop.simps) simp
  qed
qed

text \<open>A variable as the environment has it.\<close>

definition env_line :: "string \<times> string \<Rightarrow> string" where
  "env_line nv = fst nv @ ''='' @ snd nv"

definition env_name_ok :: "string \<times> string \<Rightarrow> bool" where
  "env_name_ok nv = (CHR ''='' \<notin> set (fst nv))"

lemma cgi_split_line: "env_name_ok nv \<Longrightarrow> cgi_split (env_line nv) = nv"
proof -
  assume "env_name_ok nv"
  then have "find_first_of ''='' (fst nv @ CHR ''='' # snd nv) 0 = Some (length (fst nv))"
    using find_idx_append_hit [of "fst nv" "\<lambda>c. c \<in> set ''=''" "CHR ''=''" "snd nv"]
    by (auto simp: find_first_of_def env_name_ok_def)
  then show ?thesis by (simp add: cgi_split_def env_line_def substr_def)
qed

text \<open>The value a list of assignments leaves in a variable.\<close>

definition last_value :: "string \<Rightarrow> (string \<times> string) list \<Rightarrow> 'a \<Rightarrow> (string \<Rightarrow> 'a) \<Rightarrow> 'a" where
  "last_value name env d g = (case map_of (rev env) name of None \<Rightarrow> d | Some v \<Rightarrow> g v)"

lemma last_value_fold:
  assumes "\<And>nv s. nv \<in> set env \<Longrightarrow> f (step nv s) = (if fst nv = name then g (snd nv) else f s)"
  shows "f (fold step env s) = last_value name env (f s) g"
  using assms
proof (induction env arbitrary: s)
  case (Cons nv env)
  have "f (fold step (nv # env) s) = last_value name env (f (step nv s)) g" using Cons by simp
  then show ?case using Cons.prems [of nv s]
    by (auto simp: last_value_def map_add_def split: option.split)
qed (simp add: last_value_def)

lemma set_header_frame [simp]:
  "http_request.more (set_header e k v r) = http_request.more r"
  "auth_type (set_header e k v r) = auth_type r" "gateway_interface (set_header e k v r) = gateway_interface r"
  "path_info (set_header e k v r) = path_info r" "path_translated (set_header e k v r) = path_translated r"
  "query_string (set_header e k v r) = query_string r" "remote_addr (set_header e k v r) = remote_addr r"
  "remote_host (set_header e k v r) = remote_host r" "remote_ident (set_header e k v r) = remote_ident r"
  "remote_user (set_header e k v r) = remote_user r" "script_name (set_header e k v r) = script_name r"
  "server_name (set_header e k v r) = server_name r" "server_port (set_header e k v r) = server_port r"
  "server_protocol (set_header e k v r) = server_protocol r" "req_method (set_header e k v r) = req_method r"
  "server_software (set_header e k v r) = server_software r" "https (set_header e k v r) = https r"
  by (simp_all add: set_header_def header_put_def add_cookie_def)

lemma set_content_type_frame [simp]:
  "auth_type (set_content_type v r) = auth_type r" "gateway_interface (set_content_type v r) = gateway_interface r"
  "path_info (set_content_type v r) = path_info r" "path_translated (set_content_type v r) = path_translated r"
  "query_string (set_content_type v r) = query_string r" "remote_addr (set_content_type v r) = remote_addr r"
  "remote_host (set_content_type v r) = remote_host r" "remote_ident (set_content_type v r) = remote_ident r"
  "remote_user (set_content_type v r) = remote_user r" "script_name (set_content_type v r) = script_name r"
  "server_name (set_content_type v r) = server_name r" "server_port (set_content_type v r) = server_port r"
  "server_protocol (set_content_type v r) = server_protocol r" "req_method (set_content_type v r) = req_method r"
  "server_software (set_content_type v r) = server_software r" "https (set_content_type v r) = https r"
  by (simp_all add: set_content_type_def header_put_def)

text \<open>What \<open>cgi_get_request\<close> makes of the variables, before it reads the body.\<close>

definition cgi_head :: "env \<Rightarrow> http_method \<Rightarrow> (string \<times> string) list \<Rightarrow> int \<times> http_request" where
  "cgi_head e m vs = fold (\<lambda>nv. cgi_variable e (env_line nv)) vs (0, request_init m)"

lemma cgi_head_value:
  assumes "list_all env_name_ok vs"
    and "\<And>nv s. env_name_ok nv \<Longrightarrow> f (cgi_variable e (env_line nv) s) = (if fst nv = name then g (snd nv) else f s)"
  shows "f (cgi_head e m vs) = last_value name vs (f (0, request_init m)) g"
  unfolding cgi_head_def using assms by (intro last_value_fold) (auto simp: list_all_iff)

lemma cgi_head_fields:
  assumes "list_all env_name_ok vs"
  shows "fst (cgi_head e m vs) = last_value ''CONTENT_LENGTH'' vs 0 from_string_int"
    "auth_type (snd (cgi_head e m vs)) = last_value ''AUTH_TYPE'' vs [] id"
    "gateway_interface (snd (cgi_head e m vs)) = last_value ''GATEWAY_INTERFACE'' vs [] id"
    "path_info (snd (cgi_head e m vs)) = last_value ''PATH_INFO'' vs [] id"
    "path_translated (snd (cgi_head e m vs)) = last_value ''PATH_TRANSLATED'' vs [] id"
    "query_string (snd (cgi_head e m vs)) = last_value ''QUERY_STRING'' vs [] id"
    "remote_addr (snd (cgi_head e m vs)) = last_value ''REMOTE_ADDR'' vs [] id"
    "remote_host (snd (cgi_head e m vs)) = last_value ''REMOTE_HOST'' vs [] id"
    "remote_ident (snd (cgi_head e m vs)) = last_value ''REMOTE_IDENT'' vs [] id"
    "remote_user (snd (cgi_head e m vs)) = last_value ''REMOTE_USER'' vs [] id"
    "req_method (snd (cgi_head e m vs)) = last_value ''REQUEST_METHOD'' vs m http_method_of_string"
    "script_name (snd (cgi_head e m vs)) = last_value ''SCRIPT_NAME'' vs [] id"
    "server_name (snd (cgi_head e m vs)) = last_value ''SERVER_NAME'' vs [] id"
    "server_port (snd (cgi_head e m vs)) = last_value ''SERVER_PORT'' vs 0 from_string_int"
    "server_protocol (snd (cgi_head e m vs)) = last_value ''SERVER_PROTOCOL'' vs [] id"
    "server_software (snd (cgi_head e m vs)) = last_value ''SERVER_SOFTWARE'' vs [] id"
    "https (snd (cgi_head e m vs)) = last_value ''HTTPS'' vs False (\<lambda>v. v = ''on'')"
  by (subst cgi_head_value [OF assms]; force simp: cgi_variable_def cgi_split_line set_method_def request_init_def
      http_header.defs http_request.defs header_init_def split: prod.split)+

definition header_name :: "string \<Rightarrow> string option" where
  "header_name n = (if take 5 n = ''HTTP_'' then Some (map to_dash (drop 5 n)) else None)"

definition names_header :: "string \<Rightarrow> string \<times> string \<Rightarrow> bool" where
  "names_header k nv = (case header_name (fst nv) of None \<Rightarrow> False | Some h \<Rightarrow> compare k h)"

lemma cgi_variable_header:
  assumes "env_name_ok nv" "header_name (fst nv) = Some h"
  shows "cgi_variable e (env_line nv) s = (fst s, set_header e h (snd nv) (snd s))"
proof -
  have n: "take 5 (fst nv) = ''HTTP_''" and h: "h = map to_dash (drop 5 (fst nv))"
    using assms(2) by (auto simp: header_name_def split: if_splits)
  then have "fst nv = ''HTTP_'' @ drop 5 (fst nv)" by (metis append_take_drop_id)
  then obtain x where x: "fst nv = ''HTTP_'' @ x" by blast
  then show ?thesis using h
    by (simp add: cgi_variable_def cgi_split_line [OF assms(1)] case_prod_beta substr_def dash_loop_map)
qed

lemma cgi_variable_other:
  assumes "env_name_ok nv" "header_name (fst nv) = None"
  shows "headers (snd (cgi_variable e (env_line nv) s)) =
      (if fst nv = ''CONTENT_TYPE'' then map_assign ci_less ''Content-Type'' (snd nv) (headers (snd s)) else headers (snd s))
    \<and> content (snd (cgi_variable e (env_line nv) s)) = content (snd s)"
  using assms(2)
  by (auto simp: cgi_variable_def cgi_split_line [OF assms(1)] case_prod_beta substr_def header_name_def set_method_def
      set_content_type_def header_put_def)

lemma cgi_variable_ok:
  assumes "env_name_ok nv" "header_ok (snd s)"
  shows "header_ok (snd (cgi_variable e (env_line nv) s)) \<and> content (snd (cgi_variable e (env_line nv) s)) = content (snd s)"
proof (cases "header_name (fst nv)")
  case None
  then show ?thesis using cgi_variable_other [OF assms(1) None, of e s] assms(2)
    by (auto simp: header_ok_def header_order.map_ok_assign)
next
  case (Some h)
  then show ?thesis using assms(2)
    by (simp add: cgi_variable_header [OF assms(1) Some] set_header_ok) (simp add: set_header_def add_cookie_def)
qed

lemma cgi_head_ok:
  "list_all env_name_ok vs \<Longrightarrow> header_ok (snd (cgi_head e m vs)) \<and> content (snd (cgi_head e m vs)) = []"
proof (induction vs rule: rev_induct)
  case Nil
  show ?case by (simp add: cgi_head_def request_init_def http_header.defs header_init_def header_ok_def)
next
  case (snoc nv vs)
  then show ?case using cgi_variable_ok [of nv "cgi_head e m vs" e] by (simp add: cgi_head_def)
qed

lemma cgi_head_header:
  assumes "list_all env_name_ok vs" "\<not> is_cookie_key k" "\<not> compare k ''Content-Type''"
  shows "get_header k (snd (cgi_head e m vs)) =
    (case find (names_header k) (rev vs) of None \<Rightarrow> [] | Some nv \<Rightarrow> snd nv)"
  using assms(1)
proof (induction vs rule: rev_induct)
  case Nil
  show ?case by (simp add: cgi_head_def request_init_def http_header.defs header_init_def get_header_def map_find_def)
next
  case (snoc nv vs)
  let ?s = "cgi_head e m vs"
  have nv: "env_name_ok nv" and ok: "header_ok (snd ?s)" using snoc.prems cgi_head_ok [of vs e m] by auto
  have s: "cgi_head e m (vs @ [nv]) = cgi_variable e (env_line nv) ?s" by (simp add: cgi_head_def)
  have "get_header k (snd (cgi_variable e (env_line nv) ?s)) = (if names_header k nv then snd nv else get_header k (snd ?s))"
  proof (cases "header_name (fst nv)")
    case None
    then show ?thesis using cgi_variable_other [OF nv None, of e ?s] assms(3) get_header_put [OF ok]
      by (auto simp: names_header_def get_header_def header_put_def)
  next
    case (Some h)
    then show ?thesis using assms(2) ok get_header_put [OF ok, of k h "snd nv"]
      by (auto simp: cgi_variable_header [OF nv Some] names_header_def set_header_def is_cookie_key_def compare_iff
          get_header_def add_cookie_def)
  qed
  then show ?case using snoc s by simp
qed

lemma cgi_get_request_head:
  "snd (cgi_get_request e m (map env_line vs) cin) =
     (if fst (cgi_head e m vs) > 0 then snd (add_content_n (fst (cgi_head e m vs)) cin (snd (cgi_head e m vs)))
      else snd (cgi_head e m vs))"
  by (simp add: cgi_get_request_def cgi_head_def fold_map comp_def case_prod_beta)

lemma add_content_n_frame:
  "path_info (snd (add_content_n n st r)) = path_info r" "query_string (snd (add_content_n n st r)) = query_string r"
  "req_method (snd (add_content_n n st r)) = req_method r" "script_name (snd (add_content_n n st r)) = script_name r"
  "server_port (snd (add_content_n n st r)) = server_port r" "remote_user (snd (add_content_n n st r)) = remote_user r"
  "https (snd (add_content_n n st r)) = https r" "remote_addr (snd (add_content_n n st r)) = remote_addr r"
  "remote_host (snd (add_content_n n st r)) = remote_host r" "remote_ident (snd (add_content_n n st r)) = remote_ident r"
  "auth_type (snd (add_content_n n st r)) = auth_type r" "path_translated (snd (add_content_n n st r)) = path_translated r"
  "server_name (snd (add_content_n n st r)) = server_name r" "server_protocol (snd (add_content_n n st r)) = server_protocol r"
  "server_software (snd (add_content_n n st r)) = server_software r"
  "gateway_interface (snd (add_content_n n st r)) = gateway_interface r"
  by (simp_all add: add_content_n_def header_put_def Let_def)

lemma add_content_n_header:
  assumes "header_ok h" "\<not> compare k ''Content-Length''"
  shows "get_header k (snd (add_content_n n st h)) = get_header k h"
proof -
  have "header_ok (h\<lparr>content := c\<rparr>)" "get_header k (h\<lparr>content := c\<rparr>) = get_header k h"
    "header_ok (h\<lparr>content := c, overrun := o'\<rparr>)" "get_header k (h\<lparr>content := c, overrun := o'\<rparr>) = get_header k h" for c o'
    using assms(1) by (simp_all add: get_header_def)
  then show ?thesis using assms(2) by (simp add: add_content_n_def Let_def get_header_put)
qed



subsection \<open>Answers\<close>

lemma server_error_print:
  assumes "length (what x) < 2 ^ 31"
  shows "get_status (server_error x response_init) = ''500 Internal Server Error''"
    "response_print (server_error x response_init) =
       Some (''Content-Length: '' @ to_string_int (int (length (what x))) @ CRLF @
         ''Content-Type: text/plain; charset=utf-8'' @ CRLF @ CRLF @ what x)"
proof -
  have "get_status (set_status error_internal_server_error response_init) = ''500 Internal Server Error''" by code_simp
  then show "get_status (server_error x response_init) = ''500 Internal Server Error''"
    by (simp add: server_error_def set_content_def set_content_n_def Let_def get_status_def header_put_def)
  have h: "headers (set_status error_internal_server_error response_init) = [(''Content-Type'', ''text/plain; charset=utf-8'')]"
    "content (set_status error_internal_server_error response_init) = []"
    "cookies (set_status error_internal_server_error response_init) = []" by code_simp+
  have "map_assign ci_less ''Content-Length'' v [(''Content-Type'', ''text/plain; charset=utf-8'')] =
      [(''Content-Length'', v), (''Content-Type'', ''text/plain; charset=utf-8'')]" for v
  proof -
    have "ci_less ''Content-Length'' ''Content-Type''" "\<not> ci_less ''Content-Type'' ''Content-Length''" by code_simp+
    then show ?thesis by simp
  qed
  then show "response_print (server_error x response_init) =
       Some (''Content-Length: '' @ to_string_int (int (length (what x))) @ CRLF @
         ''Content-Type: text/plain; charset=utf-8'' @ CRLF @ CRLF @ what x)"
    using h int32_length [OF assms]
    by (simp add: response_print_def server_error_def set_content_def set_content_n_def Let_def header_put_def
        print_headers_def print_content_def get_content_size_def)
qed

text \<open>C40: A CGI process answers failures: when the function that handles the request throws and no exception handler is
  registered, the output is a complete response with the status 500, the length of the message, and the
  message as its body.\<close>

theorem cgi_failure_reported:
  assumes "request_handler app = Some f" "exception_handler app = None"
    and "f (snd (cgi_get_request e m envp cin)) = Inl x" "length (what x) < 2 ^ 31"
  shows "cgi_run app e m envp cin =
    Inr (Some (''Status: 500 Internal Server Error'' @ CRLF @
      ''Content-Length: '' @ to_string_int (int (length (what x))) @ CRLF @
      ''Content-Type: text/plain; charset=utf-8'' @ CRLF @ CRLF @ what x))"
  using assms(1-3) server_error_print [OF assms(4)] by (simp add: cgi_run_def guarded_def cgi_send_response_def)

theorem cgi_failure_reported_witness:
  "cgi_run \<lparr>request_handler = Some (\<lambda>_. Inl (Std_Exception ''no data'')), exception_handler = None\<rparr>
     (env.make 0 (gmtime 0) False) method_unknown [] (open_stream []) =
   Inr (Some (''Status: 500 Internal Server Error'' @ CRLF @ ''Content-Length: 7'' @ CRLF @
     ''Content-Type: text/plain; charset=utf-8'' @ CRLF @ CRLF @ ''no data''))"
proof -
  have "to_string_int 7 = ''7''" by code_simp
  then show ?thesis
    using cgi_failure_reported [of "\<lparr>request_handler = Some (\<lambda>_. Inl (Std_Exception ''no data'')), exception_handler = None\<rparr>"
      "\<lambda>_. Inl (Std_Exception ''no data'')" "env.make 0 (gmtime 0) False" method_unknown "[]" "open_stream []"
      "Std_Exception ''no data''"] by simp
qed

text \<open>In Apache an exception that is not derived from \<open>dbp::exception\<close> never reaches a registered exception handler.\<close>

theorem apache_handler_bypassed:
  "apache_handle_request \<lparr>request_handler = Some (\<lambda>_. Inl (Std_Exception s)), exception_handler = h\<rparr> e m rq =
     Inr (500, apache_send_response (server_error (Std_Exception s) response_init), [s])"
proof -
  have "status (server_error x response_init) = error_internal_server_error" for x
    by (simp add: server_error_def set_content_def set_content_n_def Let_def header_put_def set_status_def)
  moreover have "http_error_code error_internal_server_error = 500" by code_simp
  ultimately show ?thesis by (simp add: apache_handle_request_def)
qed

subsection \<open>Cookies in Apache\<close>

text \<open>What \<open>apr_table_set\<close> documents: the value of a key is replaced.\<close>

definition table_law :: "(string \<Rightarrow> string \<Rightarrow> 't \<Rightarrow> 't) \<Rightarrow> (string \<Rightarrow> 't \<Rightarrow> string option) \<Rightarrow> bool" where
  "table_law put get = (\<forall>k v k' t. get k' (put k v t) = (if compare k' k then Some v else get k' t))"

fun table_after :: "(string \<Rightarrow> string \<Rightarrow> 't \<Rightarrow> 't) \<Rightarrow> apache_call list \<Rightarrow> 't \<Rightarrow> 't" where
  "table_after put [] t = t"
| "table_after put (Table_Set k v # cs) t = table_after put cs (put k v t)"
| "table_after put (_ # cs) t = table_after put cs t"

lemma table_after_append: "table_after put (xs @ ys) t = table_after put ys (table_after put xs t)"
  by (induction put xs t rule: table_after.induct) simp_all

lemma table_after_no_set: "(\<And>k v. Table_Set k v \<notin> set cs) \<Longrightarrow> table_after put cs t = t"
  by (induction put cs t rule: table_after.induct) auto

lemma set_cookie_calls_last:
  assumes "set_cookie_calls (cs @ [c]) = Some xs"
  obtains ys v where "xs = ys @ [Table_Set ''Set-Cookie'' (c_str v)]" "cookie_str c = Some v"
proof -
  have "those (fs @ [f]) = Some xs \<Longrightarrow> \<exists>ys y. xs = ys @ [y] \<and> f = Some y" for fs f and xs :: "apache_call list"
    by (induction fs arbitrary: xs) (auto split: option.splits)
  from this [of "map (\<lambda>c. map_option (\<lambda>v. Table_Set ''Set-Cookie'' (c_str v)) (cookie_str c)) cs"] assms that show ?thesis
    by (fastforce simp: set_cookie_calls_def)
qed

text \<open>Of several cookies of a response, Apache sends only the last one: each is put under the same key.\<close>

theorem apache_sends_last_cookie_only:
  assumes "table_law put get" "cookies resp = cs @ [c]" "apache_send_response resp = Some calls"
  shows "get ''Set-Cookie'' (table_after put calls t) = map_option c_str (cookie_str c)"
proof -
  obtain xs where xs: "set_cookie_calls (cs @ [c]) = Some xs" using assms(2,3) by (auto simp: apache_send_response_def)
  then obtain ys v where ys: "xs = ys @ [Table_Set ''Set-Cookie'' (c_str v)]" "cookie_str c = Some v"
    by (rule set_cookie_calls_last)
  let ?as = "map (\<lambda>(k, v). Table_Set (c_str k) (c_str v))
      (filter (\<lambda>(k, v). k \<noteq> ''Content-Length'' \<and> k \<noteq> ''Content-Type'') (headers resp)) @ ys"
    and ?bs = "[Ap_Status (http_error_code (status resp))] @
      (if get_content_type resp \<noteq> [] then [Ap_Content_Type (c_str (get_content_type resp))] else []) @
      (if get_content_size resp > 0 then [Ap_Output (take (get_content_size resp) (content resp))] else [])"
  have "calls = ?as @ [Table_Set ''Set-Cookie'' (c_str v)] @ ?bs"
    using assms(2,3) xs ys unfolding apache_send_response_def by simp
  moreover have "table_after put ?bs t = t" for t by (rule table_after_no_set) auto
  ultimately show ?thesis using assms(1) ys(2) by (simp only: table_after_append) (simp add: table_law_def)
qed

end
