(* ===== verification/Filesystem.thy ===== *)
theory Filesystem
  imports Strutils
begin

text \<open>
  \<open>filesystem.h\<close>, \<open>filefs.cpp\<close> and its two implementations: the iterator over the files that match a pattern, the
  searches behind it on POSIX (\<open>glob\<close>) and on Windows (\<open>FindFirstFile\<close>), and the current directory.  What the
  operating system finds for a pattern is a parameter.  The contract the iterator relies on is the locale
  \<open>file_search\<close>; the POSIX search is an interpretation, and the Windows search is shown not to be one.
\<close>

subsection \<open>The iterator\<close>

text \<open>\<open>has_fs\<close> tells whether the pointer to the file system is not null.  The overflow of the counter is taken to wrap
  around.\<close>

record const_iterator =
  rownum :: int
  filename :: string
  has_fs :: bool

text \<open>The result of a search step: whether a file was found, and the new value of the file name.\<close>

type_synonym found = "bool \<times> string"

definition iterator_end :: const_iterator where
  "iterator_end = \<lparr>rownum = 0, filename = [], has_fs = False\<rparr>"

definition iterator_new :: "(string \<Rightarrow> string \<Rightarrow> 's \<Rightarrow> found \<times> 's) \<Rightarrow> string \<Rightarrow> 's \<Rightarrow> const_iterator \<times> 's" where
  "iterator_new find_first_file pattern s =
     (let ((ok, name), s) = find_first_file pattern [] s in (\<lparr>rownum = (if ok then 1 else 0), filename = name, has_fs = True\<rparr>, s))"

definition iterator_inc :: "(string \<Rightarrow> 's \<Rightarrow> found \<times> 's) \<Rightarrow> const_iterator \<Rightarrow> 's \<Rightarrow> const_iterator \<times> 's" where
  "iterator_inc find_next_file i s =
     (if \<not> has_fs i then (i\<lparr>rownum := 0\<rparr>, s)
      else let ((ok, name), s) = find_next_file (filename i) s
           in (i\<lparr>rownum := (if ok then to_int32 (rownum i + 1) else 0), filename := name\<rparr>, s))"

definition iterator_eq :: "const_iterator \<Rightarrow> const_iterator \<Rightarrow> bool" where
  "iterator_eq i j = (rownum i = rownum j)"

text \<open>The names a loop from \<open>find (pattern)\<close> to \<open>end ()\<close> visits; \<^const>\<open>None\<close> if it never ends.\<close>

partial_function (option) visit ::
  "(string \<Rightarrow> 's \<Rightarrow> found \<times> 's) \<Rightarrow> const_iterator \<Rightarrow> 's \<Rightarrow> string list \<Rightarrow> string list option" where
  "visit next i s acc =
     (if iterator_eq i iterator_end then Some acc
      else let (j, s) = iterator_inc next i s in visit next j s (acc @ [filename i]))"

definition find_all ::
  "(string \<Rightarrow> string \<Rightarrow> 's \<Rightarrow> found \<times> 's) \<Rightarrow> (string \<Rightarrow> 's \<Rightarrow> found \<times> 's) \<Rightarrow> string \<Rightarrow> 's \<Rightarrow> string list option" where
  "find_all first next pattern s = (let (i, s) = iterator_new first pattern s in visit next i s [])"

subsection \<open>POSIX\<close>

record posix_search =
  gl_pathv :: "string list"
  cur :: nat

text \<open>\<open>glob\<close> is the list of paths, or \<^const>\<open>None\<close> when it does not return zero.\<close>

definition posix_find_next :: "string \<Rightarrow> posix_search \<Rightarrow> found \<times> posix_search" where
  "posix_find_next name s =
     (if cur s < length (gl_pathv s) then ((True, gl_pathv s ! cur s), s\<lparr>cur := cur s + 1\<rparr>) else ((False, []), s))"

definition posix_find_first ::
  "(string \<Rightarrow> string list option) \<Rightarrow> string \<Rightarrow> string \<Rightarrow> posix_search \<Rightarrow> found \<times> posix_search" where
  "posix_find_first glob pattern name s = (case glob pattern of
     Some paths \<Rightarrow> posix_find_next name \<lparr>gl_pathv = paths, cur = 0\<rparr>
   | None \<Rightarrow> ((False, name), s\<lparr>cur := 0\<rparr>))"

text \<open>The loop of \<open>_getcwd\<close>, with the answer of \<open>getcwd\<close> for each size of the buffer.\<close>

datatype getcwd_result = Cwd string | Range_Error | Other_Error

partial_function (option) getcwd_loop :: "(nat \<Rightarrow> getcwd_result) \<Rightarrow> nat \<Rightarrow> string option option" where
  "getcwd_loop getcwd n = (case getcwd n of
     Cwd s \<Rightarrow> Some (Some s)
   | Other_Error \<Rightarrow> Some None
   | Range_Error \<Rightarrow> getcwd_loop getcwd (n * 2))"

definition get_current_dir :: "(nat \<Rightarrow> getcwd_result) \<Rightarrow> string option" where
  "get_current_dir getcwd = map_option (\<lambda>r. case r of Some s \<Rightarrow> s | None \<Rightarrow> []) (getcwd_loop getcwd 100)"

subsection \<open>Windows\<close>

text \<open>The names behind the search handle, the data of the current one, and the path in front of them.  When
  \<open>FindNextFileA\<close> fails it leaves the data as they are.\<close>

record win_search =
  w_handle :: "string list"
  w_data :: string
  w_path :: string

definition win_find_first ::
  "(string \<Rightarrow> string list) \<Rightarrow> string \<Rightarrow> string \<Rightarrow> win_search \<Rightarrow> found \<times> win_search" where
  "win_find_first dir pattern name s =
     (let path = fst (tokenize_pair [CHR ''/'', CHR 0x5C] True pattern (w_path s, []));
          path = (if path \<noteq> [] then path @ [CHR 0x5C] else path)
      in case dir pattern of
           [] \<Rightarrow> ((False, name), s\<lparr>w_handle := [], w_path := path\<rparr>)
         | f # fs \<Rightarrow> ((True, path @ f), \<lparr>w_handle = fs, w_data = f, w_path = path\<rparr>))"

definition win_find_next :: "string \<Rightarrow> win_search \<Rightarrow> found \<times> win_search" where
  "win_find_next name s =
     (let name = w_path s @ w_data s
      in case w_handle s of
           [] \<Rightarrow> ((False, name), s)
         | f # fs \<Rightarrow> ((True, name), s\<lparr>w_handle := fs, w_data := f\<rparr>))"

text \<open>The directory of the program, without a trailing \<open>bin\<close>.\<close>

definition get_root_dir :: "string \<Rightarrow> string" where
  "get_root_dir module_name =
     (let ds = [CHR ''/'', CHR 0x5C];
          (dir, fname) = tokenize_pair ds True module_name ([], []);
          (s, fname) = tokenize_pair ds True dir ([], fname)
      in if fname = ''bin'' then s else dir)"

section \<open>Properties\<close>

subsection \<open>The contract of a search\<close>

lemma rownum_fits: "rownum i > 0 \<Longrightarrow> rownum i + 1 \<le> INT_MAX \<Longrightarrow> to_int32 (rownum i + 1) = rownum i + 1"
  by (intro to_int32_id) (simp add: is_int32_def INT_MIN_def)

locale file_search =
  fixes first :: "string \<Rightarrow> string \<Rightarrow> 's \<Rightarrow> found \<times> 's"
    and nxt :: "string \<Rightarrow> 's \<Rightarrow> found \<times> 's"
    and matches :: "string \<Rightarrow> string list"
    and rest :: "'s \<Rightarrow> string list"
  assumes first_none: "matches p = [] \<Longrightarrow> \<not> fst (fst (first p n s))"
    and first_some: "matches p = f # fs \<Longrightarrow> fst (first p n s) = (True, f) \<and> rest (snd (first p n s)) = fs"
    and next_none: "rest s = [] \<Longrightarrow> \<not> fst (fst (nxt n s))"
    and next_some: "rest s = f # fs \<Longrightarrow> fst (nxt n s) = (True, f) \<and> rest (snd (nxt n s)) = fs"
begin

lemma visit_rest:
  "rownum i > 0 \<Longrightarrow> has_fs i \<Longrightarrow> rownum i + int (length (rest s)) \<le> INT_MAX \<Longrightarrow>
     visit nxt i s acc = Some (acc @ filename i # rest s)"
proof (induction "rest s" arbitrary: i s acc)
  case Nil
  obtain n s' where "nxt (filename i) s = ((False, n), s')" using next_none [of s "filename i"] Nil.hyps
    by (metis (full_types) prod.collapse)
  then have "visit nxt i s acc = visit nxt (i\<lparr>rownum := 0, filename := n\<rparr>) s' (acc @ [filename i])"
    using Nil.prems by (subst visit.simps) (simp add: iterator_eq_def iterator_end_def iterator_inc_def)
  then show ?case using Nil.hyps [symmetric] by (subst (asm) (2) visit.simps) (simp add: iterator_eq_def iterator_end_def)
next
  case (Cons f fs)
  obtain s' where n: "nxt (filename i) s = ((True, f), s')" and r: "fs = rest s'"
    using next_some [of s f fs "filename i"] Cons.hyps(2) by (metis prod.collapse)
  then have "visit nxt i s acc = visit nxt (i\<lparr>rownum := rownum i + 1, filename := f\<rparr>) s' (acc @ [filename i])"
    using Cons.prems Cons.hyps(2) [symmetric] rownum_fits [of i] by (subst visit.simps) (simp add: iterator_eq_def iterator_end_def iterator_inc_def)
  then show ?case
    using Cons.hyps(1) [OF r, of "i\<lparr>rownum := rownum i + 1, filename := f\<rparr>"] Cons.prems Cons.hyps(2) [symmetric] r by simp
qed

lemma find_all_matches:
  assumes "int (length (matches p)) \<le> INT_MAX"
  shows "find_all first nxt p s = Some (matches p)"
proof (cases "matches p")
  case Nil
  then obtain n s' where "first p [] s = ((False, n), s')" using first_none [of p "[]" s] by (metis (full_types) prod.collapse)
  then show ?thesis using Nil
    by (simp add: find_all_def iterator_new_def visit.simps iterator_eq_def iterator_end_def)
next
  case (Cons f fs)
  then obtain s' where "first p [] s = ((True, f), s')" "rest s' = fs" using first_some [OF Cons, of "[]" s] by (metis prod.collapse)
  then show ?thesis using Cons assms by (simp add: find_all_def iterator_new_def visit_rest)
qed

end

definition glob_list :: "(string \<Rightarrow> string list option) \<Rightarrow> string \<Rightarrow> string list" where
  "glob_list glob p = (case glob p of None \<Rightarrow> [] | Some paths \<Rightarrow> paths)"

interpretation posix: file_search "posix_find_first glob" posix_find_next "glob_list glob" "\<lambda>s. drop (cur s) (gl_pathv s)" for glob
proof (unfold_locales, goal_cases)
  case (4 s f fs n)
  then have "cur s < length (gl_pathv s)" "gl_pathv s ! cur s = f" "drop (Suc (cur s)) (gl_pathv s) = fs"
    by (metis drop_eq_Nil2 leI list.distinct(1), metis Cons_nth_drop_Suc drop_eq_Nil2 leI list.distinct(1) list.sel(1),
        metis drop_Suc list.sel(3) tl_drop)
  then show ?case by (simp add: posix_find_next_def)
qed (auto simp: posix_find_first_def posix_find_next_def glob_list_def split: option.splits)

text \<open>On POSIX a loop over \<open>find (pattern)\<close> ends and visits exactly the paths \<open>glob\<close> delivers, each once and in
  order, and none when \<open>glob\<close> fails, provided they can be counted by an \<open>int\<close>.\<close>

theorem posix_find_visits_all:
  assumes "int (length (glob_list glob pattern)) \<le> INT_MAX"
  shows "find_all (posix_find_first glob) posix_find_next pattern s = Some (glob_list glob pattern)"
  using assms by (rule posix.find_all_matches)

theorem posix_find_visits_all_witness:
  "find_all (posix_find_first (\<lambda>p. if p = ''*.conf'' then Some [''a.conf'', ''b.conf''] else None)) posix_find_next ''*.conf''
     \<lparr>gl_pathv = [], cur = 0\<rparr> = Some [''a.conf'', ''b.conf'']"
  using posix_find_visits_all [of "\<lambda>p. if p = ''*.conf'' then Some [''a.conf'', ''b.conf''] else None" "''*.conf''"]
  by (simp add: glob_list_def INT_MAX_def)

subsection \<open>The Windows search\<close>

lemma win_visit:
  "rownum i > 0 \<Longrightarrow> has_fs i \<Longrightarrow> rownum i + int (length (w_handle s)) \<le> INT_MAX \<Longrightarrow> visit win_find_next i s acc =
     Some (acc @ filename i # map (\<lambda>f. w_path s @ f) (butlast (w_data s # w_handle s)))"
proof (induction "w_handle s" arbitrary: i s acc)
  case Nil
  then have "visit win_find_next i s acc =
      visit win_find_next (i\<lparr>rownum := 0, filename := w_path s @ w_data s\<rparr>) s (acc @ [filename i])"
    by (subst visit.simps) (simp add: iterator_eq_def iterator_end_def iterator_inc_def win_find_next_def split: list.split)
  then show ?case using Nil.hyps by (subst (asm) (2) visit.simps) (simp add: iterator_eq_def iterator_end_def)
next
  case (Cons f fs)
  let ?s = "s\<lparr>w_handle := fs, w_data := f\<rparr>" and ?i = "i\<lparr>rownum := rownum i + 1, filename := w_path s @ w_data s\<rparr>"
  have h: "w_handle s = f # fs" using Cons.hyps(2) by simp
  then have "visit win_find_next i s acc = visit win_find_next ?i ?s (acc @ [filename i])"
    using Cons.prems rownum_fits [of i]
    by (subst visit.simps) (simp add: iterator_eq_def iterator_end_def iterator_inc_def win_find_next_def)
  also have "\<dots> = Some ((acc @ [filename i]) @ filename ?i # map (\<lambda>f. w_path ?s @ f) (butlast (w_data ?s # w_handle ?s)))"
    using Cons.prems h by (intro Cons.hyps(1)) simp_all
  finally show ?case using h by simp
qed

text \<open>The directory of the pattern, as the names of the files are prefixed with it.\<close>

definition pattern_path :: "string \<Rightarrow> win_search \<Rightarrow> string" where
  "pattern_path pattern s =
     (let path = fst (tokenize_pair [CHR ''/'', CHR 0x5C] True pattern (w_path s, []))
      in if path \<noteq> [] then path @ [CHR 0x5C] else path)"

text \<open>On Windows the loop visits the first file twice and never visits the last one: \<open>find_next_file\<close> takes the name
  before it advances.\<close>

theorem windows_find_misses_last:
  assumes "int (length (dir pattern)) \<le> INT_MAX"
  shows "find_all (win_find_first dir) win_find_next pattern s =
     Some (map (\<lambda>f. pattern_path pattern s @ f)
       (case dir pattern of [] \<Rightarrow> [] | f # fs \<Rightarrow> f # butlast (f # fs)))"
proof (cases "dir pattern")
  case Nil
  then show ?thesis
    by (simp add: find_all_def iterator_new_def win_find_first_def visit.simps iterator_eq_def iterator_end_def Let_def)
next
  case (Cons f fs)
  let ?p = "pattern_path pattern s"
  have "find_all (win_find_first dir) win_find_next pattern s =
      visit win_find_next \<lparr>rownum = 1, filename = ?p @ f, has_fs = True\<rparr> \<lparr>w_handle = fs, w_data = f, w_path = ?p\<rparr> []"
    using Cons by (simp add: find_all_def iterator_new_def win_find_first_def pattern_path_def Let_def)
  then show ?thesis using Cons assms by (simp add: win_visit)
qed

subsection \<open>The current directory\<close>

lemma getcwd_loop_returns:
  assumes "\<And>n. getcwd n = (if length path < n then Cwd path else Range_Error)" "0 < n"
  shows "getcwd_loop getcwd n = Some (Some path)"
  using assms(2)
proof (induction "Suc (length path) - n" arbitrary: n rule: less_induct)
  case less
  show ?case
  proof (cases "length path < n")
    case True
    then show ?thesis by (subst getcwd_loop.simps) (simp add: assms(1))
  next
    case False
    then have "getcwd_loop getcwd (n * 2) = Some (Some path)" using less by (intro less.hyps) auto
    then show ?thesis using False by (subst getcwd_loop.simps) (simp add: assms(1))
  qed
qed

text \<open>The current directory is found whatever its length: \<open>getcwd\<close> refuses buffers that are too small for the path and
  its zero, and the buffer doubles until it fits.\<close>

theorem current_dir_found:
  assumes "\<And>n. getcwd n = (if length path < n then Cwd path else Range_Error)"
  shows "get_current_dir getcwd = Some path"
  by (simp add: get_current_dir_def getcwd_loop_returns [OF assms])

subsection \<open>The installation directory\<close>

theorem root_dir_strips_bin:
  assumes "CHR 0x5C \<notin> set prog" "CHR ''/'' \<notin> set prog"
  shows "get_root_dir (dir @ [CHR 0x5C] @ ''bin'' @ [CHR 0x5C] @ prog) = dir"
proof -
  let ?ds = "[CHR ''/'', CHR 0x5C]"
  have "tokenize_pair ?ds True ((dir @ [CHR 0x5C] @ ''bin'') @ CHR 0x5C # prog) ([], []) = (dir @ [CHR 0x5C] @ ''bin'', prog)"
    by (rule tokenize_pair_last) (use assms in auto)
  moreover have "tokenize_pair ?ds True (dir @ CHR 0x5C # ''bin'') ([], prog) = (dir, ''bin'')"
    by (rule tokenize_pair_last) auto
  ultimately show ?thesis by (simp add: get_root_dir_def)
qed

end
