(* ===== verification/Mime_Types.thy ===== *)
theory Mime_Types
  imports App_Config
begin

text \<open>
  \<open>mimetype.h\<close>, \<open>mimetype.cpp\<close>: the table from file extensions to MIME types, loaded from files of lines with a
  type and its extensions.  The contents of the files are a parameter, \<^const>\<open>None\<close> for a file that cannot be
  opened, which the code treats as empty.
\<close>

record mimetype =
  mime :: "string \<Rightarrow> string option"
  default_type :: string

definition register_type :: "string \<Rightarrow> string \<Rightarrow> mimetype \<Rightarrow> mimetype" where
  "register_type ext mime_type m = m\<lparr>mime := (mime m)(ext := Some mime_type)\<rparr>"

text \<open>One line of the file.\<close>

definition mime_line :: "string \<Rightarrow> mimetype \<Rightarrow> mimetype" where
  "mime_line line m =
     (let line = trim line
      in if line = [] \<or> hd line = CHR ''#'' \<or> hd line = CHR '';'' then m
         else case find_first_of [CHR '' '', CHR 0x09] line 1 of
                None \<Rightarrow> m
              | Some pos \<Rightarrow>
                  fold (\<lambda>ext m. if ext \<noteq> [] then register_type ext (take pos line) m else m)
                    (tokenize [CHR '' '', CHR 0x09] (trim (drop (pos + 1) line))) m)"

definition mime_load :: "string option \<Rightarrow> mimetype \<Rightarrow> mimetype" where
  "mime_load file m = (case file of None \<Rightarrow> m | Some text \<Rightarrow> fold mime_line (text_lines text) m)"

definition mimetype_new :: "(string \<Rightarrow> string option) \<Rightarrow> string \<Rightarrow> string \<Rightarrow> string \<Rightarrow> mimetype" where
  "mimetype_new read config_dir home_dir delim =
     mime_load (read (home_dir @ delim @ ''.mime.types''))
       (mime_load (read (config_dir @ delim @ ''mime.types'')) \<lparr>mime = \<lambda>_. None, default_type = ''text/plain''\<rparr>)"

definition mime_of :: "mimetype \<Rightarrow> string \<Rightarrow> string" where
  "mime_of m filename =
     (case mime m (snd (tokenize_pair ''.'' True filename ([], []))) of
        Some t \<Rightarrow> t
      | None \<Rightarrow> default_type m)"

section \<open>Properties\<close>

text \<open>A table as its lines: a type and its extensions.\<close>

definition word_ok :: "string \<Rightarrow> bool" where
  "word_ok w = (w \<noteq> [] \<and> (\<forall>c \<in> set w. c \<notin> set default_delims))"

definition mime_entry_ok :: "string \<times> string list \<Rightarrow> bool" where
  "mime_entry_ok e = (word_ok (fst e) \<and> hd (fst e) \<notin> set ''#;'' \<and> snd e \<noteq> [] \<and> list_all word_ok (snd e))"

definition mime_entry_line :: "string \<times> string list \<Rightarrow> string" where
  "mime_entry_line e = fst e @ '' '' @ join_with '' '' (snd e)"

definition print_mime :: "(string \<times> string list) list \<Rightarrow> string" where
  "print_mime es = concat (map (\<lambda>l. l @ [CHR 0x0A]) (map mime_entry_line es))"

definition mime_pairs :: "(string \<times> string list) list \<Rightarrow> (string \<times> string) list" where
  "mime_pairs es = concat (map (\<lambda>(t, exts). map (\<lambda>x. (x, t)) exts) es)"

lemma word_ends: "word_ok w \<Longrightarrow> hd w \<notin> set default_delims \<and> last w \<notin> set default_delims"
  by (simp add: word_ok_def)

lemma join_ends:
  "ws \<noteq> [] \<Longrightarrow> list_all word_ok ws \<Longrightarrow> join_with '' '' ws \<noteq> [] \<and>
     hd (join_with '' '' ws) \<notin> set default_delims \<and> last (join_with '' '' ws) \<notin> set default_delims"
proof (induction "'' ''" ws rule: join_with.induct)
  case (3 w v ws)
  then have "w \<noteq> []" "word_ok w" by (auto simp: word_ok_def)
  then show ?case using 3 word_ends [of w] by (simp add: hd_append)
qed (auto simp: word_ok_def dest: word_ends)

lemma join_set: "set (join_with '' '' ws) \<subseteq> (\<Union>w \<in> set ws. set w) \<union> {CHR '' ''}"
  by (induction "'' ''" ws rule: join_with.induct) auto

lemma mime_entry_line_loaded:
  assumes "mime_entry_ok e"
  shows "mime_line (mime_entry_line e) m = fold (\<lambda>x. register_type x (fst e)) (snd e) m"
proof -
  obtain t xs where e: "e = (t, xs)" by fastforce
  from assms have t: "word_ok t" "hd t \<notin> set ''#;''" and xs: "xs \<noteq> []" "list_all word_ok xs"
    by (simp_all add: mime_entry_ok_def e)
  have d: "CHR '' '' \<in> set default_delims" "CHR 0x09 \<in> set default_delims" by (simp_all add: default_delims_def)
  note j = join_ends [OF xs]
  obtain a r where a: "t = a # r" using t(1) by (cases t) (auto simp: word_ok_def)
  have l: "trim (t @ '' '' @ join_with '' '' xs) = t @ '' '' @ join_with '' '' xs"
    using j word_ends [OF t(1)] by (intro trim_ends) (auto simp: a)
  have "find_idx (\<lambda>c. c \<in> set [CHR '' '', CHR 0x09]) (r @ CHR '' '' # join_with '' '' xs) = Some (length r)"
    by (rule find_idx_append_hit) (use t(1) d a in \<open>auto simp: word_ok_def\<close>)
  then have f: "find_first_of [CHR '' '', CHR 0x09] (t @ '' '' @ join_with '' '' xs) 1 = Some (length t)"
    by (simp add: find_first_of_def find_from_def a)
  have "trim (join_with '' '' xs) = join_with '' '' xs"
    using j by (intro trim_ends) simp_all
  moreover have "tokenize [CHR '' '', CHR 0x09] (join_with '' '' xs) = xs"
    using xs d by (intro tokenize_join) (auto simp: word_ok_def list_all_iff)
  moreover have "fold (\<lambda>x m. if x \<noteq> [] then register_type x (take (length t) (t @ CHR '' '' # join_with '' '' xs)) m else m) xs m =
      fold (\<lambda>x. register_type x t) xs m"
    using xs(2) by (intro fold_cong) (auto simp: word_ok_def list_all_iff)
  moreover have "t \<noteq> []" "hd (t @ CHR '' '' # join_with '' '' xs) = hd t" by (simp_all add: a)
  ultimately show ?thesis using l f t(2) by (simp add: mime_line_def mime_entry_line_def e Let_def)
qed

lemma mime_register_all:
  "mime (fold (\<lambda>x. register_type x t) xs m) x = (if x \<in> set xs then Some t else mime m x)
    \<and> default_type (fold (\<lambda>x. register_type x t) xs m) = default_type m"
  by (induction xs arbitrary: m) (auto simp: register_type_def)

lemma mime_load_lines:
  "list_all mime_entry_ok es \<Longrightarrow>
     mime (fold mime_line (map mime_entry_line es) m) x =
       (case map_of (rev (mime_pairs es)) x of Some t \<Rightarrow> Some t | None \<Rightarrow> mime m x)
     \<and> default_type (fold mime_line (map mime_entry_line es) m) = default_type m"
proof (induction es arbitrary: m)
  case (Cons e es)
  obtain t xs where e: "e = (t, xs)" by fastforce
  have "map_of (rev (map (\<lambda>x. (x, t)) xs)) x = (if x \<in> set xs then Some t else None)"
    by (induction xs) (auto simp: map_add_def)
  then show ?case using Cons mime_entry_line_loaded [of e m] mime_register_all [of t xs m x]
    by (auto simp: e mime_pairs_def map_add_def split: option.split)
qed (simp add: mime_pairs_def)

lemma print_mime_lines:
  assumes "list_all mime_entry_ok es"
  shows "text_lines (print_mime es) = map mime_entry_line es"
proof -
  have "CHR 0x0A \<in> set default_delims" by (simp add: default_delims_def)
  then have "CHR 0x0A \<notin> set (mime_entry_line e)" if "mime_entry_ok e" for e
    using that join_set [of "snd e"] by (fastforce simp: mime_entry_ok_def mime_entry_line_def word_ok_def list_all_iff)
  with assms show ?thesis unfolding print_mime_def by (intro text_lines_concat) (auto simp: list_all_iff)
qed

text \<open>With a table of MIME types as system file and no file of the user, a file \<open>name.ext\<close> gets the type of the last
  line that lists its extension, and the default type \<open>text/plain\<close> when none does.\<close>

theorem mime_types_looked_up:
  assumes "list_all mime_entry_ok es" "CHR ''.'' \<notin> set ext"
    and "read (config_dir @ delim @ ''mime.types'') = Some (print_mime es)" "read (home_dir @ delim @ ''.mime.types'') = None"
  shows "mime_of (mimetype_new read config_dir home_dir delim) (name @ ''.'' @ ext) =
    (case map_of (rev (mime_pairs es)) ext of Some t \<Rightarrow> t | None \<Rightarrow> ''text/plain'')"
proof -
  have "tokenize_pair ''.'' True (name @ CHR ''.'' # ext) ([], []) = (name, ext)"
    by (rule tokenize_pair_last) (use assms(2) in auto)
  then show ?thesis using assms mime_load_lines [OF assms(1), of "\<lparr>mime = \<lambda>_. None, default_type = ''text/plain''\<rparr>" ext]
    by (simp add: mime_of_def mimetype_new_def mime_load_def print_mime_lines split: option.split)
qed

theorem mime_types_looked_up_witness:
  "mime_of (mimetype_new (\<lambda>f. if f = ''/etc/mime.types'' then Some (''text/html html htm'' @ [CHR 0x0A]) else None) ''/etc'' ''~'' ''/'')
     ''index.htm'' = ''text/html''"
proof -
  let ?read = "\<lambda>f. if f = ''/etc/mime.types'' then Some (''text/html html htm'' @ [CHR 0x0A]) else None"
    and ?es = "[(''text/html'', [''html'', ''htm''])]"
  have "list_all mime_entry_ok ?es" by code_simp
  then show ?thesis
    using mime_types_looked_up [of ?es "''htm''" ?read "''/etc''" "''/''" "''~''" "''index''"]
    by (simp add: print_mime_def mime_entry_line_def mime_pairs_def)
qed

text \<open>A name without a dot is looked up as if it were an extension.\<close>

theorem dotless_name_is_an_extension:
  "CHR ''.'' \<notin> set name \<Longrightarrow> name \<noteq> [] \<Longrightarrow> mime_of (register_type name t m) name = t"
proof -
  assume "CHR ''.'' \<notin> set name" "name \<noteq> []"
  then have "tokenize_pair ''.'' True name ([], []) = ([], name)" by (intro tokenize_pair_last_none) auto
  then show ?thesis by (simp add: mime_of_def register_type_def)
qed

end
