(* ===== verification/Process.thy ===== *)
theory Process
  imports Prelude
begin

text \<open>
  \<open>process.h\<close>, \<open>posix/process_impl.cpp\<close>: running a program with its standard streams.  The program is a parameter:
  from its arguments and its standard input it computes what it writes to its two output streams and its exit
  status.  A pipe holds a bounded number of bytes, and the parent reads only after the program has ended.
\<close>

subsection \<open>The command line\<close>

datatype argv_state = SYMBOL | SKIP | SKIP_UNTIL

text \<open>One turn of the loop of \<open>str2argv\<close>: the state, the argument so far, and the arguments before it.\<close>

fun argv_step :: "char \<Rightarrow> argv_state \<times> string \<times> string list \<Rightarrow> argv_state \<times> string \<times> string list" where
  "argv_step c (s, arg, argv) =
     (if c = CHR 0x5C then (SKIP, arg, argv)
      else if c = CHR 0x22 then (if s = SKIP_UNTIL then SYMBOL else SKIP_UNTIL, arg, argv)
      else if c = CHR '' '' then
        (case s of
           SKIP \<Rightarrow> (SYMBOL, arg @ [c], argv)
         | SKIP_UNTIL \<Rightarrow> (SKIP_UNTIL, arg @ [c], argv)
         | SYMBOL \<Rightarrow> (SYMBOL, [], argv @ [arg]))
      else (if s = SKIP then SYMBOL else s, arg @ [c], argv))"

definition str2argv :: "string \<Rightarrow> string list" where
  "str2argv src = (let (s, arg, argv) = fold argv_step src (SYMBOL, [], []) in if arg \<noteq> [] then argv @ [arg] else argv)"

subsection \<open>Input and output\<close>

definition BUF_SIZE :: nat where "BUF_SIZE = 4096"

text \<open>The loop that reads blocks from the input stream and passes them to \<open>fputs\<close>: a short block is the last one.\<close>

function feed_input :: "string \<Rightarrow> string" where
  "feed_input s = c_str (take (BUF_SIZE - 1) s) @ (if length s < BUF_SIZE - 1 then [] else feed_input (drop (BUF_SIZE - 1) s))"
  by pat_completeness auto
termination
  by (relation "measure length") (auto simp: BUF_SIZE_def)

declare feed_input.simps [simp del]

text \<open>\<open>fgets\<close>: up to and with the end of the line, and no more than fits the buffer.\<close>

definition fgets_length :: "string \<Rightarrow> nat" where
  "fgets_length s = min (BUF_SIZE - 1) (case find_idx (\<lambda>c. c = CHR 0x0A) s of None \<Rightarrow> length s | Some k \<Rightarrow> k + 1)"

lemma fgets_length_pos: "s \<noteq> [] \<Longrightarrow> 0 < fgets_length s"
  by (auto simp: fgets_length_def BUF_SIZE_def split: option.split)

function drain_output :: "string \<Rightarrow> string" where
  "drain_output s = (if s = [] then [] else c_str (take (fgets_length s) s) @ drain_output (drop (fgets_length s) s))"
  by pat_completeness auto
termination
  by (relation "measure length") (auto simp: fgets_length_pos)

declare drain_output.simps [simp del]

subsection \<open>Execution\<close>

text \<open>What a program does with its arguments once it has read all of its input: what it writes to standard output and
  standard error, and its exit status.\<close>

type_synonym program = "string list \<Rightarrow> string \<Rightarrow> string \<times> string \<times> int"

text \<open>The operating system: whether the three calls of \<open>pipe\<close> succeed, whether \<open>vfork\<close> does, and how much a pipe holds.\<close>

record system =
  pipe_ok :: "nat \<Rightarrow> bool"
  vfork_ok :: bool
  capacity :: nat

datatype outcome = Exception string | Hangs | Exited string string int

text \<open>\<^const>\<open>Hangs\<close> is where the program waits for space in a pipe and the parent waits for the program.  An input stream that
  was not given is \<^const>\<open>None\<close>; the streams that are given stay good.\<close>

definition execute_process ::
  "system \<Rightarrow> program \<Rightarrow> string \<Rightarrow> string \<Rightarrow> string option \<Rightarrow> outcome" where
  "execute_process sys prog path args input =
     (if \<not> pipe_ok sys 0 then Exception ''pipe failed''
      else if \<not> pipe_ok sys 1 then Exception ''pipe failed''
      else if \<not> pipe_ok sys 2 then Exception ''pipe failed''
      else if \<not> vfork_ok sys then Exception ''vfork failed''
      else let (out, err, code) =
                 prog (map c_str (path # str2argv args)) (case input of None \<Rightarrow> [] | Some s \<Rightarrow> feed_input s)
           in if length out > capacity sys \<or> length err > capacity sys then Hangs
              else Exited (drain_output out) (drain_output err) code)"

section \<open>Properties\<close>

subsection \<open>Arguments\<close>

definition quote_arg :: "string \<Rightarrow> string" where
  "quote_arg a = CHR 0x22 # a @ [CHR 0x22]"

definition plain_char :: "char \<Rightarrow> bool" where
  "plain_char c = (c \<noteq> CHR 0x5C \<and> c \<noteq> CHR 0x22)"

lemma argv_quoted:
  "list_all plain_char a \<Longrightarrow> fold argv_step a (SKIP_UNTIL, arg, argv) = (SKIP_UNTIL, arg @ a, argv)"
  by (induction a arbitrary: arg) (auto simp: plain_char_def)

lemma argv_quote:
  "list_all plain_char a \<Longrightarrow> fold argv_step (quote_arg a) (SYMBOL, [], argv) = (SYMBOL, a, argv)"
  by (simp add: quote_arg_def argv_quoted)

lemma argv_join:
  "as \<noteq> [] \<Longrightarrow> list_all (list_all plain_char) as \<Longrightarrow>
     fold argv_step (join_with '' '' (map quote_arg as)) (SYMBOL, [], argv) = (SYMBOL, last as, argv @ butlast as)"
proof (induction as arbitrary: argv rule: induct_list012)
  case (3 a b as)
  have "fold argv_step (quote_arg a @ '' '' @ r) (SYMBOL, [], argv) = fold argv_step r (SYMBOL, [], argv @ [a])" for r
    using 3(4) argv_quote [of a argv] by simp
  then show ?case using 3(2) [of "argv @ [a]"] 3(4) by simp
qed (simp_all add: argv_quote)

text \<open>Arguments written in double quotes and separated by single blanks are passed to the program as they are, blanks
  included; only an empty last argument is lost.\<close>

theorem quoted_arguments_passed:
  assumes "list_all (list_all plain_char) as"
  shows "str2argv (join_with '' '' (map quote_arg as)) = (if as \<noteq> [] \<and> last as = [] then butlast as else as)"
proof (cases "as = []")
  case False
  then show ?thesis using argv_join [OF False assms, of "[]"] append_butlast_last_id [OF False]
    by (auto simp: str2argv_def)
qed (simp add: str2argv_def)

theorem quoted_arguments_example:
  "str2argv ([CHR 0x22] @ ''-o'' @ [CHR 0x22] @ '' '' @ [CHR 0x22] @ ''my file'' @ [CHR 0x22]) = [''-o'', ''my file'']"
proof -
  have "list_all (list_all plain_char) [''-o'', ''my file'']" by code_simp
  from quoted_arguments_passed [OF this] show ?thesis by (simp add: quote_arg_def)
qed

text \<open>There is no way to pass an argument with a backslash or a quote in it.\<close>

lemma argv_step_plain:
  "list_all plain_char arg \<Longrightarrow> list_all (list_all plain_char) argv \<Longrightarrow> argv_step c (s, arg, argv) = (s', arg', argv') \<Longrightarrow>
     list_all plain_char arg' \<and> list_all (list_all plain_char) argv'"
  by (auto simp: plain_char_def split: if_splits argv_state.splits)

lemma argv_fold_plain:
  "list_all plain_char arg \<Longrightarrow> list_all (list_all plain_char) argv \<Longrightarrow> fold argv_step src (s, arg, argv) = (s', arg', argv') \<Longrightarrow>
     list_all plain_char arg' \<and> list_all (list_all plain_char) argv'"
proof (induction src arbitrary: s arg argv)
  case (Cons c src)
  obtain s1 arg1 argv1 where st: "argv_step c (s, arg, argv) = (s1, arg1, argv1)" using prod_cases3 by blast
  have "fold argv_step src (s1, arg1, argv1) = (s', arg', argv')" using Cons.prems(3) st by simp
  with Cons.IH argv_step_plain [OF Cons.prems(1,2) st] show ?case by blast
qed simp

theorem arguments_never_quoted: "list_all (list_all plain_char) (str2argv src)"
proof -
  obtain s arg argv where r: "fold argv_step src (SYMBOL, [], []) = (s, arg, argv)" using prod_cases3 by blast
  then show ?thesis using argv_fold_plain [OF _ _ r] by (simp add: str2argv_def)
qed

subsection \<open>Streams\<close>

lemma not_in_take_drop: "c \<notin> set s \<Longrightarrow> c \<notin> set (take n s) \<and> c \<notin> set (drop n s)"
  by (meson in_set_dropD in_set_takeD)

lemma feed_input_id: "CHR 0x00 \<notin> set s \<Longrightarrow> feed_input s = s"
proof (induction s rule: feed_input.induct)
  case (1 s)
  show ?case using 1 not_in_take_drop [OF 1(2), of "BUF_SIZE - 1"]
    by (subst feed_input.simps) (simp add: c_str_id)
qed

lemma drain_output_id: "CHR 0x00 \<notin> set s \<Longrightarrow> drain_output s = s"
proof (induction s rule: drain_output.induct)
  case (1 s)
  show ?case using 1 not_in_take_drop [OF 1(2), of "fgets_length s"]
    by (subst drain_output.simps) (simp add: c_str_id)
qed

text \<open>Where pipes and processes can be made, a program that is run gets its path, its arguments and the whole input, and its output comes back complete, for
  streams without zero bytes; \<open>execute\<close> returns if and only if both outputs fit into a pipe.\<close>

theorem process_streams_complete:
  assumes "CHR 0x00 \<notin> set (path @ input)" "list_all (list_all (\<lambda>c. plain_char c \<and> c \<noteq> CHR 0x00)) as" "as = [] \<or> last as \<noteq> []"
    and "prog (path # as) input = (out, err, code)" "CHR 0x00 \<notin> set (out @ err)"
    and "\<forall>i < 3. pipe_ok sys i" "vfork_ok sys"
  shows "execute_process sys prog path (join_with '' '' (map quote_arg as)) (Some input) =
    (if length out \<le> capacity sys \<and> length err \<le> capacity sys then Exited out err code else Hangs)"
proof -
  have "list_all (list_all plain_char) as" using assms(2) by (auto simp: list_all_iff)
  then have "str2argv (join_with '' '' (map quote_arg as)) = as" using quoted_arguments_passed assms(3) by auto
  moreover have "map c_str (path # as) = path # as"
    using assms(1,2) by (intro map_idI c_str_id) (auto simp: list_all_iff)
  moreover have "feed_input input = input" "drain_output out = out" "drain_output err = err"
    using assms(1,5) by (simp_all add: feed_input_id drain_output_id)
  ultimately show ?thesis using assms(4,6,7)
    by (simp add: execute_process_def)
qed

theorem process_streams_complete_witness:
  "execute_process \<lparr>pipe_ok = \<lambda>_. True, vfork_ok = True, capacity = 65536\<rparr>
     (\<lambda>argv input. (input, ''done'', int (length argv))) ''/bin/cat''
     ([CHR 0x22] @ ''my file'' @ [CHR 0x22]) (Some ''hello'') = Exited ''hello'' ''done'' 2"
proof -
  have "list_all (list_all (\<lambda>c. plain_char c \<and> c \<noteq> CHR 0x00)) [''my file'']" by code_simp
  then show ?thesis
    using process_streams_complete [of "''/bin/cat''" "''hello''" "[''my file'']" "\<lambda>argv input. (input, ''done'', int (length argv))"
      "''hello''" "''done''" 2 "\<lparr>pipe_ok = \<lambda>_. True, vfork_ok = True, capacity = 65536\<rparr>"] by (simp add: quote_arg_def)
qed

end
