(* ===== verification/Singleton.thy ===== *)
theory Singleton
  imports Main
begin

text \<open>
  \<open>singleton.h\<close>, with the \<open>mutex_guard\<close> of \<open>mutex.h\<close>: the double-checked creation of the one instance of a class.  A
  step is one access of a thread to the shared state: reading the pointer, entering the mutex, constructing the
  object, which may throw, storing the pointer, leaving the mutex.  Steps of different threads interleave, and an
  access takes effect at once; the unsynchronised first read is a data race in the language of C++11, which a
  compiler or a weaker memory may reorder.
\<close>

datatype place = Outside | First_Check | Wait_Lock | Second_Check | Construct | Store nat | Leave | Leave_Throwing | Use

record 't singleton =
  instance_ptr :: "nat option"
  cs :: "'t option"
  at :: "'t \<Rightarrow> place"
  built :: nat
  got :: "'t \<Rightarrow> nat option"

text \<open>\<open>built\<close> counts the constructed objects, and gives each its identity; \<open>got\<close> is the reference a thread has
  obtained.\<close>

definition singleton_init :: "'t singleton" where
  "singleton_init = \<lparr>instance_ptr = None, cs = None, at = \<lambda>_. Outside, built = 0, got = \<lambda>_. None\<rparr>"

abbreviation go :: "'t \<Rightarrow> place \<Rightarrow> 't singleton \<Rightarrow> 't singleton" where
  "go t p s \<equiv> s\<lparr>at := (at s)(t := p)\<rparr>"

inductive singleton_step :: "'t singleton \<Rightarrow> 't singleton \<Rightarrow> bool" where
  call: "at s t = Outside \<Longrightarrow> singleton_step s (go t First_Check s)"
| check_set: "at s t = First_Check \<Longrightarrow> instance_ptr s \<noteq> None \<Longrightarrow> singleton_step s (go t Use s)"
| check_unset: "at s t = First_Check \<Longrightarrow> instance_ptr s = None \<Longrightarrow> singleton_step s (go t Wait_Lock s)"
| enter: "at s t = Wait_Lock \<Longrightarrow> cs s = None \<Longrightarrow> singleton_step s (go t Second_Check (s\<lparr>cs := Some t\<rparr>))"
| again_set: "at s t = Second_Check \<Longrightarrow> instance_ptr s \<noteq> None \<Longrightarrow> singleton_step s (go t Leave s)"
| again_unset: "at s t = Second_Check \<Longrightarrow> instance_ptr s = None \<Longrightarrow> singleton_step s (go t Construct s)"
| construct: "at s t = Construct \<Longrightarrow> singleton_step s (go t (Store (built s)) (s\<lparr>built := built s + 1\<rparr>))"
| construct_throws: "at s t = Construct \<Longrightarrow> singleton_step s (go t Leave_Throwing s)"
| store: "at s t = Store p \<Longrightarrow> singleton_step s (go t Leave (s\<lparr>instance_ptr := Some p\<rparr>))"
| leave: "at s t = Leave \<Longrightarrow> singleton_step s (go t Use (s\<lparr>cs := None\<rparr>))"
| leave_throwing: "at s t = Leave_Throwing \<Longrightarrow> singleton_step s (go t Outside (s\<lparr>cs := None\<rparr>))"
| use: "at s t = Use \<Longrightarrow> instance_ptr s = Some p \<Longrightarrow> singleton_step s (go t Outside (s\<lparr>got := (got s)(t := Some p)\<rparr>))"

inductive_cases singleton_stepE: "singleton_step s s'"

section \<open>Properties\<close>

fun in_section :: "place \<Rightarrow> bool" where
  "in_section Second_Check = True"
| "in_section Construct = True"
| "in_section (Store p) = True"
| "in_section Leave = True"
| "in_section Leave_Throwing = True"
| "in_section _ = False"

fun holds_object :: "place \<Rightarrow> bool" where
  "holds_object (Store p) = True"
| "holds_object _ = False"

text \<open>The thread in the protected section is the owner of the mutex.\<close>

definition exclusive :: "'t singleton \<Rightarrow> bool" where
  "exclusive s \<longleftrightarrow> (\<forall>t. cs s = Some t \<longleftrightarrow> in_section (at s t))"

text \<open>What a thread may rely on at each place: the instance exists where it is used, and does not exist yet where
  it is about to be stored.\<close>

fun place_ok :: "nat option \<Rightarrow> place \<Rightarrow> bool" where
  "place_ok i Use = (i \<noteq> None)"
| "place_ok i Leave = (i \<noteq> None)"
| "place_ok i Construct = (i = None)"
| "place_ok i (Store p) = (i = None \<and> p = 0)"
| "place_ok i _ = True"

text \<open>At most one object was ever constructed: none before the instance is stored, except by the owner of the mutex
  when it is about to store it.\<close>

definition built_ok :: "'t singleton \<Rightarrow> bool" where
  "built_ok s \<longleftrightarrow> (case instance_ptr s of
     Some p \<Rightarrow> p = 0 \<and> built s = 1
   | None \<Rightarrow> built s = (case cs s of None \<Rightarrow> 0 | Some t \<Rightarrow> if holds_object (at s t) then 1 else 0))"

definition singleton_ok :: "'t singleton \<Rightarrow> bool" where
  "singleton_ok s \<longleftrightarrow> exclusive s \<and> (\<forall>t. place_ok (instance_ptr s) (at s t)) \<and> built_ok s \<and>
     (\<forall>t p. got s t = Some p \<longrightarrow> instance_ptr s = Some p)"

lemma singleton_init_ok: "singleton_ok singleton_init"
  by (simp add: singleton_ok_def exclusive_def built_ok_def singleton_init_def)

text \<open>How a step moves a thread into the mutex and out of it.\<close>

lemma exclusive_enter:
  "exclusive s \<Longrightarrow> cs s = None \<Longrightarrow> in_section p \<Longrightarrow> cs s' = Some t \<Longrightarrow> at s' = (at s)(t := p) \<Longrightarrow> exclusive s'"
  by (auto simp: exclusive_def)

lemma exclusive_leave:
  "exclusive s \<Longrightarrow> in_section (at s t) \<Longrightarrow> \<not> in_section p \<Longrightarrow> cs s' = None \<Longrightarrow> at s' = (at s)(t := p) \<Longrightarrow> exclusive s'"
  by (simp add: exclusive_def) (metis option.inject)

lemma exclusive_step: "singleton_step s s' \<Longrightarrow> exclusive s \<Longrightarrow> exclusive s'"
proof (induction rule: singleton_step.induct)
  case (enter s t)
  show ?case by (rule exclusive_enter [of s Second_Check]) (use enter in simp_all)
next
  case (leave s t)
  show ?case by (rule exclusive_leave [of s t Use]) (use leave in simp_all)
next
  case (leave_throwing s t)
  show ?case by (rule exclusive_leave [of s t Outside]) (use leave_throwing in simp_all)
qed (simp_all add: exclusive_def)

lemma owner: "exclusive s \<Longrightarrow> in_section (at s t) \<Longrightarrow> cs s = Some t"
  by (simp add: exclusive_def)

lemma other_places:
  "exclusive s \<Longrightarrow> in_section (at s t) \<Longrightarrow> u \<noteq> t \<Longrightarrow> \<not> in_section (at s u)"
  by (metis exclusive_def option.inject)

lemma place_outside: "\<not> in_section p \<Longrightarrow> i \<noteq> None \<Longrightarrow> place_ok i p"
  by (cases p) auto

lemma places_step:
  "singleton_step s s' \<Longrightarrow> exclusive s \<Longrightarrow> built_ok s \<Longrightarrow> \<forall>t. place_ok (instance_ptr s) (at s t) \<Longrightarrow>
     \<forall>t. place_ok (instance_ptr s') (at s' t)"
proof (induction rule: singleton_step.induct)
  case (construct s t)
  then have "cs s = Some t" "instance_ptr s = None" by (auto simp: owner dest: spec [of _ t])
  with construct show ?case by (auto simp: built_ok_def)
next
  case (store s t p)
  then show ?case using other_places [of s t] place_outside by (auto split: if_splits)
next
  case (leave s t)
  then have "instance_ptr s \<noteq> None" by (auto dest: spec [of _ t])
  with leave show ?case by simp
qed (auto split: if_splits)

lemma built_step:
  "singleton_step s s' \<Longrightarrow> exclusive s \<Longrightarrow> built_ok s \<Longrightarrow> \<forall>t. place_ok (instance_ptr s) (at s t) \<Longrightarrow> built_ok s'"
proof (induction rule: singleton_step.induct)
  case (construct s t)
  then have "cs s = Some t" "instance_ptr s = None" by (auto simp: owner dest: spec [of _ t])
  with construct show ?case by (simp add: built_ok_def)
next
  case (construct_throws s t)
  then have "cs s = Some t" "instance_ptr s = None" by (auto simp: owner dest: spec [of _ t])
  with construct_throws show ?case by (simp add: built_ok_def)
next
  case (store s t p)
  then have "cs s = Some t" "instance_ptr s = None" "p = 0" by (auto simp: owner dest: spec [of _ t])
  with store show ?case by (simp add: built_ok_def)
next
  case (leave s t)
  then have "cs s = Some t" by (simp add: owner)
  with leave show ?case by (simp add: built_ok_def split: option.splits)
next
  case (leave_throwing s t)
  then have "cs s = Some t" by (simp add: owner)
  with leave_throwing show ?case by (simp add: built_ok_def split: option.splits)
qed (auto simp: built_ok_def split: option.splits if_splits)

lemma singleton_step_ok: "singleton_step s s' \<Longrightarrow> singleton_ok s \<Longrightarrow> singleton_ok s'"
proof -
  assume st: "singleton_step s s'" and ok: "singleton_ok s"
  have "\<forall>t p. got s' t = Some p \<longrightarrow> instance_ptr s' = Some p"
    using st ok
  proof (induction rule: singleton_step.induct)
    case (store s t p)
    then have "instance_ptr s = None" by (auto simp: singleton_ok_def dest: spec [of _ t])
    with store show ?case by (auto simp: singleton_ok_def)
  qed (auto simp: singleton_ok_def split: if_splits)
  with st ok show ?thesis unfolding singleton_ok_def using exclusive_step places_step built_step by blast
qed

text \<open>C18: In every interleaving of any number of threads that call \<open>instance ()\<close>, whether constructors throw or not, at most
  one object is constructed, every reference a thread has obtained is to that object, and a thread that is
  about to use the instance finds it.\<close>

theorem one_instance:
  assumes "singleton_step\<^sup>*\<^sup>* singleton_init s"
  shows "built s \<le> 1 \<and> (\<forall>t u p q. got s t = Some p \<longrightarrow> got s u = Some q \<longrightarrow> p = q) \<and>
    (\<forall>t. at s t = Use \<longrightarrow> instance_ptr s \<noteq> None)"
proof -
  have "singleton_ok s" using assms
    by (induction rule: rtranclp_induct) (auto simp: singleton_init_ok singleton_step_ok)
  then have b: "built_ok s" and g: "\<And>t p. got s t = Some p \<Longrightarrow> instance_ptr s = Some p" and p: "\<And>t. place_ok (instance_ptr s) (at s t)"
    by (auto simp: singleton_ok_def)
  have "built s \<le> 1" using b by (auto simp: built_ok_def split: option.splits if_splits)
  moreover have "p = q" if "got s t = Some p" "got s u = Some q" for t u p q using g [OF that(1)] g [OF that(2)] by simp
  moreover have "instance_ptr s \<noteq> None" if "at s t = Use" for t using p [of t] that by simp
  ultimately show ?thesis by blast
qed

text \<open>The states of a single thread that calls \<open>instance ()\<close> once.\<close>

definition alone :: "nat option \<Rightarrow> unit option \<Rightarrow> place \<Rightarrow> nat \<Rightarrow> nat option \<Rightarrow> unit singleton" where
  "alone i l p b g = \<lparr>instance_ptr = i, cs = l, at = \<lambda>_. p, built = b, got = \<lambda>_. g\<rparr>"

lemma alone_run: "singleton_step\<^sup>*\<^sup>* (alone None None Outside 0 None) (alone (Some 0) None Outside 1 (Some 0))"
proof -
  note d = alone_def fun_upd_def
  have "singleton_step (alone None None Outside 0 None) (alone None None First_Check 0 None)"
    using call [of "alone None None Outside 0 None" "()"] by (simp add: d)
  moreover have "singleton_step (alone None None First_Check 0 None) (alone None None Wait_Lock 0 None)"
    using check_unset [of "alone None None First_Check 0 None" "()"] by (simp add: d)
  moreover have "singleton_step (alone None None Wait_Lock 0 None) (alone None (Some ()) Second_Check 0 None)"
    using enter [of "alone None None Wait_Lock 0 None" "()"] by (simp add: d)
  moreover have "singleton_step (alone None (Some ()) Second_Check 0 None) (alone None (Some ()) Construct 0 None)"
    using again_unset [of "alone None (Some ()) Second_Check 0 None" "()"] by (simp add: d)
  moreover have "singleton_step (alone None (Some ()) Construct 0 None) (alone None (Some ()) (Store 0) 1 None)"
    using construct [of "alone None (Some ()) Construct 0 None" "()"] by (simp add: d)
  moreover have "singleton_step (alone None (Some ()) (Store 0) 1 None) (alone (Some 0) (Some ()) Leave 1 None)"
    using store [of "alone None (Some ()) (Store 0) 1 None" "()"] by (simp add: d)
  moreover have "singleton_step (alone (Some 0) (Some ()) Leave 1 None) (alone (Some 0) None Use 1 None)"
    using leave [of "alone (Some 0) (Some ()) Leave 1 None" "()"] by (simp add: d)
  moreover have "singleton_step (alone (Some 0) None Use 1 None) (alone (Some 0) None Outside 1 (Some 0))"
    using use [of "alone (Some 0) None Use 1 None" "()" 0] by (simp add: d)
  ultimately show ?thesis by (meson converse_rtranclp_into_rtranclp rtranclp.rtrancl_refl)
qed

theorem one_instance_witness: "built (alone (Some 0) None Outside 1 (Some 0)) \<le> 1 \<and> got (alone (Some 0) None Outside 1 (Some 0)) () = Some 0"
proof -
  have "alone None None Outside 0 None = singleton_init" by (simp add: alone_def singleton_init_def)
  then show ?thesis using one_instance [of "alone (Some 0) None Outside 1 (Some 0)"] alone_run
    by (simp add: alone_def)
qed

subsection \<open>Progress\<close>

text \<open>Whenever a thread is inside \<open>instance ()\<close>, some thread can take a step: the owner of the mutex is never blocked.\<close>

theorem singleton_never_stuck:
  assumes "singleton_step\<^sup>*\<^sup>* singleton_init s" "at s t \<noteq> Outside"
  shows "\<exists>s'. singleton_step s s'"
proof -
  have ok: "singleton_ok s" using assms(1)
    by (induction rule: rtranclp_induct) (auto simp: singleton_init_ok singleton_step_ok)
  have move: "\<exists>s'. singleton_step s s'" if "at s u \<noteq> Outside" "at s u \<noteq> Wait_Lock" for u
  proof (cases "at s u")
    case First_Check
    then show ?thesis using check_set [of s u] check_unset [of s u] by blast
  next
    case Second_Check
    then show ?thesis using again_set [of s u] again_unset [of s u] by blast
  next
    case Construct
    then show ?thesis using construct [of s u] by blast
  next
    case (Store p)
    then show ?thesis using store [of s u p] by blast
  next
    case Leave
    then show ?thesis using leave [of s u] by blast
  next
    case Leave_Throwing
    then show ?thesis using leave_throwing [of s u] by blast
  next
    case Use
    moreover have "place_ok (instance_ptr s) (at s u)" using ok by (simp add: singleton_ok_def)
    ultimately show ?thesis using use [of s u] by auto
  qed (use that in simp_all)
  show ?thesis
  proof (cases "at s t = Wait_Lock")
    case True
    show ?thesis
    proof (cases "cs s")
      case None
      then show ?thesis using True enter [of s t] by blast
    next
      case (Some u)
      then have "in_section (at s u)" using ok by (auto simp: singleton_ok_def exclusive_def)
      then show ?thesis by (intro move [of u]) auto
    qed
  qed (use assms(2) move in blast)
qed

end
