(* ===== verification/Any.thy ===== *)
theory Any
  imports Strutils
begin

text \<open>
  \<open>any.h\<close>: a container for a value of any type, behind a pointer that it owns.  The heap is explicit, so that
  reading a deleted holder is the outcome \<^const>\<open>None\<close>, and a holder without an owner is visible as a leak.  The
  types are those with conversions of their own, \<open>int\<close> and \<open>std::string\<close>.
\<close>

datatype holder = Int_Holder int | String_Holder string

datatype type_info = Type_Void | Type_Int | Type_String

fun holder_type :: "holder \<Rightarrow> type_info" where
  "holder_type (Int_Holder i) = Type_Int"
| "holder_type (String_Holder s) = Type_String"

fun holder_str :: "holder \<Rightarrow> string" where
  "holder_str (Int_Holder i) = to_string_int i"
| "holder_str (String_Holder s) = s"

text \<open>\<open>impl<T> (const impl_int&)\<close>: the conversion goes through the text.\<close>

fun convert :: "type_info \<Rightarrow> holder \<Rightarrow> holder" where
  "convert Type_Int h = Int_Holder (from_string_int (holder_str h))"
| "convert _ h = String_Holder (holder_str h)"

text \<open>\<open>_value == static_cast<impl> (other)._value\<close>: the cast constructs a holder of the type of the left side
  from the text of the right side, even where the types agree.\<close>

definition holder_eq :: "holder \<Rightarrow> holder \<Rightarrow> bool" where
  "holder_eq h other = (h = convert (holder_type h) other)"

text \<open>The heap of holders, and the containers: a variable is not constructed, or has its pointer.\<close>

record any_state =
  heap :: "nat \<Rightarrow> holder option"
  fresh :: nat
  pimpl :: "nat \<Rightarrow> nat option option"

definition any_init :: any_state where
  "any_init = \<lparr>heap = \<lambda>_. None, fresh = 0, pimpl = \<lambda>_. None\<rparr>"

definition new_holder :: "holder \<Rightarrow> any_state \<Rightarrow> nat \<times> any_state" where
  "new_holder h s = (fresh s, s\<lparr>heap := (heap s)(fresh s := Some h), fresh := fresh s + 1\<rparr>)"

text \<open>Deleting a pointer that is not null needs a live holder.\<close>

definition delete_holder :: "nat option \<Rightarrow> any_state \<Rightarrow> any_state option" where
  "delete_holder p s = (case p of
     None \<Rightarrow> Some s
   | Some a \<Rightarrow> if heap s a = None then None else Some (s\<lparr>heap := (heap s)(a := None)\<rparr>))"

definition point :: "nat \<Rightarrow> nat option \<Rightarrow> any_state \<Rightarrow> any_state" where
  "point x p s = s\<lparr>pimpl := (pimpl s)(x := Some p)\<rparr>"

definition any_default :: "nat \<Rightarrow> any_state \<Rightarrow> any_state option" where
  "any_default x s = (if pimpl s x = None then Some (point x None s) else None)"

definition any_value :: "nat \<Rightarrow> holder \<Rightarrow> any_state \<Rightarrow> any_state option" where
  "any_value x h s = (if pimpl s x = None then let (a, s) = new_holder h s in Some (point x (Some a) s) else None)"

text \<open>\<open>clone\<close> of the holder of another container, or null.\<close>

definition clone_of :: "nat option \<Rightarrow> any_state \<Rightarrow> (nat option \<times> any_state) option" where
  "clone_of p s = (case p of
     None \<Rightarrow> Some (None, s)
   | Some a \<Rightarrow> (case heap s a of None \<Rightarrow> None | Some h \<Rightarrow> let (b, s) = new_holder h s in Some (Some b, s)))"

definition any_copy :: "nat \<Rightarrow> nat \<Rightarrow> any_state \<Rightarrow> any_state option" where
  "any_copy x other s = (case (pimpl s x, pimpl s other) of
     (None, Some q) \<Rightarrow> (case clone_of q s of None \<Rightarrow> None | Some (p, s) \<Rightarrow> Some (point x p s))
   | _ \<Rightarrow> None)"

definition any_assign :: "nat \<Rightarrow> nat \<Rightarrow> any_state \<Rightarrow> any_state option" where
  "any_assign x other s = (case (pimpl s x, pimpl s other) of
     (Some p, Some q) \<Rightarrow>
       (case delete_holder p s of
          None \<Rightarrow> None
        | Some s \<Rightarrow> (case clone_of q s of None \<Rightarrow> None | Some (p, s) \<Rightarrow> Some (point x p s)))
   | _ \<Rightarrow> None)"

definition any_clear :: "nat \<Rightarrow> any_state \<Rightarrow> any_state option" where
  "any_clear x s = (case pimpl s x of
     None \<Rightarrow> None
   | Some p \<Rightarrow> map_option (point x None) (delete_holder p s))"

definition any_destroy :: "nat \<Rightarrow> any_state \<Rightarrow> any_state option" where
  "any_destroy x s = (case pimpl s x of
     None \<Rightarrow> None
   | Some p \<Rightarrow> map_option (\<lambda>s. s\<lparr>pimpl := (pimpl s)(x := None)\<rparr>) (delete_holder p s))"

text \<open>\<open>cast\<close> of a container that holds a value: it converts the stored value first.  The result is the new holder.\<close>

definition any_cast :: "type_info \<Rightarrow> nat \<Rightarrow> any_state \<Rightarrow> (holder \<times> any_state) option" where
  "any_cast t x s = (case pimpl s x of
     Some (Some a) \<Rightarrow>
       (case heap s a of
          None \<Rightarrow> None
        | Some h \<Rightarrow>
            if holder_type h = t then Some (h, s)
            else let (b, s) = new_holder (convert t h) s; s = point x (Some b) s
                 in map_option (\<lambda>s. (convert t h, s)) (delete_holder (Some a) s))
   | _ \<Rightarrow> None)"

definition any_type :: "nat \<Rightarrow> any_state \<Rightarrow> type_info option" where
  "any_type x s = (case pimpl s x of
     None \<Rightarrow> None
   | Some None \<Rightarrow> Some Type_Void
   | Some (Some a) \<Rightarrow> map_option holder_type (heap s a))"

definition any_str :: "nat \<Rightarrow> any_state \<Rightarrow> string option" where
  "any_str x s = (case pimpl s x of
     None \<Rightarrow> None
   | Some None \<Rightarrow> Some []
   | Some (Some a) \<Rightarrow> map_option holder_str (heap s a))"

definition any_eq :: "nat \<Rightarrow> nat \<Rightarrow> any_state \<Rightarrow> bool option" where
  "any_eq x y s = (case (pimpl s x, pimpl s y) of
     (Some None, Some None) \<Rightarrow> Some True
   | (Some (Some a), Some (Some b)) \<Rightarrow>
       (case (heap s a, heap s b) of (Some h, Some k) \<Rightarrow> Some (holder_eq h k) | _ \<Rightarrow> None)
   | (Some _, Some _) \<Rightarrow> Some False
   | _ \<Rightarrow> None)"

section \<open>Properties\<close>

subsection \<open>Ownership\<close>

text \<open>Every pointer of a container is live, no two containers share a holder, every holder has an owner, and fresh
  addresses are free.\<close>

definition owns :: "any_state \<Rightarrow> nat \<Rightarrow> nat \<Rightarrow> bool" where
  "owns s x a \<longleftrightarrow> pimpl s x = Some (Some a)"

definition any_ok :: "any_state \<Rightarrow> bool" where
  "any_ok s \<longleftrightarrow> (\<forall>a. heap s a \<noteq> None \<longleftrightarrow> (\<exists>x. owns s x a)) \<and> (\<forall>x y a. owns s x a \<longrightarrow> owns s y a \<longrightarrow> x = y) \<and>
     (\<forall>a. fresh s \<le> a \<longrightarrow> heap s a = None)"

lemma any_init_ok: "any_ok any_init"
  by (simp add: any_ok_def any_init_def owns_def)

text \<open>A container gives up its holder; a container without one takes a new one.\<close>

definition drop_holder :: "nat \<Rightarrow> nat option option \<Rightarrow> any_state \<Rightarrow> any_state" where
  "drop_holder x q s = s\<lparr>heap := (case pimpl s x of Some (Some a) \<Rightarrow> (heap s)(a := None) | _ \<Rightarrow> heap s), pimpl := (pimpl s)(x := q)\<rparr>"

lemma drop_holder_simps:
  assumes "\<And>a. q \<noteq> Some (Some a)"
  shows "owns (drop_holder x q s) y a \<longleftrightarrow> y \<noteq> x \<and> owns s y a" "fresh (drop_holder x q s) = fresh s"
    "heap (drop_holder x q s) a = (if owns s x a then None else heap s a)"
  using assms by (auto simp: drop_holder_def owns_def split: option.split)

lemma drop_holder_ok:
  assumes "any_ok s" "\<And>a. q \<noteq> Some (Some a)"
  shows "any_ok (drop_holder x q s)"
proof -
  from assms(1) have l: "\<And>a. heap s a \<noteq> None \<longleftrightarrow> (\<exists>x. owns s x a)" and u: "\<And>x y a. owns s x a \<Longrightarrow> owns s y a \<Longrightarrow> x = y"
    and f: "\<And>a. fresh s \<le> a \<Longrightarrow> heap s a = None" by (auto simp: any_ok_def)
  have "(if owns s x a then None else heap s a) \<noteq> None \<longleftrightarrow> (\<exists>y. y \<noteq> x \<and> owns s y a)" for a
    using l [of a] u [of x a] by auto
  then show ?thesis unfolding any_ok_def drop_holder_simps [of q, OF assms(2)] using u f by auto
qed

definition take_holder :: "nat \<Rightarrow> holder \<Rightarrow> any_state \<Rightarrow> any_state" where
  "take_holder x h s = (let (a, s) = new_holder h s in point x (Some a) s)"

lemma take_holder_simps:
  "owns (take_holder x h s) y a \<longleftrightarrow> (if y = x then a = fresh s else owns s y a)"
  "fresh (take_holder x h s) = Suc (fresh s)" "heap (take_holder x h s) a = (if a = fresh s then Some h else heap s a)"
  by (auto simp: take_holder_def new_holder_def point_def owns_def)

lemma take_holder_ok:
  assumes "any_ok s" "\<And>a. \<not> owns s x a"
  shows "any_ok (take_holder x h s)"
proof -
  from assms(1) have l: "\<And>a. heap s a \<noteq> None \<longleftrightarrow> (\<exists>x. owns s x a)" and u: "\<And>x y a. owns s x a \<Longrightarrow> owns s y a \<Longrightarrow> x = y"
    and f: "\<And>a. fresh s \<le> a \<Longrightarrow> heap s a = None" by (auto simp: any_ok_def)
  have n: "\<not> owns s y (fresh s)" for y using l [of "fresh s"] f [of "fresh s"] by simp
  have h1: "(if a = fresh s then Some h else heap s a) \<noteq> None \<longleftrightarrow> (\<exists>y. if y = x then a = fresh s else owns s y a)" for a
  proof (cases "a = fresh s")
    case False
    then have "(\<exists>y. if y = x then a = fresh s else owns s y a) \<longleftrightarrow> (\<exists>y. owns s y a)" using assms(2) by (metis (full_types))
    then show ?thesis using False l [of a] by simp
  qed auto
  have h2: "y = z" if "if y = x then a = fresh s else owns s y a" "if z = x then a = fresh s else owns s z a" for y z a
    using that n u by (auto split: if_splits)
  show ?thesis unfolding any_ok_def take_holder_simps
  proof (intro conjI allI impI)
    show "(if a = fresh s then Some h else heap s a) = None" if "Suc (fresh s) \<le> a" for a
      using that f [of a] by simp
  qed (fact h1, fact h2)
qed

lemma point_none_ok:
  "any_ok s \<Longrightarrow> (\<And>a. \<not> owns s x a) \<Longrightarrow> any_ok (point x None s)"
proof -
  assume "any_ok s" "\<And>a. \<not> owns s x a"
  moreover from this(2) have "owns (point x None s) y a \<longleftrightarrow> owns s y a" for y a by (auto simp: owns_def point_def)
  moreover have "heap (point x None s) = heap s" "fresh (point x None s) = fresh s" by (simp_all add: point_def)
  ultimately show ?thesis by (simp add: any_ok_def)
qed

text \<open>The operations in these terms.\<close>

lemma any_live: "any_ok s \<Longrightarrow> owns s x a \<Longrightarrow> \<exists>h. heap s a = Some h"
  unfolding any_ok_def by blast

lemma delete_holder_owned:
  assumes "any_ok s" "pimpl s x = Some p"
  obtains s' where "delete_holder p s = Some s'" "pimpl s' = pimpl s" "drop_holder x q s = s'\<lparr>pimpl := (pimpl s)(x := q)\<rparr>"
proof (cases p)
  case None
  then show ?thesis using that assms(2) by (simp add: delete_holder_def drop_holder_def)
next
  case (Some a)
  then show ?thesis using that any_live [OF assms(1), of x a] assms(2)
    by (auto simp: delete_holder_def drop_holder_def owns_def)
qed

lemma clone_point:
  "clone_of None s = Some (None, s)"
  "heap s a = Some h \<Longrightarrow> \<exists>s'. clone_of (Some a) s = Some (Some (fresh s), s') \<and> point x (Some (fresh s)) s' = take_holder x h s"
  by (simp_all add: clone_of_def take_holder_def new_holder_def)

lemma take_after_drop: "take_holder x h (s\<lparr>pimpl := (pimpl s)(x := q)\<rparr>) = take_holder x h s"
  by (simp add: take_holder_def new_holder_def point_def)

lemma assign_other:
  assumes "any_ok s" "pimpl s x = Some p" "pimpl s y = Some q" "x \<noteq> y"
  shows "any_assign x y s = Some (case q of
    None \<Rightarrow> drop_holder x (Some None) s
  | Some b \<Rightarrow> take_holder x (the (heap s b)) (drop_holder x (Some None) s))"
proof -
  obtain s' where d: "delete_holder p s = Some s'" "pimpl s' = pimpl s" "drop_holder x (Some None) s = s'\<lparr>pimpl := (pimpl s)(x := Some None)\<rparr>"
    using delete_holder_owned [OF assms(1,2)] by blast
  show ?thesis
  proof (cases q)
    case None
    then show ?thesis using assms d by (simp add: any_assign_def clone_of_def point_def)
  next
    case (Some b)
    have "owns s y b" "\<not> owns s x b" using assms Some unfolding any_ok_def owns_def by (simp, metis)
    then obtain h where h: "heap s b = Some h" "heap (drop_holder x (Some None) s) b = Some h"
      using any_live [OF assms(1)] drop_holder_simps(3) [of "Some None" x s b] by fastforce
    then have "heap s' b = Some h" using d by simp
    from clone_point(2) [OF this, of x] obtain s'' where
      "clone_of (Some b) s' = Some (Some (fresh s'), s'')" "point x (Some (fresh s')) s'' = take_holder x h s'" by blast
    moreover have "take_holder x h (drop_holder x (Some None) s) = take_holder x h s'"
      using d take_after_drop [of x h s' "Some None"] by simp
    ultimately show ?thesis using assms Some d h by (simp add: any_assign_def)
  qed
qed

subsection \<open>Operations\<close>

datatype any_op = Default nat | Make nat holder | Copy nat nat | Assign nat nat | Clear nat | Destroy nat | Cast type_info nat

fun any_run :: "any_op \<Rightarrow> any_state \<Rightarrow> any_state option" where
  "any_run (Default x) s = any_default x s"
| "any_run (Make x h) s = any_value x h s"
| "any_run (Copy x y) s = any_copy x y s"
| "any_run (Assign x y) s = any_assign x y s"
| "any_run (Clear x) s = any_clear x s"
| "any_run (Destroy x) s = any_destroy x s"
| "any_run (Cast t x) s = map_option snd (any_cast t x s)"

text \<open>What the language demands: containers are constructed once and used while they live.  A cast needs a value, and
  a container must not be assigned to itself.\<close>

fun any_legal :: "any_op \<Rightarrow> any_state \<Rightarrow> bool" where
  "any_legal (Default x) s = (pimpl s x = None)"
| "any_legal (Make x h) s = (pimpl s x = None)"
| "any_legal (Copy x y) s = (pimpl s x = None \<and> pimpl s y \<noteq> None)"
| "any_legal (Assign x y) s = (pimpl s x \<noteq> None \<and> pimpl s y \<noteq> None \<and> x \<noteq> y)"
| "any_legal (Clear x) s = (pimpl s x \<noteq> None)"
| "any_legal (Destroy x) s = (pimpl s x \<noteq> None)"
| "any_legal (Cast t x) s = (\<exists>a. owns s x a)"

lemma no_owner: "pimpl s x = None \<Longrightarrow> \<not> owns s x a" "pimpl s x = Some None \<Longrightarrow> \<not> owns s x a"
  by (simp_all add: owns_def)

lemma copy_ok:
  assumes "any_ok s" "pimpl s x = None" "pimpl s y = Some q"
  shows "\<exists>s'. any_copy x y s = Some s' \<and> any_ok s'"
proof (cases q)
  case None
  then show ?thesis using assms point_none_ok no_owner by (simp add: any_copy_def clone_of_def)
next
  case (Some b)
  then obtain h where h: "heap s b = Some h" using any_live [OF assms(1)] assms(3) by (auto simp: owns_def)
  show ?thesis using clone_point(2) [OF h, of x] assms Some take_holder_ok [OF assms(1)] no_owner
    by (auto simp: any_copy_def)
qed

lemma cast_ok:
  assumes "any_ok s" "owns s x a" "heap s a = Some h" "holder_type h \<noteq> t"
  shows "any_cast t x s = Some (convert t h, take_holder x (convert t h) (drop_holder x (Some None) s))"
proof -
  have "a \<noteq> fresh s" using assms(1,3) by (auto simp: any_ok_def)
  then show ?thesis using assms(2-4)
    by (simp add: any_cast_def owns_def new_holder_def point_def delete_holder_def take_holder_def drop_holder_def fun_upd_twist)
qed

lemma cleared_ok:
  assumes "any_ok s" "pimpl s x = Some p" "\<And>a. q \<noteq> Some (Some a)"
  shows "\<exists>s'. map_option (\<lambda>s. s\<lparr>pimpl := (pimpl s)(x := q)\<rparr>) (delete_holder p s) = Some s' \<and> any_ok s'"
proof -
  obtain s' where "delete_holder p s = Some s'" "pimpl s' = pimpl s" "drop_holder x q s = s'\<lparr>pimpl := (pimpl s)(x := q)\<rparr>"
    by (rule delete_holder_owned [OF assms(1,2)])
  then show ?thesis using drop_holder_ok [OF assms(1,3), of x] by simp
qed

lemma assign_ok:
  assumes "any_ok s" "pimpl s x = Some p" "pimpl s y = Some q" "x \<noteq> y"
  shows "\<exists>s'. any_assign x y s = Some s' \<and> any_ok s'"
proof -
  have "any_ok (drop_holder x (Some None) s)" by (rule drop_holder_ok [OF assms(1)]) simp
  moreover have "\<not> owns (drop_holder x (Some None) s) x b" for b by (simp add: drop_holder_simps)
  ultimately show ?thesis using assign_other [OF assms] take_holder_ok by (auto split: option.split)
qed

lemma cast_returns_ok:
  assumes "any_ok s" "owns s x a"
  shows "\<exists>s'. map_option snd (any_cast t x s) = Some s' \<and> any_ok s'"
proof -
  obtain h where h: "heap s a = Some h" using any_live [OF assms] by blast
  show ?thesis
  proof (cases "holder_type h = t")
    case True
    then show ?thesis using assms h by (simp add: any_cast_def owns_def)
  next
    case False
    have "any_ok (drop_holder x (Some None) s)" by (rule drop_holder_ok [OF assms(1)]) simp
    then have "any_ok (take_holder x (convert t h) (drop_holder x (Some None) s))"
      by (rule take_holder_ok) (simp add: drop_holder_simps)
    then show ?thesis using cast_ok [OF assms h False] by simp
  qed
qed



text \<open>A container that holds a value and is assigned to itself reads the holder it has just deleted.\<close>

theorem self_assignment_reads_deleted: "owns s x a \<Longrightarrow> heap s a \<noteq> None \<Longrightarrow> any_assign x x s = None"
  by (auto simp: any_assign_def owns_def delete_holder_def clone_of_def)

subsection \<open>Values\<close>

text \<open>An integer survives a cast to a string and back.\<close>

theorem int_cast_roundtrip: "is_int32 i \<Longrightarrow> convert Type_Int (convert Type_String (Int_Holder i)) = Int_Holder i"
  by (simp add: from_to_string_int)

text \<open>Equality is not symmetric: the right side is converted to the type of the left side.\<close>

theorem any_equality_not_symmetric:
  "holder_eq (Int_Holder 1) (String_Holder ''01'')" "\<not> holder_eq (String_Holder ''01'') (Int_Holder 1)"
  by code_simp+

end
