(* ===== verification/Strtod.thy ===== *)
theory Strtod
  imports Strutils "HOL-Library.Log_Nat"
begin

text \<open>
  \<open>my_strtod\<close> of \<open>strutils.cpp\<close>, behind \<open>from_string<double>\<close> and \<open>from_string<float>\<close>.  A \<open>double\<close> is a rational number,
  an infinity or a NaN; the two zeros are not told apart.  An arithmetic operation is the exact operation followed by
  a rounding \<open>rnd\<close>, which is a parameter of the model: \<open>round_double\<close> is the rounding of IEEE 754 to nearest, ties to
  even, with gradual underflow and overflow to infinity.
\<close>

subsection \<open>Doubles\<close>

datatype double = Num rat | Infinity bool | NaN

text \<open>The argument of \<^const>\<open>Infinity\<close> tells whether it is negative.\<close>

type_synonym rounding = "rat \<Rightarrow> double"

fun d_add :: "rounding \<Rightarrow> double \<Rightarrow> double \<Rightarrow> double" where
  "d_add rnd (Num x) (Num y) = rnd (x + y)"
| "d_add rnd NaN y = NaN"
| "d_add rnd x NaN = NaN"
| "d_add rnd (Infinity s) (Infinity t) = (if s = t then Infinity s else NaN)"
| "d_add rnd (Infinity s) (Num y) = Infinity s"
| "d_add rnd (Num x) (Infinity t) = Infinity t"

fun d_mul :: "rounding \<Rightarrow> double \<Rightarrow> double \<Rightarrow> double" where
  "d_mul rnd (Num x) (Num y) = rnd (x * y)"
| "d_mul rnd NaN y = NaN"
| "d_mul rnd x NaN = NaN"
| "d_mul rnd (Infinity s) (Infinity t) = Infinity (s \<noteq> t)"
| "d_mul rnd (Infinity s) (Num y) = (if y = 0 then NaN else Infinity (s \<noteq> (y < 0)))"
| "d_mul rnd (Num x) (Infinity t) = (if x = 0 then NaN else Infinity (t \<noteq> (x < 0)))"

fun d_div :: "rounding \<Rightarrow> double \<Rightarrow> double \<Rightarrow> double" where
  "d_div rnd (Num x) (Num y) = (if y = 0 then (if x = 0 then NaN else Infinity (x < 0)) else rnd (x / y))"
| "d_div rnd NaN y = NaN"
| "d_div rnd x NaN = NaN"
| "d_div rnd (Infinity s) (Infinity t) = NaN"
| "d_div rnd (Infinity s) (Num y) = Infinity (s \<noteq> (y < 0))"
| "d_div rnd (Num x) (Infinity t) = Num 0"

fun d_neg :: "double \<Rightarrow> double" where
  "d_neg (Num x) = Num (- x)"
| "d_neg (Infinity s) = Infinity (\<not> s)"
| "d_neg NaN = NaN"

subsection \<open>Rounding to binary64\<close>

definition round_even :: "rat \<Rightarrow> int" where
  "round_even x =
     (let f = \<lfloor>x\<rfloor>; r = x - of_int f
      in if r < 1 / 2 then f else if r > 1 / 2 then f + 1 else if even f then f else f + 1)"

text \<open>The exponent of the leading bit of a positive number.\<close>

definition binade :: "rat \<Rightarrow> int" where
  "binade x = (let (p, q) = quotient_of x; k = bitlen p - bitlen q in if 2 powi k \<le> x then k else k - 1)"

definition round_double :: rounding where
  "round_double x =
     (if x = 0 then Num 0
      else let e = max (binade \<bar>x\<bar> - 52) (- 1074);
               y = of_int (round_even (x / 2 powi e)) * 2 powi e
           in if \<bar>y\<bar> \<ge> 2 ^ 1024 then Infinity (x < 0) else Num y)"

subsection \<open>Conversion\<close>

datatype strtod_result = Returns double string | Throws | Overflows

text \<open>A run of digits: the number and what is left of the text.\<close>

fun digit_loop :: "rounding \<Rightarrow> double \<Rightarrow> nat \<Rightarrow> string \<Rightarrow> double \<times> nat \<times> string" where
  "digit_loop rnd number n [] = (number, n, [])"
| "digit_loop rnd number n (c # p) =
     (if is_digit c
      then digit_loop rnd (d_add rnd (d_mul rnd number (Num 10)) (Num (of_nat (of_char c - 48)))) (n + 1) p
      else (number, n, c # p))"

text \<open>The exponent is an \<open>int\<close>: \<^const>\<open>None\<close> where \<open>n * 10 + digit\<close> leaves its range.  The same overflow of \<open>exponent\<close>
  itself is \<^const>\<open>Overflows\<close> below.\<close>

fun exponent_loop :: "int \<Rightarrow> string \<Rightarrow> (int \<times> string) option" where
  "exponent_loop n [] = Some (n, [])"
| "exponent_loop n (c # p) =
     (if is_digit c
      then let m = n * 10 + int (of_char c - 48) in if is_int32 m then exponent_loop m p else None
      else Some (n, c # p))"

definition read_sign :: "string \<Rightarrow> bool \<times> string" where
  "read_sign p = (case p of
     [] \<Rightarrow> (False, [])
   | c # r \<Rightarrow> if c = CHR ''-'' then (True, r) else if c = CHR ''+'' then (False, r) else (False, p))"

text \<open>The loop that scales by squaring.\<close>

fun scale :: "rounding \<Rightarrow> bool \<Rightarrow> nat \<Rightarrow> double \<Rightarrow> double \<Rightarrow> double" where
  "scale rnd neg n p10 number =
     (if n = 0 then number
      else scale rnd neg (n div 2) (d_mul rnd p10 p10)
             (if odd n then (if neg then d_div rnd number p10 else d_mul rnd number p10) else number))"

declare scale.simps [simp del]

lemma scale_0 [simp]: "scale rnd neg 0 p x = x"
  by (subst scale.simps) simp

definition DBL_MIN_EXP :: int where "DBL_MIN_EXP = -1021"

definition DBL_MAX_EXP :: int where "DBL_MAX_EXP = 1024"

definition strtod_finish :: "rounding \<Rightarrow> double \<Rightarrow> int \<Rightarrow> string \<Rightarrow> strtod_result" where
  "strtod_finish rnd number exponent p =
     (if exponent < DBL_MIN_EXP \<or> exponent > DBL_MAX_EXP then Throws
      else let number = scale rnd (exponent < 0) (nat \<bar>exponent\<bar>) (Num 10) number
           in if number = Infinity False then Throws else Returns number p)"

definition strtod_exponent :: "rounding \<Rightarrow> double \<Rightarrow> int \<Rightarrow> string \<Rightarrow> strtod_result" where
  "strtod_exponent rnd number exponent p =
     (if p \<noteq> [] \<and> (hd p = CHR ''e'' \<or> hd p = CHR ''E'')
      then let (negative, p) = read_sign (tl p)
           in case exponent_loop 0 p of
                None \<Rightarrow> Overflows
              | Some (n, p) \<Rightarrow>
                  (let e = (if negative then exponent - n else exponent + n)
                   in if is_int32 e then strtod_finish rnd number e p else Overflows)
      else strtod_finish rnd number exponent p)"

definition strtod_with :: "rounding \<Rightarrow> string \<Rightarrow> strtod_result" where
  "strtod_with rnd str =
     (let (negative, p) = read_sign (dropWhile is_space (c_str str));
          (number, num_digits, p) = digit_loop rnd (Num 0) 0 p;
          (number, num_decimals, p) =
            (if p \<noteq> [] \<and> hd p = CHR ''.'' then digit_loop rnd number 0 (tl p) else (number, 0, p))
      in if num_digits + num_decimals = 0 then Throws
         else strtod_exponent rnd (if negative then d_neg number else number) (- int num_decimals) p)"

definition my_strtod :: "string \<Rightarrow> strtod_result" where
  "my_strtod = strtod_with round_double"

text \<open>\<open>from_string<double>\<close>: \<^const>\<open>None\<close> where it throws or has no defined result.\<close>

definition from_string_double :: "string \<Rightarrow> double option" where
  "from_string_double s = (case my_strtod s of Returns x _ \<Rightarrow> Some x | _ \<Rightarrow> None)"

section \<open>Properties\<close>

subsection \<open>Rounding\<close>

lemma round_even_int [simp]: "round_even (of_int k) = k"
  by (simp add: round_even_def)

lemma binade_le:
  assumes "0 < x"
  shows "2 powi binade x \<le> x"
proof -
  obtain p q where pq: "quotient_of x = (p, q)" by fastforce
  have q: "0 < q" using quotient_of_denom_pos [OF pq] .
  have x: "x = of_int p / of_int q" using quotient_of_div [OF pq] .
  then have p: "0 < p" using assms q by (simp add: zero_less_divide_iff)
  let ?k = "bitlen p - bitlen q"
  have "2 powi (?k - 1) \<le> x"
  proof -
    have pos: "0 < bitlen z" if "0 < z" for z
    proof (rule ccontr)
      assume "\<not> 0 < bitlen z"
      then show False using bitlen_bounds [OF that] that by simp
    qed
    have bp: "2 ^ nat (bitlen p - 1) \<le> p" and bq: "q < 2 ^ nat (bitlen q)"
      using bitlen_bounds [OF p] bitlen_bounds [OF q] by auto
    have "(2::rat) powi (?k - 1) = 2 powi (bitlen p - 1) / 2 powi bitlen q"
      by (simp add: power_int_diff [symmetric] algebra_simps)
    also have "\<dots> = 2 ^ nat (bitlen p - 1) / 2 ^ nat (bitlen q)" using pos [OF p] pos [OF q] by (simp add: power_int_nonneg_exp)
    also have "\<dots> \<le> of_int p / of_int q"
    proof (rule frac_le)
      show "(2::rat) ^ nat (bitlen p - 1) \<le> of_int p" using bp by (metis of_int_le_iff of_int_numeral of_int_power)
      show "of_int q \<le> (2::rat) ^ nat (bitlen q)" using bq by (metis less_imp_le of_int_le_iff of_int_numeral of_int_power)
    qed (use p q in simp_all)
    finally show ?thesis using x by simp
  qed
  then show ?thesis by (simp add: binade_def pq Let_def)
qed

lemma round_double_scaled:
  assumes "k \<noteq> 0" "\<bar>k\<bar> \<le> 2 ^ 53" "of_int k = of_int m * (2::rat) powi (max (binade \<bar>of_int k\<bar> - 52) (- 1074))"
  shows "round_double (of_int k) = Num (of_int k)"
proof -
  let ?e = "max (binade \<bar>of_int k\<bar> - 52) (- 1074)"
  have "of_int k / (2::rat) powi ?e = of_int m" by (subst assms(3)) simp
  then have "of_int (round_even (of_int k / 2 powi ?e)) * (2::rat) powi ?e = of_int k" using assms(3) by simp
  moreover have "\<bar>of_int k\<bar> < (2::rat) ^ 1024"
  proof -
    have "\<bar>k\<bar> < 2 ^ 1024" using assms(2) by (rule le_less_trans) (simp add: power_strict_increasing)
    then show ?thesis by (metis of_int_abs of_int_less_iff of_int_numeral of_int_power)
  qed
  ultimately show ?thesis using assms(1) by (simp add: round_double_def Let_def)
qed

text \<open>Integers of up to 53 bits are doubles.\<close>

lemma round_double_int:
  assumes "\<bar>k\<bar> \<le> 2 ^ 53"
  shows "round_double (of_int k) = Num (of_int k)"
proof (cases "k = 0")
  case False
  let ?b = "binade \<bar>of_int k\<bar>" and ?e = "max (binade \<bar>of_int k\<bar> - 52) (- 1074)"
  have b: "(2::rat) powi ?b \<le> \<bar>of_int k\<bar>" using False by (intro binade_le) simp
  have "\<bar>of_int k\<bar> \<le> (2::rat) ^ 53" using assms by (metis of_int_abs of_int_le_iff of_int_numeral of_int_power)
  with b have "(2::rat) powi ?b \<le> 2 powi 53" by simp
  then have "?b \<le> 53" by (rule power_int_le_imp_le_exp [of "2::rat", rotated]) simp_all
  then consider "?e \<le> 0" | "?b = 53" by linarith
  then show ?thesis
  proof cases
    case 1
    then have "of_int k = of_int (k * 2 ^ nat (- ?e)) * (2::rat) powi ?e"
      using power_int_add [of "2::rat" "- ?e" ?e] by (simp add: power_int_nonneg_exp [symmetric])
    then show ?thesis by (rule round_double_scaled [OF False assms])
  next
    case 2
    then have "(2::rat) ^ 53 \<le> \<bar>of_int k\<bar>" using b by simp
    then have "2 ^ 53 \<le> \<bar>k\<bar>" by (metis of_int_abs of_int_le_iff of_int_numeral of_int_power)
    then have "k = sgn k * 2 ^ 52 * 2" using assms by (simp add: abs_if sgn_if split: if_splits)
    moreover have "?e = 1" using 2 by simp
    ultimately have "of_int k = of_int (sgn k * 2 ^ 52) * (2::rat) powi ?e"
      by (metis of_int_mult of_int_numeral power_int_1_right)
    then show ?thesis by (rule round_double_scaled [OF False assms])
  qed
qed (simp add: round_double_def)

subsection \<open>Digits\<close>

text \<open>The value of a run of decimal digits after a number \<open>a\<close>.\<close>

fun dec_value :: "nat \<Rightarrow> string \<Rightarrow> nat" where
  "dec_value a [] = a"
| "dec_value a (c # ds) = dec_value (a * 10 + (of_char c - 48)) ds"

lemma dec_value_ge: "a \<le> dec_value a ds"
proof (induction ds arbitrary: a)
  case (Cons c ds)
  have "a \<le> a * 10 + (of_char c - 48)" by simp
  also have "\<dots> \<le> dec_value (a * 10 + (of_char c - 48)) ds" by (rule Cons.IH)
  finally show ?case by simp
qed simp

lemma dec_value_append: "dec_value a (ds @ es) = dec_value (dec_value a ds) es"
  by (induction ds arbitrary: a) simp_all

definition exact_upto :: "rounding \<Rightarrow> nat \<Rightarrow> bool" where
  "exact_upto rnd n \<longleftrightarrow> (\<forall>k \<le> n. rnd (of_nat k) = Num (of_nat k))"

definition stops :: "string \<Rightarrow> bool" where
  "stops r \<longleftrightarrow> r = [] \<or> \<not> is_digit (hd r)"

lemma digit_loop_stops: "stops r \<Longrightarrow> digit_loop rnd x n r = (x, n, r)"
  by (cases r) (simp_all add: stops_def)

lemma digit_loop_value:
  "list_all is_digit ds \<Longrightarrow> exact_upto rnd (dec_value a ds) \<Longrightarrow> stops r \<Longrightarrow>
     digit_loop rnd (Num (of_nat a)) n (ds @ r) = (Num (of_nat (dec_value a ds)), n + length ds, r)"
proof (induction ds arbitrary: a n)
  case (Cons c ds)
  let ?d = "of_char c - 48 :: nat" and ?a = "a * 10 + (of_char c - 48)"
  have "?a \<le> dec_value ?a ds" by (rule dec_value_ge)
  then have le: "a * 10 \<le> dec_value a (c # ds)" "?a \<le> dec_value a (c # ds)" by simp_all
  have "rnd (of_nat (a * 10)) = Num (of_nat (a * 10))" "rnd (of_nat ?a) = Num (of_nat ?a)"
    using Cons.prems(2) le unfolding exact_upto_def by blast+
  then have "d_add rnd (d_mul rnd (Num (of_nat a)) (Num 10)) (Num (of_nat ?d)) = Num (of_nat ?a)" by simp
  then show ?case using Cons.IH [of ?a "n + 1"] Cons.prems by simp
qed (simp add: digit_loop_stops)

lemma exponent_loop_value:
  "list_all is_digit es \<Longrightarrow> int (dec_value a es) \<le> INT_MAX \<Longrightarrow> stops r \<Longrightarrow>
     exponent_loop (int a) (es @ r) = Some (int (dec_value a es), r)"
proof (induction es arbitrary: a)
  case Nil
  then show ?case by (cases r) (simp_all add: stops_def)
next
  case (Cons c es)
  let ?a = "a * 10 + (of_char c - 48)"
  have "int ?a \<le> INT_MAX" using dec_value_ge [of ?a es] Cons.prems(2) by simp
  then have "is_int32 (int a * 10 + int (of_char c - 48))" by (simp add: is_int32_def INT_MIN_def)
  moreover have "exponent_loop (int a * 10 + int (of_char c - 48)) (es @ r) = Some (int (dec_value ?a es), r)"
    using Cons.IH [of ?a] Cons.prems by simp
  ultimately show ?case using Cons.prems(1) by (simp add: Let_def)
qed

subsection \<open>Scaling\<close>

lemma scale_exact:
  "p \<noteq> 0 \<Longrightarrow> scale Num neg n (Num p) (Num x) = Num (if neg then x / p ^ n else x * p ^ n)"
proof (induction n arbitrary: p x rule: less_induct)
  case (less n)
  show ?case
  proof (cases "n = 0")
    case False
    have sq: "(p * p) ^ (n div 2) * p ^ (n mod 2) = p ^ n"
      using power_add [of p "2 * (n div 2)" "n mod 2"] by (simp add: power_mult power2_eq_square)
    let ?x = "if odd n then (if neg then x / p else x * p) else x"
    have "scale Num neg n (Num p) (Num x) = scale Num neg (n div 2) (Num (p * p)) (Num ?x)"
      using False less.prems by (subst scale.simps) simp
    also have "\<dots> = Num (if neg then ?x / (p * p) ^ (n div 2) else ?x * (p * p) ^ (n div 2))"
      using False less.prems by (intro less.IH) simp_all
    also have "\<dots> = Num (if neg then x / p ^ n else x * p ^ n)"
      using sq [symmetric] by (cases "odd n") (simp_all add: odd_iff_mod_2_eq_one even_iff_mod_2_eq_zero mult_ac)
    finally show ?thesis .
  qed simp
qed

subsection \<open>Decimal numbers\<close>

lemma is_digit_others:
  "is_digit c \<Longrightarrow> c \<noteq> CHR 0x00 \<and> c \<noteq> CHR ''-'' \<and> c \<noteq> CHR ''+'' \<and> c \<noteq> CHR ''.'' \<and> c \<noteq> CHR ''e'' \<and> c \<noteq> CHR ''E'' \<and> \<not> is_space c"
  by (auto simp: is_digit_def is_space_def)

lemma stops_simps [simp]: "stops []" "stops (CHR ''.'' # r)" "stops (CHR ''e'' # r)"
  by (simp_all add: stops_def is_digit_def)

definition with_sign :: "bool \<Rightarrow> string \<Rightarrow> string" where
  "with_sign neg s = (if neg then CHR ''-'' # s else s)"

lemma read_sign_signed: "s = [] \<or> is_digit (hd s) \<or> hd s = CHR ''.'' \<Longrightarrow> read_sign (with_sign neg s) = (neg, s)"
  by (cases s) (auto simp: read_sign_def with_sign_def dest: is_digit_others)

lemma signed_start:
  assumes "s \<noteq> []" "is_digit (hd s) \<or> hd s = CHR ''.''"
  shows "dropWhile is_space (with_sign neg s) = with_sign neg s"
  using assms by (cases s) (auto simp: with_sign_def is_space_def dest: is_digit_others)

text \<open>An integer: a sign and digits.\<close>

lemma strtod_integer:
  assumes "list_all is_digit ds" "ds \<noteq> []" "exact_upto rnd (dec_value 0 ds)"
  shows "strtod_with rnd (with_sign neg ds) =
    strtod_finish rnd (Num (if neg then - of_nat (dec_value 0 ds) else of_nat (dec_value 0 ds))) 0 []"
proof -
  have hd: "is_digit (hd ds)" using assms(1,2) by (cases ds) auto
  have "CHR 0x00 \<notin> set ds" using assms(1) is_digit_others by (auto simp: list_all_iff)
  then have c: "c_str (with_sign neg ds) = with_sign neg ds" by (intro c_str_id) (simp add: with_sign_def)
  have "digit_loop rnd (Num 0) 0 ds = (Num (of_nat (dec_value 0 ds)), length ds, [])"
    using digit_loop_value [OF assms(1,3), of "[]" 0] by simp
  then show ?thesis using c hd assms(2)
    by (simp add: strtod_with_def strtod_exponent_def signed_start read_sign_signed Let_def)
qed

text \<open>The general form: digits, a fraction and an exponent.\<close>

definition print_decimal :: "bool \<Rightarrow> string \<Rightarrow> string \<Rightarrow> bool \<Rightarrow> string \<Rightarrow> string" where
  "print_decimal neg ds fs eneg es = with_sign neg (ds @ ''.'' @ fs @ ''e'' @ with_sign eneg es)"

definition decimal_exponent :: "string \<Rightarrow> bool \<Rightarrow> string \<Rightarrow> int" where
  "decimal_exponent fs eneg es = (if eneg then - int (dec_value 0 es) else int (dec_value 0 es)) - int (length fs)"

lemma strtod_decimal:
  assumes "list_all is_digit (ds @ fs @ es)" "ds @ fs \<noteq> []" "int (dec_value 0 es) \<le> INT_MAX"
    and "is_int32 (decimal_exponent fs eneg es)" "exact_upto rnd (dec_value 0 (ds @ fs))"
  shows "strtod_with rnd (print_decimal neg ds fs eneg es) =
    strtod_finish rnd (Num (if neg then - of_nat (dec_value 0 (ds @ fs)) else of_nat (dec_value 0 (ds @ fs))))
      (decimal_exponent fs eneg es) []"
proof -
  let ?r = "fs @ ''e'' @ with_sign eneg es"
  have dig: "list_all is_digit ds" "list_all is_digit fs" "list_all is_digit es" using assms(1) by simp_all
  have hd: "is_digit (hd (ds @ ''.'' @ ?r)) \<or> hd (ds @ ''.'' @ ?r) = CHR ''.''" using dig(1) by (cases ds) auto
  have es: "es = [] \<or> is_digit (hd es)" using dig(3) by (cases es) auto
  have "CHR 0x00 \<notin> set (ds @ fs @ es)" using assms(1) is_digit_others by (auto simp: list_all_iff)
  then have c: "c_str (print_decimal neg ds fs eneg es) = print_decimal neg ds fs eneg es"
    by (intro c_str_id) (simp add: print_decimal_def with_sign_def)
  have ex: "exact_upto rnd (dec_value 0 ds)"
    using assms(5) dec_value_ge [of "dec_value 0 ds" fs] by (auto simp: exact_upto_def dec_value_append)
  have d: "digit_loop rnd (Num 0) 0 (ds @ ''.'' @ ?r) = (Num (of_nat (dec_value 0 ds)), length ds, ''.'' @ ?r)"
    using digit_loop_value [OF dig(1) ex, of "''.'' @ ?r" 0] by simp
  have f: "digit_loop rnd (Num (of_nat (dec_value 0 ds))) 0 ?r =
      (Num (of_nat (dec_value 0 (ds @ fs))), length fs, ''e'' @ with_sign eneg es)"
    using digit_loop_value [OF dig(2), of rnd "dec_value 0 ds" "''e'' @ with_sign eneg es" 0] assms(5) by (simp add: dec_value_append)
  have e: "exponent_loop 0 es = Some (int (dec_value 0 es), [])" using exponent_loop_value [OF dig(3) assms(3), of "[]"] by simp
  have "read_sign (with_sign eneg es) = (eneg, es)" by (rule read_sign_signed) (use es in blast)
  moreover have "(if eneg then - int (length fs) - int (dec_value 0 es) else - int (length fs) + int (dec_value 0 es)) =
      decimal_exponent fs eneg es"
    by (simp add: decimal_exponent_def)
  ultimately have x: "strtod_exponent rnd y (- int (length fs)) (''e'' @ with_sign eneg es) =
      strtod_finish rnd y (decimal_exponent fs eneg es) []" for y
    using e assms(4) by (simp add: strtod_exponent_def Let_def del: if_split)
  have "dropWhile is_space (print_decimal neg ds fs eneg es) = print_decimal neg ds fs eneg es"
    "read_sign (print_decimal neg ds fs eneg es) = (neg, ds @ ''.'' @ ?r)"
    unfolding print_decimal_def using hd by (simp_all add: signed_start read_sign_signed)
  moreover have "\<not> (ds = [] \<and> fs = [])" using assms(2) by simp
  ultimately show ?thesis using c d f x by (auto simp add: strtod_with_def)
qed

lemma exact_Num: "exact_upto Num n"
  by (simp add: exact_upto_def)

lemma exact_round_double: "n \<le> 2 ^ 53 \<Longrightarrow> exact_upto round_double n"
  unfolding exact_upto_def
proof (intro allI impI)
  fix k assume "n \<le> 2 ^ 53" "k \<le> n"
  then have "k \<le> 2 ^ 53" by (rule le_trans [rotated])
  then have "int k \<le> int (2 ^ 53)" unfolding of_nat_le_iff .
  then have "\<bar>int k\<bar> \<le> 2 ^ 53" by simp
  from round_double_int [OF this] show "round_double (of_nat k) = Num (of_nat k)" by simp
qed

text \<open>C26: Every integer of up to 53 bits is converted exactly by the arithmetic of doubles, and all of the text is consumed.\<close>

theorem strtod_integer_exact:
  assumes "list_all is_digit ds" "ds \<noteq> []" "dec_value 0 ds \<le> 2 ^ 53"
  shows "my_strtod (with_sign neg ds) = Returns (Num (if neg then - of_nat (dec_value 0 ds) else of_nat (dec_value 0 ds))) []"
  using strtod_integer [OF assms(1,2) exact_round_double [OF assms(3)]]
  by (simp add: my_strtod_def strtod_finish_def DBL_MIN_EXP_def DBL_MAX_EXP_def)

theorem strtod_integer_exact_witness: "my_strtod ''-9007199254740992'' = Returns (Num (- 9007199254740992)) []"
proof -
  have "list_all is_digit ''9007199254740992''" by code_simp
  moreover have "dec_value 0 ''9007199254740992'' = 9007199254740992" by simp
  ultimately show ?thesis using strtod_integer_exact [of "''9007199254740992''" True] by (simp add: with_sign_def)
qed

lemma scale_ten: "scale Num (e < 0) (nat \<bar>e\<bar>) (Num 10) (Num x) = Num (x * 10 powi e)"
proof (cases "e < 0")
  case True
  then have "(10::rat) powi e = inverse (10 ^ nat \<bar>e\<bar>)" by (simp add: power_int_def power_one_over inverse_eq_divide)
  then show ?thesis using True by (simp only: scale_exact divide_inverse if_True not_False_eq_True zero_neq_numeral [symmetric])
next
  case False
  then have "(10::rat) powi e = 10 ^ nat \<bar>e\<bar>" by (simp add: power_int_def)
  then show ?thesis using False by (simp only: scale_exact if_False not_False_eq_True zero_neq_numeral [symmetric])
qed



end
