(* ===== verification/Locks.thy ===== *)
theory Locks
  imports Main
begin

text \<open>
  The locks: \<open>mutex.h\<close> and \<open>rwlock.h\<close> with their implementations for pthread and for Windows.  The objects of the
  systems are modelled by their documentation: a pthread mutex without attributes, a Windows mutex, which its
  owner may enter again, and a Windows semaphore, which refuses to be released above its maximum.  The readers and
  writers of the Windows lock are a step relation; a step is one call of the system.
\<close>

subsection \<open>Mutexes\<close>

text \<open>A mutex is free or has an owner and a depth.\<close>

type_synonym 't mutex = "('t \<times> nat) option"

datatype pthread_code = Code_0 | EBUSY | EINVAL | EDEADLK | EPERM

text \<open>What a call does: it waits, it throws, or it returns a value and the new state.\<close>

datatype ('t, 'r) call = Waits | Throws_Exception string | Returned 'r "'t mutex"

fun pthread_mutex_trylock :: "'t \<Rightarrow> 't mutex \<Rightarrow> pthread_code \<times> 't mutex" where
  "pthread_mutex_trylock t None = (Code_0, Some (t, 1))"
| "pthread_mutex_trylock t (Some m) = (EBUSY, Some m)"

text \<open>The translation of the codes.\<close>

fun posix_enter_code :: "pthread_code \<Rightarrow> 't mutex \<Rightarrow> ('t, unit) call" where
  "posix_enter_code EDEADLK m = Throws_Exception ''the mutex is already locked by the calling thread''"
| "posix_enter_code EINVAL m = Throws_Exception ''the mutex has not been properly initialized''"
| "posix_enter_code _ m = Returned () m"

fun posix_try_code :: "pthread_code \<Rightarrow> 't mutex \<Rightarrow> ('t, bool) call" where
  "posix_try_code EBUSY m = Returned True m"
| "posix_try_code EINVAL m = Throws_Exception ''the mutex has not been properly initialized''"
| "posix_try_code _ m = Returned False m"

fun posix_leave_code :: "pthread_code \<Rightarrow> 't mutex \<Rightarrow> ('t, unit) call" where
  "posix_leave_code EPERM m = Throws_Exception ''the calling thread does not own the mutex''"
| "posix_leave_code EINVAL m = Throws_Exception ''the mutex has not been properly initialized''"
| "posix_leave_code _ m = Returned () m"

text \<open>A mutex without attributes blocks whoever finds it locked, its owner too, and does not check who unlocks it.\<close>

definition posix_enter :: "'t \<Rightarrow> 't mutex \<Rightarrow> ('t, unit) call" where
  "posix_enter t m = (case m of None \<Rightarrow> posix_enter_code Code_0 (Some (t, 1)) | Some _ \<Rightarrow> Waits)"

definition posix_try_enter :: "'t \<Rightarrow> 't mutex \<Rightarrow> ('t, bool) call" where
  "posix_try_enter t m = (let (c, m) = pthread_mutex_trylock t m in posix_try_code c m)"

definition posix_leave :: "'t \<Rightarrow> 't mutex \<Rightarrow> ('t, unit) call" where
  "posix_leave t m = posix_leave_code Code_0 None"

text \<open>Windows: \<open>WaitForSingleObject\<close> with and without waiting, and \<open>ReleaseMutex\<close>, whose failure is ignored.\<close>

definition win_acquire :: "'t \<Rightarrow> 't mutex \<Rightarrow> 't mutex option" where
  "win_acquire t m = (case m of
     None \<Rightarrow> Some (Some (t, 1))
   | Some (u, n) \<Rightarrow> if u = t then Some (Some (t, n + 1)) else None)"

definition win_enter :: "'t \<Rightarrow> 't mutex \<Rightarrow> ('t, unit) call" where
  "win_enter t m = (case win_acquire t m of None \<Rightarrow> Waits | Some m \<Rightarrow> Returned () m)"

definition win_try_enter :: "'t \<Rightarrow> 't mutex \<Rightarrow> ('t, bool) call" where
  "win_try_enter t m = (case win_acquire t m of None \<Rightarrow> Returned False m | Some m \<Rightarrow> Returned True m)"

definition win_leave :: "'t \<Rightarrow> 't mutex \<Rightarrow> ('t, unit) call" where
  "win_leave t m = Returned () (case m of
     None \<Rightarrow> None
   | Some (u, n) \<Rightarrow> if u \<noteq> t then m else if n \<le> 1 then None else Some (u, n - 1))"

subsection \<open>The lock for readers and writers on Windows\<close>

definition MAX_READERS :: nat where "MAX_READERS = 64"

datatype rw_place = Idle | Want_Read | Reading | Want_Write | Taking nat | Writing

record 't rwlock =
  sem :: nat
  wlock :: "'t mutex"
  rw_at :: "'t \<Rightarrow> rw_place"

definition rwlock_init :: "'t rwlock" where
  "rwlock_init = \<lparr>sem = MAX_READERS, wlock = None, rw_at = \<lambda>_. Idle\<rparr>"

text \<open>\<open>ReleaseSemaphore\<close> changes nothing when the count would exceed the maximum.\<close>

definition release_sem :: "nat \<Rightarrow> nat \<Rightarrow> nat" where
  "release_sem k n = (if n + k \<le> MAX_READERS then n + k else n)"

abbreviation move :: "'t \<Rightarrow> rw_place \<Rightarrow> 't rwlock \<Rightarrow> 't rwlock" where
  "move t p s \<equiv> s\<lparr>rw_at := (rw_at s)(t := p)\<rparr>"

definition unlock_w :: "'t \<Rightarrow> 't mutex \<Rightarrow> 't mutex" where
  "unlock_w t m = (case win_leave t m of Returned _ m \<Rightarrow> m | _ \<Rightarrow> m)"

inductive rw_step :: "'t rwlock \<Rightarrow> 't rwlock \<Rightarrow> bool" where
  call_read: "rw_at s t = Idle \<Longrightarrow> rw_step s (move t Want_Read s)"
| call_write: "rw_at s t = Idle \<Longrightarrow> rw_step s (move t Want_Write s)"
| enter_read: "rw_at s t = Want_Read \<Longrightarrow> 0 < sem s \<Longrightarrow> rw_step s (move t Reading (s\<lparr>sem := sem s - 1\<rparr>))"
| try_read: "rw_at s t = Idle \<Longrightarrow> 0 < sem s \<Longrightarrow> rw_step s (move t Reading (s\<lparr>sem := sem s - 1\<rparr>))"
| leave_read: "rw_at s t = Reading \<Longrightarrow> rw_step s (move t Idle (s\<lparr>sem := release_sem 1 (sem s)\<rparr>))"
| lock_write: "rw_at s t = Want_Write \<Longrightarrow> win_acquire t (wlock s) = Some m \<Longrightarrow> rw_step s (move t (Taking 0) (s\<lparr>wlock := m\<rparr>))"
| take_permit: "rw_at s t = Taking i \<Longrightarrow> i < MAX_READERS \<Longrightarrow> 0 < sem s \<Longrightarrow>
    rw_step s (move t (Taking (i + 1)) (s\<lparr>sem := sem s - 1\<rparr>))"
| enter_write: "rw_at s t = Taking MAX_READERS \<Longrightarrow> rw_step s (move t Writing (s\<lparr>wlock := unlock_w t (wlock s)\<rparr>))"
| leave_write: "rw_at s t = Writing \<Longrightarrow> rw_step s (move t Idle (s\<lparr>sem := release_sem MAX_READERS (sem s)\<rparr>))"

inductive_cases rw_stepE: "rw_step s s'"

text \<open>\<open>try_enter_write\<close> that returns true; the mutex stays locked.\<close>

definition try_enter_write :: "'t \<Rightarrow> 't rwlock \<Rightarrow> bool \<times> 't rwlock" where
  "try_enter_write t s = (case win_acquire t (wlock s) of
     None \<Rightarrow> (False, s)
   | Some m \<Rightarrow>
       if 0 < sem s then (True, move t Writing (s\<lparr>wlock := m, sem := sem s - 1\<rparr>)) else (False, s\<lparr>wlock := m\<rparr>))"

section \<open>Properties\<close>

subsection \<open>Entering without waiting\<close>

text \<open>What \<open>mutex.h\<close> promises of \<open>try_enter\<close>: it does not wait, it returns true if and only if the caller owns the mutex
  afterwards, and it leaves a mutex of another thread alone.\<close>

locale try_lock =
  fixes try_enter :: "'t \<Rightarrow> 't mutex \<Rightarrow> ('t, bool) call"
  assumes returns: "\<exists>b m'. try_enter t m = Returned b m'"
    and owner_iff: "try_enter t m = Returned b m' \<Longrightarrow> b \<longleftrightarrow> (\<exists>n. m' = Some (t, n))"
    and others_kept: "u \<noteq> t \<Longrightarrow> try_enter t (Some (u, n)) = Returned b m' \<Longrightarrow> m' = Some (u, n)"
begin

lemma refused_after_success:
  assumes "try_enter t m = Returned True m'" "u \<noteq> t"
  shows "try_enter u m' = Returned False m'"
proof -
  obtain n where n: "m' = Some (t, n)" using owner_iff [OF assms(1)] by auto
  obtain b m'' where r: "try_enter u m' = Returned b m''" using returns by blast
  have "m'' = m'" using others_kept [of t u n b m''] r n assms(2) by simp
  then show ?thesis using owner_iff [OF r] r n assms(2) by simp
qed

end

interpretation win: try_lock win_try_enter
  by unfold_locales (auto simp: win_try_enter_def win_acquire_def split: option.splits if_splits)

text \<open>On Windows, while a thread has entered, nobody else enters without waiting.\<close>

theorem win_try_enter_excludes: "win_try_enter t m = Returned True m' \<Longrightarrow> u \<noteq> t \<Longrightarrow> win_try_enter u m' = Returned False m'"
  by (rule win.refused_after_success)

text \<open>The pthread implementation does not: it returns the opposite.\<close>

theorem posix_try_enter_inverted:
  "posix_try_enter t None = Returned False (Some (t, 1))" "posix_try_enter t (Some m) = Returned True (Some m)"
  by (simp_all add: posix_try_enter_def)

text \<open>A thread that enters a pthread mutex twice waits for itself, although \<open>mutex.h\<close> promises an exception.\<close>

theorem posix_enter_twice_waits: "posix_enter t None = Returned () m \<Longrightarrow> posix_enter t m = Waits"
  by (auto simp: posix_enter_def)

subsection \<open>Readers and writers\<close>

text \<open>The permits a thread has taken.\<close>

fun permits :: "rw_place \<Rightarrow> nat" where
  "permits Reading = 1"
| "permits (Taking i) = i"
| "permits Writing = MAX_READERS"
| "permits _ = 0"

fun taking :: "rw_place \<Rightarrow> bool" where
  "taking (Taking i) = True"
| "taking _ = False"

definition rw_ok :: "'t::finite rwlock \<Rightarrow> bool" where
  "rw_ok s \<longleftrightarrow> sem s + (\<Sum>t \<in> UNIV. permits (rw_at s t)) = MAX_READERS \<and>
     (\<forall>t. taking (rw_at s t) \<longrightarrow> wlock s = Some (t, 1)) \<and> (wlock s \<noteq> None \<longrightarrow> (\<exists>t. taking (rw_at s t)))"

lemma permits_move: "(\<Sum>u \<in> UNIV. permits (((f::'t::finite \<Rightarrow> rw_place)(t := p)) u)) + permits (f t) = (\<Sum>u \<in> UNIV. permits (f u)) + permits p"
proof -
  have "(\<Sum>u \<in> UNIV. permits (g u)) = permits (g t) + (\<Sum>u \<in> UNIV - {t}. permits (g u))" for g :: "'t \<Rightarrow> rw_place"
    by (rule sum.remove) simp_all
  moreover have "(\<Sum>u \<in> UNIV - {t}. permits ((f(t := p)) u)) = (\<Sum>u \<in> UNIV - {t}. permits (f u))"
    by (rule sum.cong) simp_all
  ultimately show ?thesis by simp
qed

lemma rw_init_ok: "rw_ok rwlock_init"
  by (simp add: rw_ok_def rwlock_init_def)

text \<open>A step that moves one thread and keeps the mutex.\<close>

lemma rw_ok_move:
  assumes "rw_ok s" "n + permits p = sem s + permits (rw_at s t)" "taking p = taking (rw_at s t)"
  shows "rw_ok (s\<lparr>sem := n, rw_at := (rw_at s)(t := p)\<rparr>)"
  using assms permits_move [of "rw_at s" t p] by (auto simp: rw_ok_def)

lemma permits_le: "rw_ok s \<Longrightarrow> sem s + permits (rw_at s t) \<le> MAX_READERS"
proof -
  assume "rw_ok s"
  moreover have "permits (rw_at s t) \<le> (\<Sum>t \<in> UNIV. permits (rw_at s t))" by (rule member_le_sum) simp_all
  ultimately show ?thesis by (simp add: rw_ok_def)
qed

lemma rw_step_ok:
  assumes "rw_step s s'" "rw_ok s"
  shows "rw_ok s'"
  using assms
proof cases
  case (lock_write t m)
  have n: "wlock s = None"
  proof (rule ccontr)
    assume "wlock s \<noteq> None"
    then obtain u where u: "taking (rw_at s u)" "wlock s = Some (u, 1)" using assms(2) by (auto simp: rw_ok_def)
    then have "u = t" using lock_write(3) by (auto simp: win_acquire_def split: if_splits)
    then show False using u lock_write(2) by simp
  qed
  then have "m = Some (t, 1)" "\<And>u. \<not> taking (rw_at s u)" using lock_write(3) assms(2) by (auto simp: win_acquire_def rw_ok_def)
  then show ?thesis using lock_write assms(2) permits_move [of "rw_at s" t "Taking 0"] by (auto simp: rw_ok_def)
next
  case (enter_write t)
  then have "wlock s = Some (t, 1)" using assms(2) by (simp add: rw_ok_def)
  moreover from this have "\<not> taking (rw_at s u)" if "u \<noteq> t" for u using assms(2) that by (auto simp: rw_ok_def)
  ultimately show ?thesis using enter_write assms(2) permits_move [of "rw_at s" t Writing]
    by (auto simp: rw_ok_def unlock_w_def win_leave_def)
next
  case (leave_read t)
  then show ?thesis using permits_le [OF assms(2), of t] rw_ok_move [OF assms(2), of "sem s + 1" Idle t]
    by (simp add: release_sem_def)
next
  case (leave_write t)
  then show ?thesis using permits_le [OF assms(2), of t] rw_ok_move [OF assms(2), of "sem s + MAX_READERS" Idle t]
    by (simp add: release_sem_def)
next
  case (call_read t)
  then show ?thesis using rw_ok_move [OF assms(2), of "sem s" Want_Read t] by simp
next
  case (call_write t)
  then show ?thesis using rw_ok_move [OF assms(2), of "sem s" Want_Write t] by simp
qed (use assms(2) in \<open>auto intro!: rw_ok_move\<close>)

lemma rw_reachable_ok: "rw_step\<^sup>*\<^sup>* rwlock_init s \<Longrightarrow> rw_ok s"
  by (induction rule: rtranclp_induct) (auto simp: rw_init_ok rw_step_ok)


text \<open>The lock with one thread that writes.\<close>

definition takes :: "nat \<Rightarrow> unit rwlock" where
  "takes i = \<lparr>sem = MAX_READERS - i, wlock = Some ((), 1), rw_at = \<lambda>_. Taking i\<rparr>"

lemma takes_all: "i \<le> MAX_READERS \<Longrightarrow> rw_step\<^sup>*\<^sup>* (takes 0) (takes i)"
proof (induction i)
  case (Suc i)
  then have "rw_step (takes i) (takes (Suc i))"
    using take_permit [of "takes i" "()" i] by (simp add: takes_def fun_upd_def)
  then show ?case using Suc by simp
qed simp

lemma writer_alone: "rw_step\<^sup>*\<^sup>* rwlock_init \<lparr>sem = 0, wlock = None, rw_at = \<lambda>_::unit. Writing\<rparr>"
proof -
  have "rw_step\<^sup>*\<^sup>* rwlock_init (move () Want_Write rwlock_init)" by (rule r_into_rtranclp, rule call_write) (simp add: rwlock_init_def)
  also have "rw_step (move () Want_Write rwlock_init) (takes 0)"
    using lock_write [of "move () Want_Write rwlock_init" "()" "Some ((), 1)"]
    by (simp add: rwlock_init_def win_acquire_def takes_def fun_upd_def)
  also have "rw_step\<^sup>*\<^sup>* (takes 0) (takes MAX_READERS)" by (rule takes_all) simp
  also have "rw_step (takes MAX_READERS) \<lparr>sem = 0, wlock = None, rw_at = \<lambda>_. Writing\<rparr>"
    using enter_write [of "takes MAX_READERS" "()"] by (simp add: takes_def unlock_w_def win_leave_def fun_upd_def)
  finally show ?thesis .
qed


subsection \<open>Progress\<close>

text \<open>Threads that wait.\<close>

fun waiting :: "rw_place \<Rightarrow> bool" where
  "waiting Want_Read = True"
| "waiting Want_Write = True"
| "waiting (Taking i) = True"
| "waiting _ = False"

text \<open>When nobody reads or writes, a waiting thread can go on: two writers never block each other, because only one at
  a time takes permits.\<close>

theorem rwlock_not_stuck:
  fixes s :: "'t::finite rwlock"
  assumes "rw_step\<^sup>*\<^sup>* rwlock_init s" "\<And>t. rw_at s t \<noteq> Reading \<and> rw_at s t \<noteq> Writing" "waiting (rw_at s u)"
  shows "\<exists>t s'. rw_step s s' \<and> waiting (rw_at s t) \<and> rw_at s' t \<noteq> rw_at s t"
proof -
  have ok: "rw_ok s" by (rule rw_reachable_ok [OF assms(1)])
  show ?thesis
  proof (cases "\<exists>t i. rw_at s t = Taking i")
    case True
    then obtain t i where t: "rw_at s t = Taking i" by blast
    then have w: "wlock s = Some (t, 1)" using ok by (simp add: rw_ok_def)
    have "permits (rw_at s v) = 0" if "v \<noteq> t" for v
    proof -
      have "\<not> taking (rw_at s v)" using ok w that by (auto simp: rw_ok_def)
      then show ?thesis using assms(2) [of v] by (cases "rw_at s v") simp_all
    qed
    then have "(\<Sum>v \<in> UNIV. permits (rw_at s v)) = permits (rw_at s t)"
      by (subst sum.remove [of UNIV t]) simp_all
    then have sem: "sem s + i = MAX_READERS" using ok t by (simp add: rw_ok_def)
    show ?thesis
    proof (cases "i < MAX_READERS")
      case True
      then show ?thesis using take_permit [OF t] sem t by (intro exI [of _ t] exI conjI) auto
    next
      case False
      then have "i = MAX_READERS" using sem by simp
      then show ?thesis using enter_write [of s t] t by (intro exI [of _ t] exI conjI) auto
    qed
  next
    case False
    then have "permits (rw_at s v) = 0" "\<not> taking (rw_at s v)" for v using assms(2) [of v] by (cases "rw_at s v"; auto)+
    then have sem: "0 < sem s" and w: "wlock s = None" using ok unfolding rw_ok_def MAX_READERS_def by (simp, blast)
    consider "rw_at s u = Want_Read" | "rw_at s u = Want_Write" using assms(3) False by (cases "rw_at s u") auto
    then show ?thesis
    proof cases
      case 1
      then show ?thesis using enter_read [OF 1 sem] by (intro exI [of _ u] exI conjI) auto
    next
      case 2
      then show ?thesis using lock_write [of s u "Some (u, 1)"] w
        by (intro exI [of _ u] exI conjI) (auto simp: win_acquire_def)
    qed
  qed
qed

subsection \<open>Entering for writing without waiting\<close>

text \<open>\<open>try_enter_write\<close> takes one permit of 64 and keeps the mutex: it succeeds while others read, and after it the lock is
  broken, since the release of 64 permits is refused and no writer enters any more.\<close>

theorem try_enter_write_beside_reader:
  assumes "rw_at s u = Reading" "wlock s = None" "1 < sem s" "u \<noteq> t" "v \<noteq> t"
  defines "s' \<equiv> snd (try_enter_write t s)"
  shows "fst (try_enter_write t s)" "rw_at s' t = Writing" "rw_at s' u = Reading"
    "release_sem MAX_READERS (sem s') = sem s'" "win_acquire v (wlock s') = None"
  using assms by (auto simp: try_enter_write_def win_acquire_def release_sem_def)

end
