(* ===== verification/Application.thy ===== *)
theory Application
  imports Strutils
begin

text \<open>
  \<open>cmdline_parameters.h\<close>, \<open>cmdline_parameters.cpp\<close>, \<open>application.h\<close>, \<open>application.cpp\<close>: the registered parameters of the command
  line, the loop that hands the parameters found to their handlers, the help page, and the execution of the
  application.  \<open>getopt_long\<close> is a parameter of the model, with its state; so is the number of characters of a
  string, which depends on the locale.  Messages are not translated.
\<close>

subsection \<open>Parameters\<close>

datatype parameter_type = OPTION | OPTION_WITH_VALUE | COMMAND | FILENAME

record cmdline_parameter =
  short_name :: char
  long_name :: string
  value_name :: string
  param_value :: string
  description :: string
  param_type :: parameter_type

definition parameter_init :: cmdline_parameter where
  "parameter_init = \<lparr>short_name = CHR 0x00, long_name = [], value_name = [], param_value = [], description = [],
     param_type = FILENAME\<rparr>"

definition is_option :: "cmdline_parameter \<Rightarrow> bool" where
  "is_option p = (param_type p = OPTION \<or> param_type p = OPTION_WITH_VALUE)"

text \<open>\<open>operator== (const string&)\<close>; the first character of an empty string is its terminator.\<close>

definition parameter_named :: "cmdline_parameter \<Rightarrow> string \<Rightarrow> bool" where
  "parameter_named p name = (short_name p = (case name of [] \<Rightarrow> CHR 0x00 | c # _ \<Rightarrow> c) \<or> long_name p = name)"

record cmdline_parameters =
  cmd_pos :: nat
  cmd_params :: "cmdline_parameter list"

definition params_add :: "cmdline_parameter \<Rightarrow> cmdline_parameters \<Rightarrow> cmdline_parameters" where
  "params_add p c = c\<lparr>cmd_params := cmd_params c @ [p]\<rparr>"

text \<open>What is passed to \<open>getopt_long\<close>.  The argument of a long option is not set for options without a value.\<close>

definition optstring :: "cmdline_parameter list \<Rightarrow> string" where
  "optstring ps = '':'' @ concat (map (\<lambda>p. short_name p # (if param_type p = OPTION_WITH_VALUE then '':'' else [])) (filter is_option ps))"

definition long_options :: "cmdline_parameter list \<Rightarrow> (string \<times> int option \<times> char) list" where
  "long_options ps =
     map (\<lambda>p. (long_name p, if param_type p = OPTION_WITH_VALUE then Some 1 else None, short_name p)) (filter is_option ps)"

datatype getopt_result = Found char "string option" | No_More | Unknown char | No_Argument char

text \<open>\<open>getopt_long\<close> on the command line and its own state; \<open>optind\<close> reads the index of the next argument.\<close>

record 'g getopt =
  getopt_long :: "string list \<Rightarrow> string \<Rightarrow> (string \<times> int option \<times> char) list \<Rightarrow> 'g \<Rightarrow> getopt_result \<times> 'g"
  optind :: "'g \<Rightarrow> nat"

datatype app_exn = Cmdline_Exception string | Other_Exception string

fun exn_what :: "app_exn \<Rightarrow> string" where
  "exn_what (Cmdline_Exception s) = s"
| "exn_what (Other_Exception s) = s"

definition format1 :: "string \<Rightarrow> string \<Rightarrow> string" where
  "format1 template x = (case fmt_str (fmt_arg (fmt_new template) x) of None \<Rightarrow> [] | Some s \<Rightarrow> s)"

definition file_parameter :: "string \<Rightarrow> cmdline_parameter \<Rightarrow> cmdline_parameter" where
  "file_parameter v p = p\<lparr>short_name := CHR 0x00, param_value := v, param_type := FILENAME\<rparr>"

definition parse_next ::
  "'g getopt \<Rightarrow> string list \<Rightarrow> 'g \<times> cmdline_parameters \<times> cmdline_parameter \<Rightarrow>
     app_exn + bool \<times> 'g \<times> cmdline_parameters \<times> cmdline_parameter" where
  "parse_next G argv st =
     (let (g, c, p) = st in
      if cmd_pos c > 0 then
        (if cmd_pos c < length argv
         then Inr (True, g, c\<lparr>cmd_pos := cmd_pos c + 1\<rparr>, file_parameter (argv ! cmd_pos c) p)
         else Inr (False, g, c, p))
      else
        let (r, g) = getopt_long G argv (optstring (cmd_params c)) (long_options (cmd_params c)) g
        in case r of
             No_More \<Rightarrow>
               (if optind G g < length argv
                then Inr (True, g, c\<lparr>cmd_pos := optind G g + 1\<rparr>, file_parameter (argv ! optind G g) p)
                else Inr (False, g, c, p))
           | Unknown o' \<Rightarrow>
               Inl (Cmdline_Exception
                 (if o' \<noteq> CHR 0x00 then format1 (''invalid option '{0}'' @ [CHR 0x27]) [o'] else ''option unrecognized''))
           | No_Argument o' \<Rightarrow> Inl (Cmdline_Exception (format1 ''option '{0}' requires an argument'' [o']))
           | Found ch v \<Rightarrow> Inr (True, g, c, p\<lparr>short_name := ch, param_value := (case v of None \<Rightarrow> [] | Some s \<Rightarrow> s)\<rparr>))"

subsection \<open>The help page\<close>

definition setw :: "nat \<Rightarrow> string \<Rightarrow> string" where
  "setw n s = replicate (n - length s) (CHR '' '') @ s"

definition option_text :: "cmdline_parameter \<Rightarrow> string" where
  "option_text p = ''-'' @ [short_name p] @ (if value_name p \<noteq> [] then '' '' @ value_name p else []) @
     (if long_name p \<noteq> [] then '', --'' @ long_name p else []) @ (if value_name p \<noteq> [] then ''='' @ value_name p else [])"

definition max_length :: "(string \<Rightarrow> nat) \<Rightarrow> cmdline_parameter list \<Rightarrow> nat" where
  "max_length char_length ps =
     fold (\<lambda>p n. if is_option p then (let i = char_length (option_text p) in if n < i then i else n) else n) ps 0"

definition NL :: string where "NL = [CHR 0x0A]"

definition option_line :: "(string \<Rightarrow> nat) \<Rightarrow> nat \<Rightarrow> cmdline_parameter \<Rightarrow> string" where
  "option_line char_length n p =
     (let s = option_text p
      in (if description p \<noteq> [] then s @ setw (n + 1 - char_length s) '' '' @ setw 0 '' '' @ description p else s) @ NL)"

definition path_delims :: string where "path_delims = [CHR ''/'', CHR 0x5C]"

definition cmdline_help :: "(string \<Rightarrow> nat) \<Rightarrow> string \<Rightarrow> cmdline_parameter list \<Rightarrow> string" where
  "cmdline_help char_length app_path ps =
     ''Usage: '' @ snd (tokenize_pair path_delims True app_path ([], [])) @ '' '' @
     (if list_ex is_option ps then ''[options...] '' else []) @
     concat (map (\<lambda>p. long_name p @ '' '') (dropWhile (\<lambda>p. param_type p \<noteq> COMMAND) ps)) @
     (case find (\<lambda>p. param_type p = FILENAME) ps of
        None \<Rightarrow> []
      | Some p \<Rightarrow> if description p = [] then ''file(s)...'' else description p) @
     (if list_ex is_option ps
      then NL @ NL @ ''Where available options are:'' @ NL @
        concat (map (option_line char_length (max_length char_length ps)) (filter is_option ps))
      else [])"

subsection \<open>The application\<close>

text \<open>What the program writes, and the state of the user's handlers.\<close>

record 'w world =
  cout :: string
  cerr :: string
  user :: 'w

datatype 'w handler = Help | User "cmdline_parameter \<Rightarrow> 'w world \<Rightarrow> (app_exn \<times> 'w world) + (bool \<times> cmdline_parameter \<times> 'w world)"

record 'w app =
  app_name :: string
  app_path :: string
  app_description :: string
  app_params :: cmdline_parameters
  app_handlers :: "char \<Rightarrow> 'w handler option"
  execute_handler :: "('w world \<Rightarrow> (app_exn + int) \<times> 'w world) option"
  app_exception_handler :: "(app_exn \<Rightarrow> 'w world \<Rightarrow> 'w world) option"

definition register_parameter :: "cmdline_parameter \<Rightarrow> 'w handler \<Rightarrow> 'w app \<Rightarrow> 'w app" where
  "register_parameter p h a = a\<lparr>app_params := params_add p (app_params a),
     app_handlers := (app_handlers a)(short_name p \<mapsto> h)\<rparr>"

definition help_parameter :: cmdline_parameter where
  "help_parameter = parameter_init\<lparr>short_name := CHR ''h'', long_name := ''help'', description := ''show this help page'',
     param_type := OPTION\<rparr>"

definition app_new :: "'w app" where
  "app_new = register_parameter help_parameter Help
     \<lparr>app_name = [], app_path = [], app_description = [], app_params = \<lparr>cmd_pos = 0, cmd_params = []\<rparr>,
      app_handlers = \<lambda>_. None, execute_handler = None, app_exception_handler = None\<rparr>"

definition print_help :: "(string \<Rightarrow> nat) \<Rightarrow> 'w app \<Rightarrow> 'w world \<Rightarrow> 'w world" where
  "print_help char_length a w = w\<lparr>cout := cout w @ cmdline_help char_length (app_path a) (cmd_params (app_params a))\<rparr>"

definition help_handler :: "(string \<Rightarrow> nat) \<Rightarrow> 'w app \<Rightarrow> 'w world \<Rightarrow> 'w world" where
  "help_handler char_length a w = print_help char_length a
     (if app_description a \<noteq> [] then w\<lparr>cout := cout w @ app_name a @ '': '' @ app_description a @ ''.'' @ NL @ NL\<rparr> else w)"

definition call_handler ::
  "(string \<Rightarrow> nat) \<Rightarrow> 'w app \<Rightarrow> cmdline_parameter \<Rightarrow> 'w world \<Rightarrow> (app_exn \<times> 'w world) + (bool \<times> cmdline_parameter \<times> 'w world)" where
  "call_handler char_length a p w = (case app_handlers a (short_name p) of
     None \<Rightarrow> Inr (True, p, w)
   | Some Help \<Rightarrow> Inr (False, p, help_handler char_length a w)
   | Some (User f) \<Rightarrow> f p w)"

text \<open>The loop over the command line: the application after it, and whether to go on.  \<^const>\<open>None\<close> if it never ends.\<close>

partial_function (option) params_loop ::
  "(string \<Rightarrow> nat) \<Rightarrow> 'g getopt \<Rightarrow> string list \<Rightarrow> 'w app \<Rightarrow> 'g \<times> cmdline_parameters \<times> cmdline_parameter \<Rightarrow> 'w world \<Rightarrow>
     ((app_exn \<times> 'w world) + (bool \<times> 'w world)) option" where
  "params_loop char_length G argv a st w = (case parse_next G argv st of
     Inl x \<Rightarrow> Some (Inl (x, w))
   | Inr (found, g, c, p) \<Rightarrow>
       if \<not> found then Some (Inr (True, w))
       else (case call_handler char_length a p w of
               Inl e \<Rightarrow> Some (Inl e)
             | Inr (go_on, p, w) \<Rightarrow>
                 if go_on then params_loop char_length G argv a (g, c, p) w else Some (Inr (False, w))))"

text \<open>The setters of the application.\<close>

definition set_app_name :: "string \<Rightarrow> 'w app \<Rightarrow> 'w app" where
  "set_app_name n a = a\<lparr>app_name := n\<rparr>"

definition set_app_description :: "string \<Rightarrow> 'w app \<Rightarrow> 'w app" where
  "set_app_description d a = a\<lparr>app_description := d\<rparr>"

definition on_execute :: "('w world \<Rightarrow> (app_exn + int) \<times> 'w world) option \<Rightarrow> 'w app \<Rightarrow> 'w app" where
  "on_execute h a = a\<lparr>execute_handler := h\<rparr>"

definition on_exception :: "(app_exn \<Rightarrow> 'w world \<Rightarrow> 'w world) option \<Rightarrow> 'w app \<Rightarrow> 'w app" where
  "on_exception h a = a\<lparr>app_exception_handler := h\<rparr>"

text \<open>The application as its handlers see it: its path and name are set.\<close>

definition started :: "string list \<Rightarrow> 'w app \<Rightarrow> 'w app" where
  "started argv a =
     (let a = a\<lparr>app_path := hd argv\<rparr>
      in if app_name a = [] then a\<lparr>app_name := snd (tokenize_pair path_delims True (app_path a) ([], []))\<rparr> else a)"

text \<open>\<open>init\<close>: only a syntax error is caught here.  The command line has at least the name of the program.\<close>

definition app_init ::
  "(string \<Rightarrow> nat) \<Rightarrow> 'g getopt \<Rightarrow> 'g \<Rightarrow> string list \<Rightarrow> 'w app \<Rightarrow> 'w world \<Rightarrow> ((app_exn \<times> 'w world) + (bool \<times> 'w world)) option" where
  "app_init char_length G g argv a w =
     (let a = started argv a
      in map_option (\<lambda>r. case r of
             Inl (Cmdline_Exception m, w) \<Rightarrow>
               Inr (False, print_help char_length a
                 (w\<lparr>cerr := cerr w @ app_name a @ '': '' @ ''syntax error'' @ '' - '' @ m @ NL @ NL\<rparr>))
           | _ \<Rightarrow> r)
         (params_loop char_length G argv a (g, app_params a, parameter_init) w))"

definition app_run :: "(string \<Rightarrow> nat) \<Rightarrow> 'g getopt \<Rightarrow> 'g \<Rightarrow> string list \<Rightarrow> 'w app \<Rightarrow> 'w world \<Rightarrow> (int \<times> 'w world) option" where
  "app_run char_length G g argv a w =
     (let failed = (\<lambda>e w. (-1, case app_exception_handler a of
            Some h \<Rightarrow> h e w
          | None \<Rightarrow> w\<lparr>cout := cout w @ format1 ''Fatal error: {0}'' (exn_what e) @ NL\<rparr>))
      in map_option (\<lambda>r. case r of
             Inl (e, w) \<Rightarrow> failed e w
           | Inr (False, w) \<Rightarrow> (-1, w)
           | Inr (True, w) \<Rightarrow> (case execute_handler a of
               None \<Rightarrow> (-1, w)
             | Some f \<Rightarrow> (case f w of (Inl e, w) \<Rightarrow> failed e w | (Inr n, w) \<Rightarrow> (n, w))))
         (app_init char_length G g argv a w))"

section \<open>Properties\<close>

subsection \<open>The command line\<close>

text \<open>What \<open>getopt_long\<close> delivers: options, and then the index of the first file.\<close>

fun delivers :: "'g getopt \<Rightarrow> string list \<Rightarrow> cmdline_parameter list \<Rightarrow> 'g \<Rightarrow> (char \<times> string option) list \<Rightarrow> nat \<Rightarrow> bool" where
  "delivers G argv ps g [] k =
     (let (r, g) = getopt_long G argv (optstring ps) (long_options ps) g in r = No_More \<and> optind G g = k)"
| "delivers G argv ps g (x # xs) k =
     (let (r, g) = getopt_long G argv (optstring ps) (long_options ps) g in r = Found (fst x) (snd x) \<and> delivers G argv ps g xs k)"

definition option_parameter :: "char \<times> string option \<Rightarrow> cmdline_parameter \<Rightarrow> cmdline_parameter" where
  "option_parameter x p = p\<lparr>short_name := fst x, param_value := (case snd x of None \<Rightarrow> [] | Some s \<Rightarrow> s)\<rparr>"

text \<open>The specification of the loop: the parameters are handled one after the other until a handler refuses.\<close>

fun handle_all ::
  "(string \<Rightarrow> nat) \<Rightarrow> 'w app \<Rightarrow> (cmdline_parameter \<Rightarrow> cmdline_parameter) list \<Rightarrow> cmdline_parameter \<Rightarrow> 'w world \<Rightarrow>
     (app_exn \<times> 'w world) + (bool \<times> 'w world)" where
  "handle_all cl a [] p w = Inr (True, w)"
| "handle_all cl a (u # us) p w = (case call_handler cl a (u p) w of
     Inl e \<Rightarrow> Inl e
   | Inr (go_on, p, w) \<Rightarrow> if go_on then handle_all cl a us p w else Inr (False, w))"

text \<open>Once files are returned, they are returned in order.\<close>

lemma files_loop:
  "0 < cmd_pos c \<Longrightarrow> params_loop cl G argv a (g, c, p) w = Some (handle_all cl a (map file_parameter (drop (cmd_pos c) argv)) p w)"
proof (induction "length argv - cmd_pos c" arbitrary: c p w)
  case 0
  then show ?case by (simp add: params_loop.simps parse_next_def)
next
  case (Suc n)
  let ?c = "c\<lparr>cmd_pos := Suc (cmd_pos c)\<rparr>"
  have lt: "cmd_pos c < length argv" using Suc(2) by simp
  have IH: "params_loop cl G argv a (g, ?c, q) v = Some (handle_all cl a (map file_parameter (drop (Suc (cmd_pos c)) argv)) q v)" for q v
    using Suc(1) [of ?c q v] Suc(2) by simp
  have "drop (cmd_pos c) argv = argv ! cmd_pos c # drop (cmd_pos c + 1) argv" using lt by (simp add: Cons_nth_drop_Suc)
  then show ?case using Suc(3) lt
    by (subst params_loop.simps) (simp add: parse_next_def IH split: sum.split)
qed

lemma options_loop:
  assumes "delivers G argv (cmd_params c) g xs k" "cmd_pos c = 0"
  shows "params_loop cl G argv a (g, c, p) w =
    Some (handle_all cl a (map option_parameter xs @ map file_parameter (drop k argv)) p w)"
  using assms(1)
proof (induction xs arbitrary: g p w)
  case Nil
  then obtain g' where g': "getopt_long G argv (optstring (cmd_params c)) (long_options (cmd_params c)) g = (No_More, g')" "optind G g' = k"
    by (auto simp: case_prod_beta prod_eq_iff)
  show ?case
  proof (cases "k < length argv")
    case True
    then have "drop k argv = argv ! k # drop (k + 1) argv" by (simp add: Cons_nth_drop_Suc)
    then show ?thesis using g' True assms(2)
      by (subst params_loop.simps) (simp add: parse_next_def files_loop split: sum.split)
  qed (use g' assms(2) in \<open>simp add: params_loop.simps parse_next_def\<close>)
next
  case (Cons x xs)
  then obtain g' where "getopt_long G argv (optstring (cmd_params c)) (long_options (cmd_params c)) g = (Found (fst x) (snd x), g')"
    "delivers G argv (cmd_params c) g' xs k"
    by (auto simp: case_prod_beta prod_eq_iff)
  moreover have "p\<lparr>short_name := fst x, param_value := (case snd x of None \<Rightarrow> [] | Some s \<Rightarrow> s)\<rparr> = option_parameter x p"
    by (simp add: option_parameter_def)
  ultimately show ?case using Cons.IH assms(2)
    by (subst params_loop.simps) (simp add: parse_next_def split: sum.split)
qed

lemma started_params [simp]: "app_params (started argv a) = app_params a"
  by (simp add: started_def Let_def)


text \<open>An example: \<open>prog -v file\<close>, with a handler that counts.\<close>

definition count_app :: "nat app" where
  "count_app = (app_new\<lparr>execute_handler := Some (\<lambda>w. (Inr (int (user w)), w))\<rparr>)
     \<lparr>app_handlers := (\<lambda>c. Some (User (\<lambda>p w. Inr (True, p, w\<lparr>user := user w + 1\<rparr>))))\<rparr>"

definition listed_getopt :: "getopt_result list getopt" where
  "listed_getopt = \<lparr>getopt_long = \<lambda>_ _ _ g. (case g of [] \<Rightarrow> (No_More, []) | r # g \<Rightarrow> (r, g)), optind = \<lambda>_. 2\<rparr>"


text \<open>A syntax error is reported with the help page, and nothing is executed.\<close>

theorem syntax_error_reported:
  assumes "getopt_long G argv (optstring (cmd_params (app_params a))) (long_options (cmd_params (app_params a))) g = (No_Argument c, g')"
    and "cmd_pos (app_params a) = 0" "app_name a \<noteq> []"
  shows "app_run cl G g argv a w = Some (-1,
    w\<lparr>cout := cout w @ cmdline_help cl (hd argv) (cmd_params (app_params a)),
      cerr := cerr w @ app_name a @ '': syntax error - '' @ format1 ''option '{0}' requires an argument'' [c] @ NL @ NL\<rparr>)"
  using assms by (simp add: app_run_def app_init_def params_loop.simps parse_next_def print_help_def started_def)

subsection \<open>The help page\<close>

lemma max_length_ge: "(n::nat) \<le> fold (\<lambda>p n. if is_option p then (let i = cl (option_text p) in if n < i then i else n) else n) ps n"
proof (induction ps arbitrary: n)
  case (Cons p ps)
  let ?f = "\<lambda>p n. if is_option p then (let i = cl (option_text p) in if n < i then i else n) else n"
  have "n \<le> ?f p n" by (simp add: Let_def)
  also have "\<dots> \<le> fold ?f ps (?f p n)" by (rule Cons)
  finally show ?case by (simp only: fold_simps)
qed simp

lemma max_length_option: "p \<in> set ps \<Longrightarrow> is_option p \<Longrightarrow> cl (option_text p) \<le> max_length cl ps"
proof -
  assume p: "p \<in> set ps" "is_option p"
  let ?f = "\<lambda>p n. if is_option p then (let i = cl (option_text p) in if n < i then i else n) else n"
  obtain as bs where ps: "ps = as @ p # bs" using p(1) split_list by fastforce
  have "cl (option_text p) \<le> ?f p (fold ?f as 0)" using p(2) by (simp add: Let_def)
  also have "\<dots> \<le> fold ?f bs (?f p (fold ?f as 0))" by (rule max_length_ge)
  finally show ?thesis by (simp add: max_length_def ps)
qed

text \<open>The descriptions of the options stand in one column of the help page, whatever the locale counts as a character.\<close>

theorem help_aligned:
  assumes "p \<in> set ps" "is_option p" "description p \<noteq> []"
  shows "\<exists>n. option_line cl (max_length cl ps) p = option_text p @ replicate n (CHR '' '') @ description p @ NL \<and>
    cl (option_text p) + n = max_length cl ps + 2"
proof -
  let ?m = "max_length cl ps - cl (option_text p)"
  have le: "cl (option_text p) \<le> max_length cl ps" by (rule max_length_option [OF assms(1,2)])
  have "setw (max_length cl ps + 1 - cl (option_text p)) '' '' @ setw 0 '' '' = replicate (?m + 2) (CHR '' '')"
    using le by (simp add: setw_def Suc_diff_le replicate_append_same [symmetric])
  then have "option_line cl (max_length cl ps) p = option_text p @ replicate (?m + 2) (CHR '' '') @ description p @ NL"
    using assms(3) by (simp add: option_line_def Let_def)
  then show ?thesis using le by (intro exI [of _ "?m + 2"]) simp
qed

text \<open>Every parameter after the first command is listed as a command, whatever its type.\<close>

theorem options_listed_as_commands:
  "cmdline_help length ''prog'' [parameter_init\<lparr>long_name := ''start'', param_type := COMMAND\<rparr>, help_parameter] =
     ''Usage: prog [options...] start help '' @ NL @ NL @ ''Where available options are:'' @ NL @
     ''-h, --help  show this help page'' @ NL"
proof -
  have "snd (tokenize_pair path_delims True ''prog'' ([], [])) = ''prog''" by code_simp
  then show ?thesis
    by (simp add: cmdline_help_def is_option_def help_parameter_def parameter_init_def option_line_def option_text_def
        max_length_def setw_def Let_def)
qed

end
