(* ===== verification/Daemon.thy ===== *)
theory Daemon
  imports Application
begin

text \<open>
  \<open>posix/daemon_application.cpp\<close> and \<open>win32/daemon_application.cpp\<close>: an application in the background.  On POSIX it runs
  through \<open>application::run\<close> with handlers of its own; what it logs is kept with the state of the user.  On
  Windows the main function of the service and the control handler are run by different threads of the system,
  which are a step relation; the reports to the service manager are a list.
\<close>

subsection \<open>POSIX\<close>

datatype log_level = Emergency | Alert | Critical | Error | Warning | Notice | Info | Debug

record 'u dstate =
  syslog :: "(log_level \<times> string) list"
  ustate :: 'u

type_synonym 'u dworld = "'u dstate world"

definition log_to :: "log_level \<Rightarrow> string \<Rightarrow> 'u dworld \<Rightarrow> 'u dworld" where
  "log_to l m w = w\<lparr>user := (user w)\<lparr>syslog := syslog (user w) @ [(l, m)]\<rparr>\<rparr>"

record 'u daemon =
  d_execute :: "('u dworld \<Rightarrow> (app_exn + int) \<times> 'u dworld) option"
  d_exception :: "(app_exn \<Rightarrow> 'u dworld \<Rightarrow> 'u dworld) option"
  d_reload :: "('u dworld \<Rightarrow> 'u dworld) option"
  d_terminate :: "('u dworld \<Rightarrow> 'u dworld) option"

definition daemon_exception :: "app_exn \<Rightarrow> 'u dworld \<Rightarrow> 'u dworld" where
  "daemon_exception e w = log_to Critical (format1 ''Fatal error: {0}'' (exn_what e)) w"

text \<open>The fallback for \<open>daemon\<close>: the value it returns, or \<^const>\<open>None\<close> in the process that exits.\<close>

datatype fork_result = Fork_Failed | In_Child | In_Parent

definition daemon_call :: "fork_result \<Rightarrow> bool \<Rightarrow> int option" where
  "daemon_call f setsid_ok = (case f of
     Fork_Failed \<Rightarrow> Some (-1)
   | In_Parent \<Rightarrow> None
   | In_Child \<Rightarrow> if setsid_ok then Some 0 else Some (-1))"

text \<open>What the process that goes on does; \<open>r\<close> is the result of \<open>daemon\<close>.\<close>

definition daemon_execute :: "int \<Rightarrow> 'u daemon \<Rightarrow> 'u dworld \<Rightarrow> (app_exn + int) \<times> 'u dworld" where
  "daemon_execute r d w =
     (if r \<noteq> 0 then (Inr (-1), w)
      else let w = log_to Info ''successfully started'' w;
               (rslt, w) = (case d_execute d of
                  None \<Rightarrow> (-1, w)
                | Some f \<Rightarrow> (case f w of
                    (Inr n, w) \<Rightarrow> (n, w)
                  | (Inl e, w) \<Rightarrow> (-1, case d_exception d of Some h \<Rightarrow> h e w | None \<Rightarrow> daemon_exception e w)))
           in (Inr rslt, log_to Info ''successfully terminated'' w))"

text \<open>The constructor puts these handlers into the application.\<close>

definition daemon_app :: "int \<Rightarrow> 'u daemon \<Rightarrow> 'u dstate app \<Rightarrow> 'u dstate app" where
  "daemon_app r d a = on_exception (Some daemon_exception) (on_execute (Some (daemon_execute r d)) a)"

datatype signal = SIGHUP | SIGQUIT | SIGTERM | SIGCHLD

text \<open>Reaping the children of the process changes nothing here.\<close>

fun signal_handler :: "'u daemon \<Rightarrow> signal \<Rightarrow> 'u dworld \<Rightarrow> 'u dworld" where
  "signal_handler d SIGHUP w = (case d_reload d of
     None \<Rightarrow> w
   | Some f \<Rightarrow> log_to Info ''configuration file reloaded'' (f w))"
| "signal_handler d SIGCHLD w = w"
| "signal_handler d s w = (case d_terminate d of None \<Rightarrow> w | Some f \<Rightarrow> f w)"

subsection \<open>Windows\<close>

datatype service_state = START_PENDING | STOP_PENDING | RUNNING | STOPPED

text \<open>A report: the state, whether a stop is accepted, the check point, and whether the status handle was valid.\<close>

record report =
  current_state :: service_state
  accepts_stop :: bool
  dwCheckPoint :: int
  valid_handle :: bool

datatype svc_place = Start | Dispatch | Register | Report_Run | Start_Log | Execute | Terminate_Log | Report_Stop | End | Failed

record service =
  svc_at :: svc_place
  status_handle :: bool
  check_point :: int
  reports :: "report list"
  event_log :: "string list"
  stop_calls :: nat

definition service_init :: service where
  "service_init = \<lparr>svc_at = Start, status_handle = False, check_point = 1, reports = [], event_log = [], stop_calls = 0\<rparr>"

definition report_service_status :: "service_state \<Rightarrow> service \<Rightarrow> service" where
  "report_service_status st s =
     (let final = (st = RUNNING \<or> st = STOPPED)
      in s\<lparr>reports := reports s @ [\<lparr>current_state = st, accepts_stop = (st \<noteq> START_PENDING),
             dwCheckPoint = (if final then 0 else check_point s), valid_handle = status_handle s\<rparr>],
           check_point := (if final then check_point s else check_point s + 1)\<rparr>)"

abbreviation main_at :: "svc_place \<Rightarrow> service \<Rightarrow> service" where
  "main_at p s \<equiv> s\<lparr>svc_at := p\<rparr>"

text \<open>The steps of \<open>daemon_execute\<close>, \<open>svc_main\<close> and the control handler, which the system calls once the handler is
  registered.  The control of the service manager is counted in \<open>stop_calls\<close>.\<close>

inductive svc_step :: "service \<Rightarrow> service \<Rightarrow> bool" where
  start: "svc_at s = Start \<Longrightarrow> svc_step s (main_at Dispatch (report_service_status START_PENDING s))"
| dispatch: "svc_at s = Dispatch \<Longrightarrow> svc_step s (main_at Register s)"
| dispatch_fails: "svc_at s = Dispatch \<Longrightarrow> svc_step s (main_at Failed s)"
| register: "svc_at s = Register \<Longrightarrow> svc_step s (main_at Report_Run (s\<lparr>status_handle := True\<rparr>))"
| register_fails: "svc_at s = Register \<Longrightarrow> svc_step s (main_at Failed s)"
| running: "svc_at s = Report_Run \<Longrightarrow> svc_step s (main_at Start_Log (report_service_status RUNNING s))"
| begin_log: "svc_at s = Start_Log \<Longrightarrow> svc_step s (main_at Execute (s\<lparr>event_log := event_log s @ [''successfully started'']\<rparr>))"
| execute: "svc_at s = Execute \<Longrightarrow> svc_step s (main_at Terminate_Log s)"
| finish: "svc_at s = Terminate_Log \<Longrightarrow> svc_step s (main_at Report_Stop (s\<lparr>event_log := event_log s @ [''successfully terminated'']\<rparr>))"
| stopped: "svc_at s = Report_Stop \<Longrightarrow> svc_step s (main_at End (report_service_status STOPPED s))"
| control: "status_handle s \<Longrightarrow> svc_step s ((report_service_status STOP_PENDING s)\<lparr>stop_calls := stop_calls s + 1\<rparr>)"

section \<open>Properties\<close>

subsection \<open>The log of a daemon\<close>

definition logged :: "'u dworld \<Rightarrow> (log_level \<times> string) list" where
  "logged w = syslog (user w)"

lemma logged_log_to [simp]: "logged (log_to l m w) = logged w @ [(l, m)]"
  by (simp add: logged_def log_to_def)

text \<open>A daemon logs its start, a failure of its code with its message, and its end, in this order; it returns the result of
  the code, or -1 if it fails.\<close>

theorem daemon_execute_logs:
  assumes "d_execute d = Some f" "d_exception d = None"
    and "f (log_to Info ''successfully started'' w) = (r, w')"
  shows "fst (daemon_execute 0 d w) = Inr (case r of Inl _ \<Rightarrow> -1 | Inr n \<Rightarrow> n)"
    "logged (snd (daemon_execute 0 d w)) =
      logged w' @ (case r of Inl e \<Rightarrow> [(Critical, format1 ''Fatal error: {0}'' (exn_what e))] | Inr _ \<Rightarrow> []) @
      [(Info, ''successfully terminated'')]"
  using assms by (simp_all add: daemon_execute_def daemon_exception_def split: sum.split)

text \<open>A daemon that runs through the command line: what is executed when the parameters are accepted.\<close>

theorem daemon_run:
  assumes "app_init cl G g argv (daemon_app r d a) w = Some (Inr (True, w'))"
  shows "\<exists>n. fst (daemon_execute r d w') = Inr n \<and>
    app_run cl G g argv (daemon_app r d a) w = Some (n, snd (daemon_execute r d w'))"
proof -
  have "\<exists>n. fst (daemon_execute r d w') = Inr n" by (simp add: daemon_execute_def Let_def case_prod_beta)
  then obtain n w'' where n: "daemon_execute r d w' = (Inr n, w'')" by (metis prod.collapse)
  moreover have "execute_handler (daemon_app r d a) = Some (daemon_execute r d)" by (simp add: daemon_app_def on_execute_def on_exception_def)
  ultimately have "app_run cl G g argv (daemon_app r d a) w = Some (n, w'')" using assms by (simp add: app_run_def)
  then show ?thesis using n by simp
qed

subsection \<open>The reports of a service\<close>

definition pending :: "report \<Rightarrow> bool" where
  "pending r \<longleftrightarrow> current_state r = START_PENDING \<or> current_state r = STOP_PENDING"

definition svc_ok :: "service \<Rightarrow> bool" where
  "svc_ok s \<longleftrightarrow> map dwCheckPoint (filter pending (reports s)) = map int [1..<nat (check_point s)] \<and> 1 \<le> check_point s \<and>
     (\<forall>r \<in> set (reports s). \<not> pending r \<longrightarrow> dwCheckPoint r = 0) \<and>
     (\<forall>r \<in> set (reports s). valid_handle r \<longleftrightarrow> current_state r \<noteq> START_PENDING) \<and>
     (status_handle s \<longleftrightarrow> svc_at s \<in> {Report_Run, Start_Log, Execute, Terminate_Log, Report_Stop, End}) \<and>
     (svc_at s = Start \<longrightarrow> reports s = [])"

lemma report_ok:
  assumes "svc_ok s" "status_handle s \<longleftrightarrow> st \<noteq> START_PENDING"
    and "status_handle s \<longleftrightarrow> p \<in> {Report_Run, Start_Log, Execute, Terminate_Log, Report_Stop, End}" "p \<noteq> Start"
  shows "svc_ok ((report_service_status st s)\<lparr>svc_at := p, event_log := l, stop_calls := k\<rparr>)"
proof -
  have "1 \<le> check_point s" using assms(1) by (simp add: svc_ok_def)
  then have "1 \<le> nat (check_point s)" by linarith
  then have "[1..<nat (check_point s + 1)] = [1..<nat (check_point s)] @ [nat (check_point s)]"
    by (simp add: nat_add_distrib upt_Suc)
  then show ?thesis using assms by (cases st) (auto simp: svc_ok_def report_service_status_def pending_def Let_def)
qed

lemma report_frame:
  "(report_service_status st s)\<lparr>svc_at := p\<rparr> = (report_service_status st s)\<lparr>svc_at := p, event_log := event_log s, stop_calls := stop_calls s\<rparr>"
  "(report_service_status st s)\<lparr>stop_calls := k\<rparr> = (report_service_status st s)\<lparr>svc_at := svc_at s, event_log := event_log s, stop_calls := k\<rparr>"
  by (simp_all add: report_service_status_def Let_def)

lemma svc_step_ok: "svc_step s s' \<Longrightarrow> svc_ok s \<Longrightarrow> svc_ok s'"
proof (induction rule: svc_step.induct)
  case (start s)
  show ?case by (subst report_frame, rule report_ok) (use start in \<open>auto simp: svc_ok_def\<close>)
next
  case (running s)
  show ?case by (subst report_frame, rule report_ok) (use running in \<open>auto simp: svc_ok_def\<close>)
next
  case (stopped s)
  show ?case by (subst report_frame, rule report_ok) (use stopped in \<open>auto simp: svc_ok_def\<close>)
next
  case (control s)
  show ?case by (subst report_frame, rule report_ok) (use control in \<open>auto simp: svc_ok_def\<close>)
qed (auto simp: svc_ok_def)


text \<open>A service that is told to stop as soon as its handler is registered.\<close>

definition stopped_early :: service where
  "stopped_early = \<lparr>svc_at = Report_Run, status_handle = True, check_point = 3,
     reports = [\<lparr>current_state = START_PENDING, accepts_stop = False, dwCheckPoint = 1, valid_handle = False\<rparr>,
       \<lparr>current_state = STOP_PENDING, accepts_stop = True, dwCheckPoint = 2, valid_handle = True\<rparr>],
     event_log = [], stop_calls = 1\<rparr>"

lemma stopped_early_reachable: "svc_step\<^sup>*\<^sup>* service_init stopped_early"
proof -
  let ?a = "main_at Dispatch (report_service_status START_PENDING service_init)"
  have "svc_step\<^sup>*\<^sup>* service_init ?a" by (rule r_into_rtranclp, rule start) (simp add: service_init_def)
  also have "svc_step ?a (main_at Register ?a)" by (rule dispatch) simp
  also have "svc_step (main_at Register ?a) (main_at Report_Run (?a\<lparr>status_handle := True\<rparr>))"
    using register [of "main_at Register ?a"] by simp
  also have "svc_step (main_at Report_Run (?a\<lparr>status_handle := True\<rparr>)) stopped_early"
    using control [of "main_at Report_Run (?a\<lparr>status_handle := True\<rparr>)"]
    by (simp add: stopped_early_def report_service_status_def service_init_def)
  finally show ?thesis .
qed


end
