(* ===== verification/Plugin.thy ===== *)
theory Plugin
  imports Strutils
begin

text \<open>
  \<open>plugin.h\<close>, \<open>plugin.cpp\<close>, \<open>posix/plugin_impl.cpp\<close>: a dynamic library with four exported functions.  The loader is modelled
  by its documentation: a handle for every library that is open.  A function pointer is the handle of the library
  it points into, or indeterminate; calling one that is not into an open library is the outcome \<^const>\<open>None\<close>.
\<close>

text \<open>A library: the names it exports, and what its function \<open>create_object\<close> returns, null included.\<close>

record library =
  exports :: "string list"
  creates :: "string \<Rightarrow> nat option"

record loader =
  open_libs :: "nat \<Rightarrow> library option"
  next_handle :: nat

record plugin =
  handle :: "nat option"
  plugin_file :: string
  fn_init :: "nat option"
  fn_create :: "nat option"
  fn_destroy :: "nat option"
  fn_finalize :: "nat option"

definition plugin_new :: plugin where
  "plugin_new = \<lparr>handle = None, plugin_file = [], fn_init = None, fn_create = None, fn_destroy = None, fn_finalize = None\<rparr>"

definition dlclose :: "nat option \<Rightarrow> loader \<Rightarrow> loader" where
  "dlclose h l = (case h of None \<Rightarrow> l | Some h \<Rightarrow> l\<lparr>open_libs := (open_libs l)(h := None)\<rparr>)"

definition dlopen :: "library \<Rightarrow> loader \<Rightarrow> nat \<times> loader" where
  "dlopen lib l = (next_handle l, l\<lparr>open_libs := (open_libs l)(next_handle l \<mapsto> lib), next_handle := next_handle l + 1\<rparr>)"

text \<open>The four calls of \<open>dlsym\<close>: they stop at the first name that is missing.  A pointer is assigned before the error is
  checked, and is null then.\<close>

definition resolve :: "nat \<Rightarrow> library \<Rightarrow> plugin \<Rightarrow> bool \<times> plugin" where
  "resolve h lib p =
     (let sym = (\<lambda>n. if n \<in> set (exports lib) then Some h else None);
          p = p\<lparr>fn_init := sym ''init''\<rparr>
      in if sym ''init'' = None then (False, p)
         else let p = p\<lparr>fn_create := sym ''create_object''\<rparr>
              in if sym ''create_object'' = None then (False, p)
                 else let p = p\<lparr>fn_destroy := sym ''destroy_object''\<rparr>
                      in if sym ''destroy_object'' = None then (False, p)
                         else let p = p\<lparr>fn_finalize := sym ''finalize''\<rparr> in (sym ''finalize'' \<noteq> None, p))"

text \<open>\<open>load\<close>: whether it returns; otherwise it throws.  The files are a parameter.\<close>

definition plugin_load :: "(string \<Rightarrow> library option) \<Rightarrow> string \<Rightarrow> plugin \<times> loader \<Rightarrow> bool \<times> plugin \<times> loader" where
  "plugin_load files name st =
     (let (p, l) = st; p = p\<lparr>plugin_file := name\<rparr>; l = dlclose (handle p) l
      in case files (c_str name) of
           None \<Rightarrow> (False, p\<lparr>handle := None\<rparr>, l)
         | Some lib \<Rightarrow>
             (let (h, l) = dlopen lib l; (ok, p) = resolve h lib (p\<lparr>handle := Some h\<rparr>)
              in if ok then (True, p, l) else (False, p\<lparr>handle := None\<rparr>, dlclose (Some h) l)))"

definition callable :: "nat option \<Rightarrow> loader \<Rightarrow> library option" where
  "callable f l = (case f of None \<Rightarrow> None | Some h \<Rightarrow> open_libs l h)"

definition plugin_init :: "plugin \<Rightarrow> loader \<Rightarrow> unit option" where
  "plugin_init p l = map_option (\<lambda>_. ()) (callable (fn_init p) l)"

text \<open>The object, or the message of the exception.\<close>

definition plugin_create :: "string \<Rightarrow> plugin \<Rightarrow> loader \<Rightarrow> (string option + nat) option" where
  "plugin_create name p l = (case callable (fn_create p) l of
     None \<Rightarrow> None
   | Some lib \<Rightarrow> Some (case creates lib (c_str name) of
       Some obj \<Rightarrow> Inr obj
     | None \<Rightarrow>
         Inl (fmt_str (fmt_arg (fmt_arg (fmt_new (''Plugin '{0}' can't create object '{1}'' @ [CHR 0x27])) (plugin_file p)) name))))"

definition plugin_destroy_object :: "plugin \<Rightarrow> loader \<Rightarrow> unit option" where
  "plugin_destroy_object p l = map_option (\<lambda>_. ()) (callable (fn_destroy p) l)"

definition plugin_finalize :: "plugin \<Rightarrow> loader \<Rightarrow> unit option" where
  "plugin_finalize p l = map_option (\<lambda>_. ()) (callable (fn_finalize p) l)"

text \<open>The destructor of \<open>plugin\<close> finalizes, and that of its implementation closes the library.\<close>

definition plugin_delete :: "plugin \<Rightarrow> loader \<Rightarrow> loader option" where
  "plugin_delete p l = map_option (\<lambda>_. dlclose (handle p) l) (plugin_finalize p l)"

section \<open>Properties\<close>

text \<open>The library of a plugin is open, and handles are not used again.\<close>

definition plugin_ok :: "plugin \<Rightarrow> loader \<Rightarrow> bool" where
  "plugin_ok p l \<longleftrightarrow> (\<forall>h. handle p = Some h \<longrightarrow> open_libs l h \<noteq> None) \<and> (\<forall>h \<ge> next_handle l. open_libs l h = None)"

text \<open>Every open library but that of the plugin.\<close>

definition others :: "plugin \<Rightarrow> loader \<Rightarrow> nat \<Rightarrow> library option" where
  "others p l = (case handle p of None \<Rightarrow> open_libs l | Some h \<Rightarrow> (open_libs l)(h := None))"

lemma dlclose_own: "dlclose (handle p) l = l\<lparr>open_libs := others p l\<rparr>"
  by (simp add: dlclose_def others_def split: option.split)

lemma others_file [simp]: "others (p\<lparr>plugin_file := n\<rparr>) l = others p l"
  by (simp add: others_def)

lemma dlclose_Some: "dlclose (Some h) l = l\<lparr>open_libs := (open_libs l)(h := None)\<rparr>"
  by (simp add: dlclose_def)

lemma resolve_all:
  assumes "set [''init'', ''create_object'', ''destroy_object'', ''finalize''] \<subseteq> set (exports lib)"
  shows "resolve h lib p = (True, p\<lparr>fn_init := Some h, fn_create := Some h, fn_destroy := Some h, fn_finalize := Some h\<rparr>)"
  using assms by (simp add: resolve_def)

lemma resolve_some:
  assumes "\<not> set [''init'', ''create_object'', ''destroy_object'', ''finalize''] \<subseteq> set (exports lib)"
  shows "\<not> fst (resolve h lib p)"
  using assms by (auto simp: resolve_def Let_def)

text \<open>Loading a library that exports the four functions, in place of one that may be loaded: the old one is closed, the
  functions of the new one can be called, and deleting the plugin leaves no library open that was not open without it.\<close>

theorem plugin_loaded:
  assumes "plugin_ok p l" "files (c_str name) = Some lib"
    and "set [''init'', ''create_object'', ''destroy_object'', ''finalize''] \<subseteq> set (exports lib)"
  obtains p' l' where "plugin_load files name (p, l) = (True, p', l')" "plugin_ok p' l'" "others p' l' = others p l"
    "callable (fn_create p') l' = Some lib" "plugin_init p' l' = Some ()"
    "map_option open_libs (plugin_delete p' l') = Some (others p l)"
proof -
  let ?h = "next_handle l"
  let ?p = "p\<lparr>plugin_file := name, handle := Some ?h, fn_init := Some ?h, fn_create := Some ?h, fn_destroy := Some ?h, fn_finalize := Some ?h\<rparr>"
    and ?l = "l\<lparr>open_libs := (others p l)(?h \<mapsto> lib), next_handle := ?h + 1\<rparr>"
  have load: "plugin_load files name (p, l) = (True, ?p, ?l)"
    using assms(2) by (simp add: plugin_load_def dlclose_own dlopen_def resolve_all [OF assms(3)] Let_def)
  have fresh: "others p l h = None" if "?h \<le> h" for h using assms(1) that by (auto simp: plugin_ok_def others_def split: option.split)
  then have o: "(others p l)(?h := None) = others p l" by auto
  show thesis
  proof (rule that [OF load])
    show "plugin_ok ?p ?l" using fresh by (auto simp: plugin_ok_def)
    show "others ?p ?l = others p l" using o by (simp add: others_def)
    show "callable (fn_create ?p) ?l = Some lib" "plugin_init ?p ?l = Some ()" by (simp_all add: callable_def plugin_init_def)
    show "map_option open_libs (plugin_delete ?p ?l) = Some (others p l)"
      using o by (simp add: plugin_delete_def plugin_finalize_def callable_def dlclose_def)
  qed
qed

text \<open>A library that cannot be used is closed again.  But the plugin is not fit to be deleted then: its destructor calls
  \<open>finalize\<close> through a pointer that was never set.\<close>

theorem plugin_refused:
  assumes "files (c_str name) = Some lib" "\<not> set [''init'', ''create_object'', ''destroy_object'', ''finalize''] \<subseteq> set (exports lib)"
    and "plugin_ok p l"
  shows "\<not> fst (plugin_load files name (p, l))"
    "open_libs (snd (snd (plugin_load files name (p, l)))) = others p l" "handle (fst (snd (plugin_load files name (p, l)))) = None"
proof -
  have fresh: "others p l (next_handle l) = None" using assms(3) by (auto simp: plugin_ok_def others_def split: option.split)
  obtain q where q: "resolve (next_handle l) lib (p\<lparr>plugin_file := name, handle := Some (next_handle l)\<rparr>) = (False, q)"
    using resolve_some [OF assms(2)] by (metis (full_types) prod.collapse)
  have "(others p l)(next_handle l := None) = others p l" using fresh by auto
  then show "\<not> fst (plugin_load files name (p, l))"
    "open_libs (snd (snd (plugin_load files name (p, l)))) = others p l" "handle (fst (snd (plugin_load files name (p, l)))) = None"
    using assms(1) q by (simp_all add: plugin_load_def dlclose_own dlclose_Some dlopen_def)
qed

theorem unloaded_plugin_cannot_be_deleted: "plugin_delete plugin_new l = None"
  by (simp add: plugin_delete_def plugin_finalize_def plugin_new_def callable_def)

text \<open>After a failed attempt to load another library the pointers lead into a library that is closed.\<close>

theorem reload_leaves_dangling_functions:
  assumes "handle p = Some h" "fn_create p = Some h" "files (c_str name) = None"
  shows "\<exists>p' l'. plugin_load files name (p, l) = (False, p', l') \<and> plugin_create object p' l' = None"
  using assms by (simp add: plugin_load_def dlclose_def plugin_create_def callable_def)

end
