(* ===== verification/Windows.thy ===== *)
theory Windows
  imports Process Plugin
begin

text \<open>
  The implementations for Windows of processes (\<open>win32/process_impl.cpp\<close>) and plugins (\<open>win32/plugin_impl.cpp\<close>), and the
  installation of services (\<open>win32/daemon_application.cpp\<close>).  The program that is run, the libraries and the answers of the
  system are parameters, as in the theories for POSIX; the service manager is the set of its services, and the registry a
  map from keys to their values.
\<close>

subsection \<open>Processes\<close>

text \<open>The loop over the input stream: whole blocks, without regard to null characters.\<close>

function win_feed_input :: "string \<Rightarrow> string" where
  "win_feed_input s = take BUF_SIZE s @ (if length s < BUF_SIZE then [] else win_feed_input (drop BUF_SIZE s))"
  by pat_completeness auto
termination
  by (relation "measure length") (auto simp: BUF_SIZE_def)

declare win_feed_input.simps [simp del]

text \<open>The loops over the pipes; \<open>ReadFile\<close> returns what is there, at most a buffer, and nothing at the end.\<close>

function win_drain :: "string \<Rightarrow> string" where
  "win_drain s = (if s = [] then [] else take BUF_SIZE s @ win_drain (drop BUF_SIZE s))"
  by pat_completeness auto
termination
  by (relation "measure length") (auto simp: BUF_SIZE_def)

declare win_drain.simps [simp del]

text \<open>The answers of the system: the six calls that make the pipes, \<open>CreateProcess\<close>, how much a pipe holds, and whether the program
  has ended when the exit code is asked for.\<close>

record win_system =
  pipe_call :: "nat \<Rightarrow> bool"
  create_process :: bool
  pipe_size :: nat
  ended_soon :: bool

definition STILL_ACTIVE :: int where
  "STILL_ACTIVE = 259"

datatype win_outcome = Win_Exception string | Win_Undefined | Win_Hangs | Win_Exited string string int

text \<open>A program gets the command line as one string.  It cannot end while its output does not fit into a pipe that nobody reads.\<close>

definition pipe_error :: "nat \<Rightarrow> string" where
  "pipe_error i = (if even i then ''CreatePipe failed'' else ''SetHandleInformation failed'')"

definition win_command_line :: "string \<Rightarrow> string \<Rightarrow> string" where
  "win_command_line path args = c_str (if args \<noteq> [] then path @ '' '' @ args else path)"

definition win_execute ::
  "win_system \<Rightarrow> (string \<Rightarrow> string \<Rightarrow> string \<times> string \<times> int) \<Rightarrow> string \<Rightarrow> string \<Rightarrow> string option \<Rightarrow> win_outcome" where
  "win_execute sys prog path args input =
     (case filter (\<lambda>i. \<not> pipe_call sys i) [0..<6] of
        i # _ \<Rightarrow> Win_Exception (pipe_error i)
      | [] \<Rightarrow>
          if \<not> create_process sys then Win_Exception ''CreateProcess failed''
          else case input of
                 None \<Rightarrow> Win_Undefined
               | Some s \<Rightarrow>
                   (let (out, err, code) = prog (win_command_line path args) (win_feed_input s);
                        ended = (ended_soon sys \<and> length out \<le> pipe_size sys \<and> length err \<le> pipe_size sys);
                        rslt = (if ended then code else STILL_ACTIVE)
                    in if length err > pipe_size sys then Win_Hangs
                       else Win_Exited (win_drain out) (win_drain err) rslt))"

subsection \<open>Plugins\<close>

text \<open>\<open>load\<close>: the library that was loaded before is not freed, nor one that lacks a function.\<close>

definition win_plugin_load :: "(string \<Rightarrow> library option) \<Rightarrow> string \<Rightarrow> plugin \<times> loader \<Rightarrow> bool \<times> plugin \<times> loader" where
  "win_plugin_load files name st =
     (let (p, l) = st; p = p\<lparr>plugin_file := name\<rparr>
      in case files (c_str name) of
           None \<Rightarrow> (False, p\<lparr>handle := None\<rparr>, l)
         | Some lib \<Rightarrow> (let (h, l) = dlopen lib l; (ok, p) = resolve h lib (p\<lparr>handle := Some h\<rparr>) in (ok, p, l)))"

subsection \<open>Services\<close>

datatype reg_value = Expand_Sz string | Dword "32 word"

record windows =
  services :: "string set"
  registry :: "string \<Rightarrow> (string \<Rightarrow> reg_value option) option"
  service_open :: "string option"

text \<open>What the system refuses: creating the service, the registry key, and each of the values.\<close>

record win_answers =
  may_create :: bool
  may_open_key :: bool
  may_write :: "string \<Rightarrow> bool"
  may_delete :: bool

definition event_key :: "string \<Rightarrow> string" where
  "event_key name = ''SYSTEM'' @ [CHR 0x5C] @ ''CurrentControlSet'' @ [CHR 0x5C] @ ''Services'' @ [CHR 0x5C] @ ''EventLog'' @ [CHR 0x5C] @
     ''Application'' @ [CHR 0x5C] @ name"

definition event_values :: "string \<Rightarrow> (string \<times> reg_value) list" where
  "event_values dll =
     [(''EventMessageFile'', Expand_Sz dll), (''TypesSupported'', Dword 7), (''CategoryMessageFile'', Expand_Sz dll), (''CategoryCount'', Dword 1)]"

text \<open>The calls of \<open>RegSetValueEx\<close>, up to the first that fails.\<close>

fun set_values :: "(string \<Rightarrow> bool) \<Rightarrow> (string \<times> reg_value) list \<Rightarrow> (string \<Rightarrow> reg_value option) \<Rightarrow> bool \<times> (string \<Rightarrow> reg_value option)" where
  "set_values ok [] vs = (True, vs)"
| "set_values ok ((n, v) # rest) vs = (if ok n then set_values ok rest (vs(n \<mapsto> v)) else (False, vs))"

definition open_key :: "string \<Rightarrow> windows \<Rightarrow> string \<Rightarrow> reg_value option" where
  "open_key k w = (case registry w k of None \<Rightarrow> (\<lambda>_. None) | Some vs \<Rightarrow> vs)"

text \<open>\<open>on_install_service\<close>: the message of the exception, or false, so that the application is not executed.\<close>

definition on_install_service :: "win_answers \<Rightarrow> string \<Rightarrow> string \<Rightarrow> windows \<Rightarrow> (string + bool) \<times> windows" where
  "on_install_service a dll name w =
     (if name \<in> services w \<or> \<not> may_create a then (Inl ''can't create Windows service'', w\<lparr>service_open := None\<rparr>)
      else let w = w\<lparr>services := insert name (services w), service_open := Some name\<rparr>
           in if \<not> may_open_key a then (Inl ''can't create a Windows registry key'', w)
              else let (ok, vs) = set_values (may_write a) (event_values dll) (open_key (event_key name) w);
                       w = w\<lparr>registry := (registry w)(event_key name \<mapsto> vs)\<rparr>
                   in if ok then (Inr False, w) else (Inl ''can't write a value into the Windows registry key'', w))"

definition on_uninstall_service :: "win_answers \<Rightarrow> string \<Rightarrow> windows \<Rightarrow> (string + bool) \<times> windows" where
  "on_uninstall_service a name w =
     (let w = (if service_open w = None \<and> name \<in> services w then w\<lparr>service_open := Some name\<rparr> else w)
      in case service_open w of
           None \<Rightarrow> (Inl ''can't open Windows service'', w)
         | Some s \<Rightarrow>
             if may_delete a \<and> s \<in> services w
             then (Inr False, w\<lparr>services := services w - {s}, registry := (registry w)(event_key name := None)\<rparr>)
             else (Inl ''can't delete Windows service'', w))"

section \<open>Properties\<close>

lemma win_feed_input_id: "win_feed_input s = s"
  by (induction s rule: win_feed_input.induct) (subst win_feed_input.simps, simp)

lemma win_drain_id: "win_drain s = s"
  by (induction s rule: win_drain.induct) (subst win_drain.simps, simp)

text \<open>A program gets the whole input, null characters included, and its outputs come back complete; \<open>execute\<close> returns exactly when
  the error output fits into a pipe, however long the standard output is.\<close>

theorem win_process_streams:
  assumes "\<forall>i < 6. pipe_call sys i" "create_process sys" "prog (win_command_line path args) s = (out, err, code)"
  shows "win_execute sys prog path args (Some s) =
    (if length err \<le> pipe_size sys
     then Win_Exited out err (if ended_soon sys \<and> length out \<le> pipe_size sys then code else STILL_ACTIVE) else Win_Hangs)"
proof -
  have "filter (\<lambda>i. \<not> pipe_call sys i) [0..<6] = []" using assms(1) by (simp add: filter_empty_conv)
  then show ?thesis using assms(2,3) by (simp add: win_execute_def win_feed_input_id win_drain_id)
qed

text \<open>The exit code of a program with much output is never returned: the caller gets 259.\<close>

theorem win_exit_code_lost:
  assumes "\<forall>i < 6. pipe_call sys i" "create_process sys" "prog (win_command_line path args) s = (out, err, code)"
    and "pipe_size sys < length out" "length err \<le> pipe_size sys"
  shows "win_execute sys prog path args (Some s) = Win_Exited out err 259"
  using win_process_streams [of sys prog path args s, OF assms(1-3)] assms(4,5) by (simp add: STILL_ACTIVE_def)

text \<open>A process without streams is not usable.\<close>

theorem win_process_without_streams:
  assumes "\<forall>i < 6. pipe_call sys i" "create_process sys"
  shows "win_execute sys prog path args None = Win_Undefined"
proof -
  have "filter (\<lambda>i. \<not> pipe_call sys i) [0..<6] = []" using assms(1) by (simp add: filter_empty_conv)
  then show ?thesis using assms(2) by (simp add: win_execute_def)
qed

text \<open>A plugin that is loaded again keeps its first library open for ever: deleting it closes only the second.\<close>

theorem win_reload_leaks:
  assumes "plugin_ok p l" "handle p = Some h" "open_libs l h = Some old" "files (c_str name) = Some lib"
    and "set [''init'', ''create_object'', ''destroy_object'', ''finalize''] \<subseteq> set (exports lib)"
  obtains p' l' l'' where "win_plugin_load files name (p, l) = (True, p', l')" "callable (fn_create p') l' = Some lib"
    "plugin_delete p' l' = Some l''" "open_libs l'' h = Some old"
proof -
  let ?h = "next_handle l"
  let ?p = "p\<lparr>plugin_file := name, handle := Some ?h, fn_init := Some ?h, fn_create := Some ?h, fn_destroy := Some ?h, fn_finalize := Some ?h\<rparr>"
    and ?l = "l\<lparr>open_libs := (open_libs l)(?h \<mapsto> lib), next_handle := ?h + 1\<rparr>"
  have "win_plugin_load files name (p, l) = (True, ?p, ?l)"
    using assms(4) by (simp add: win_plugin_load_def dlopen_def resolve_all [OF assms(5)])
  moreover have "h \<noteq> ?h" using assms(1,3) by (force simp: plugin_ok_def)
  ultimately show thesis
    using assms(3) by (intro that [of ?p ?l "dlclose (Some ?h) ?l"]) (simp_all add: callable_def plugin_delete_def plugin_finalize_def dlclose_def)
qed

text \<open>In return its functions can always be called, also after an attempt to load another library has failed.\<close>

theorem win_failed_reload_keeps_functions:
  assumes "fn_create p = Some h" "open_libs l h = Some lib" "files (c_str name) = None"
  shows "\<exists>p' l'. win_plugin_load files name (p, l) = (False, p', l') \<and> callable (fn_create p') l' = Some lib \<and> handle p' = None"
  using assms by (simp add: win_plugin_load_def callable_def)

lemma set_values_all: "list_all (\<lambda>(n, v). ok n) vals \<Longrightarrow> set_values ok vals vs = (True, vs ++ map_of (rev vals))"
  by (induction vals arbitrary: vs) (auto simp: map_add_def fun_eq_iff split: option.split)

text \<open>Installing a service whose name is free and uninstalling it again, in the same run or in a later one, gives the services and
  the registry back as they were; in between the event log finds the messages of the service.\<close>

theorem service_installed_and_removed:
  assumes "name \<notin> services w" "registry w (event_key name) = None" "may_create a" "may_open_key a" "\<forall>n. may_write a n" "may_delete b"
  obtains w1 w2 where "on_install_service a dll name w = (Inr False, w1)" "services w1 = insert name (services w)"
    "map_option (\<lambda>vs. vs ''EventMessageFile'') (registry w1 (event_key name)) = Some (Some (Expand_Sz dll))"
    "on_uninstall_service b name w1 = (Inr False, w2)" "services w2 = services w" "registry w2 = registry w"
    "snd (on_uninstall_service b name (w1\<lparr>service_open := None\<rparr>)) = w2"
proof -
  let ?vs = "Map.empty ++ map_of (rev (event_values dll))"
  let ?w1 = "w\<lparr>services := insert name (services w), service_open := Some name, registry := (registry w)(event_key name \<mapsto> ?vs)\<rparr>"
  let ?w2 = "?w1\<lparr>services := services w, registry := registry w\<rparr>"
  have r: "(registry w)(event_key name := None) = registry w" using assms(2) by auto
  have "set_values (may_write a) (event_values dll) (\<lambda>_. None) = (True, ?vs)" using assms(5) by (intro set_values_all) (simp add: event_values_def)
  then have "on_install_service a dll name w = (Inr False, ?w1)"
    using assms by (simp add: on_install_service_def open_key_def del: map_add_empty)
  moreover have "on_uninstall_service b name ?w1 = (Inr False, ?w2)" "snd (on_uninstall_service b name (?w1\<lparr>service_open := None\<rparr>)) = ?w2"
    using assms(1,6) r by (simp_all add: on_uninstall_service_def)
  ultimately show thesis by (intro that [of ?w1 ?w2]) (simp_all add: event_values_def)
qed

text \<open>An installation that fails at the registry leaves the service installed, so that it cannot be repeated.\<close>

theorem failed_installation_stays:
  assumes "name \<notin> services w" "may_create a" "\<not> may_open_key a \<or> \<not> may_write a ''EventMessageFile''"
  shows "\<exists>e w'. on_install_service a dll name w = (Inl e, w') \<and> name \<in> services w' \<and>
    fst (on_install_service a2 dll name w') = Inl ''can't create Windows service''"
  using assms by (auto simp: on_install_service_def event_values_def Let_def)

end
