(* ===== verification/Events.thy ===== *)
theory Events
  imports Locks
begin

text \<open>
  \<open>event.h\<close>, \<open>semaphore.h\<close>, \<open>thread.h\<close> and the rest of \<open>rwlock.h\<close> with their implementations, and the worker threads of the
  TCP server as the client of an event.  The objects of the systems are modelled by their documentation: a condition
  variable of pthread, which releases its mutex and waits in one step and may wake up for no reason, and an event of Windows
  that resets itself, of which \<open>PulseEvent\<close> releases at most one thread and for which \<open>SignalObjectAndWait\<close> is two steps.
\<close>

subsection \<open>Events\<close>

text \<open>An implementation: whether waiting begins in the step that releases the mutex, which of the waiting threads \<open>raise\<close>
  may release, and whether a thread may be released without it.\<close>

record event_impl =
  waits_at_once :: bool
  raise :: "nat set \<Rightarrow> nat set \<Rightarrow> bool"
  spurious :: bool

definition posix_event :: event_impl where
  "posix_event = \<lparr>waits_at_once = True, raise = \<lambda>waiting released. released = waiting, spurious = True\<rparr>"

definition win_event :: event_impl where
  "win_event = \<lparr>waits_at_once = False,
     raise = \<lambda>waiting released. if waiting = {} then released = {} else \<exists>t \<in> waiting. released = {t},
     spurious = False\<rparr>"

subsection \<open>The worker threads\<close>

text \<open>A worker is before its test of the queue, has released the mutex, waits for the event, has a request, or has ended.\<close>

datatype worker = At_Test | Released | Waiting | Has nat | Ended

record server =
  stop_flag :: bool
  stop_raised :: bool
  io_ended :: bool
  queue :: "nat list"
  worker_at :: "nat \<Rightarrow> worker"

definition server_init :: server where
  "server_init = \<lparr>stop_flag = False, stop_raised = False, io_ended = False, queue = [], worker_at = \<lambda>_. At_Test\<rparr>"

definition waiting_set :: "nat \<Rightarrow> server \<Rightarrow> nat set" where
  "waiting_set n s = {w. w < n \<and> worker_at s w = Waiting}"

definition release :: "nat set \<Rightarrow> server \<Rightarrow> server" where
  "release W s = s\<lparr>worker_at := \<lambda>w. if w \<in> W then At_Test else worker_at s w\<rparr>"

definition worker_to :: "nat \<Rightarrow> worker \<Rightarrow> server \<Rightarrow> server" where
  "worker_to w p s = s\<lparr>worker_at := (worker_at s)(w := p)\<rparr>"

text \<open>\<open>stop\<close> sets the flag and raises the event in two steps; the input and output thread queues requests until it sees the
  flag.\<close>

inductive server_step :: "event_impl \<Rightarrow> nat \<Rightarrow> server \<Rightarrow> server \<Rightarrow> bool" for E n where
  enqueue: "\<not> io_ended s \<Longrightarrow> raise E (waiting_set n s) W \<Longrightarrow> server_step E n s (release W (s\<lparr>queue := queue s @ [r]\<rparr>))"
| io_end: "stop_flag s \<Longrightarrow> \<not> io_ended s \<Longrightarrow> server_step E n s (s\<lparr>io_ended := True\<rparr>)"
| set_flag: "\<not> stop_flag s \<Longrightarrow> server_step E n s (s\<lparr>stop_flag := True\<rparr>)"
| stop_raise: "stop_flag s \<Longrightarrow> \<not> stop_raised s \<Longrightarrow> raise E (waiting_set n s) W \<Longrightarrow>
    server_step E n s (release W (s\<lparr>stop_raised := True\<rparr>))"
| wait: "w < n \<Longrightarrow> worker_at s w = At_Test \<Longrightarrow> queue s = [] \<Longrightarrow> \<not> stop_flag s \<Longrightarrow>
    server_step E n s (worker_to w (if waits_at_once E then Waiting else Released) s)"
| begin_waiting: "w < n \<Longrightarrow> worker_at s w = Released \<Longrightarrow> server_step E n s (worker_to w Waiting s)"
| wake_up: "w < n \<Longrightarrow> worker_at s w = Waiting \<Longrightarrow> spurious E \<Longrightarrow> server_step E n s (worker_to w At_Test s)"
| take_request: "w < n \<Longrightarrow> worker_at s w = At_Test \<Longrightarrow> queue s = r # q \<Longrightarrow> \<not> stop_flag s \<Longrightarrow>
    server_step E n s (worker_to w (Has r) (s\<lparr>queue := q\<rparr>))"
| finish: "w < n \<Longrightarrow> worker_at s w = Has r \<Longrightarrow> server_step E n s (worker_to w At_Test s)"
| leave: "w < n \<Longrightarrow> worker_at s w = At_Test \<Longrightarrow> stop_flag s \<Longrightarrow> server_step E n s (worker_to w Ended s)"

inductive_cases server_stepE: "server_step E n s s'"

subsection \<open>Semaphores\<close>

text \<open>The count of a semaphore; both systems refuse to count beyond the maximum of \<open>int\<close>, and the code ignores it.\<close>

definition MAX_SEM_COUNT :: nat where
  "MAX_SEM_COUNT = 2147483647"

text \<open>The loop around \<open>sem_wait\<close>, which a signal may interrupt; \<^const>\<open>None\<close> while the thread waits.\<close>

fun posix_sem_lock :: "bool list \<Rightarrow> nat \<Rightarrow> nat option" where
  "posix_sem_lock (True # interrupted) c = posix_sem_lock interrupted c"
| "posix_sem_lock _ c = (if c = 0 then None else Some (c - 1))"

definition posix_sem_trylock :: "nat \<Rightarrow> bool \<times> nat" where
  "posix_sem_trylock c = (if c = 0 then (False, c) else (True, c - 1))"

definition posix_sem_unlock :: "nat \<Rightarrow> nat" where
  "posix_sem_unlock c = (if c < MAX_SEM_COUNT then c + 1 else c)"

definition win_sem_lock :: "nat \<Rightarrow> nat option" where
  "win_sem_lock c = (if c = 0 then None else Some (c - 1))"

definition win_sem_trylock :: "nat \<Rightarrow> bool \<times> nat" where
  "win_sem_trylock c = (if c = 0 then (False, c) else (True, c - 1))"

definition win_sem_unlock :: "nat \<Rightarrow> nat" where
  "win_sem_unlock c = (if c + 1 \<le> MAX_SEM_COUNT then c + 1 else c)"

subsection \<open>The lock for readers and writers of pthread\<close>

record 't prwlock =
  readers :: "'t list"
  writer :: "'t option"

datatype rw_code = Rw_0 | Rw_EAGAIN | Rw_EBUSY | Rw_EDEADLK | Rw_EINVAL | Rw_EPERM

datatype ('s, 'r) rw_call = Rw_Waits | Rw_Throws string | Rw_Returns 'r 's

fun enter_code :: "rw_code \<Rightarrow> 's \<Rightarrow> ('s, unit) rw_call" where
  "enter_code Rw_EDEADLK s = Rw_Throws ''the rwlock is already locked by the calling thread''"
| "enter_code Rw_EINVAL s = Rw_Throws ''the rwlock has not been properly initialized''"
| "enter_code _ s = Rw_Returns () s"

fun try_code :: "rw_code \<Rightarrow> 's \<Rightarrow> ('s, bool) rw_call" where
  "try_code Rw_EBUSY s = Rw_Returns True s"
| "try_code Rw_EINVAL s = Rw_Throws ''the rwlock has not been properly initialized''"
| "try_code _ s = Rw_Returns False s"

fun leave_code :: "rw_code \<Rightarrow> 's \<Rightarrow> ('s, unit) rw_call" where
  "leave_code Rw_EPERM s = Rw_Throws ''the calling thread does not own the rwlock''"
| "leave_code Rw_EINVAL s = Rw_Throws ''the rwlock has not been properly initialized''"
| "leave_code _ s = Rw_Returns () s"

text \<open>The system: it has a maximal number of read locks, and detects a thread that waits for itself.\<close>

definition pthread_rwlock_tryrdlock :: "nat \<Rightarrow> 't \<Rightarrow> 't prwlock \<Rightarrow> rw_code \<times> 't prwlock" where
  "pthread_rwlock_tryrdlock k t s =
     (if writer s \<noteq> None then (Rw_EBUSY, s)
      else if k \<le> length (readers s) then (Rw_EAGAIN, s)
      else (Rw_0, s\<lparr>readers := t # readers s\<rparr>))"

definition pthread_rwlock_trywrlock :: "'t \<Rightarrow> 't prwlock \<Rightarrow> rw_code \<times> 't prwlock" where
  "pthread_rwlock_trywrlock t s =
     (if writer s \<noteq> None \<or> readers s \<noteq> [] then (Rw_EBUSY, s) else (Rw_0, s\<lparr>writer := Some t\<rparr>))"

definition pthread_rwlock_unlock :: "'t \<Rightarrow> 't prwlock \<Rightarrow> rw_code \<times> 't prwlock" where
  "pthread_rwlock_unlock t s =
     (if writer s = Some t then (Rw_0, s\<lparr>writer := None\<rparr>)
      else if t \<in> set (readers s) then (Rw_0, s\<lparr>readers := remove1 t (readers s)\<rparr>)
      else (Rw_EPERM, s))"

definition posix_enter_read :: "nat \<Rightarrow> 't \<Rightarrow> 't prwlock \<Rightarrow> ('t prwlock, unit) rw_call" where
  "posix_enter_read k t s =
     (if writer s = Some t then enter_code Rw_EDEADLK s
      else let (c, s) = pthread_rwlock_tryrdlock k t s in if c = Rw_EBUSY then Rw_Waits else enter_code c s)"

definition posix_try_enter_read :: "nat \<Rightarrow> 't \<Rightarrow> 't prwlock \<Rightarrow> ('t prwlock, bool) rw_call" where
  "posix_try_enter_read k t s = (let (c, s) = pthread_rwlock_tryrdlock k t s in try_code c s)"

definition posix_enter_write :: "'t \<Rightarrow> 't prwlock \<Rightarrow> ('t prwlock, unit) rw_call" where
  "posix_enter_write t s =
     (if writer s = Some t then enter_code Rw_EDEADLK s
      else let (c, s) = pthread_rwlock_trywrlock t s in if c = Rw_EBUSY then Rw_Waits else enter_code c s)"

definition posix_try_enter_write :: "'t \<Rightarrow> 't prwlock \<Rightarrow> ('t prwlock, bool) rw_call" where
  "posix_try_enter_write t s = (let (c, s) = pthread_rwlock_trywrlock t s in try_code c s)"

definition posix_leave_rw :: "'t \<Rightarrow> 't prwlock \<Rightarrow> ('t prwlock, unit) rw_call" where
  "posix_leave_rw t s = (let (c, s) = pthread_rwlock_unlock t s in leave_code c s)"

subsection \<open>Threads\<close>

text \<open>The class and its implementation both keep the handler; on Windows the implementation has a handle of the system.\<close>

record 'h thread =
  thread_handler :: "'h option"
  impl_handler :: "'h option"
  thread_handle :: "nat option"

definition thread_new :: "'h thread" where
  "thread_new = \<lparr>thread_handler = None, impl_handler = None, thread_handle = None\<rparr>"

definition thread_on_execute :: "'h option \<Rightarrow> 'h thread \<Rightarrow> 'h thread" where
  "thread_on_execute h t = t\<lparr>thread_handler := h, impl_handler := h\<rparr>"

definition thread_copy :: "'h thread \<Rightarrow> 'h thread" where
  "thread_copy src = thread_new\<lparr>thread_handler := thread_handler src, impl_handler := thread_handler src\<rparr>"

definition thread_assign :: "'h thread \<Rightarrow> 'h thread \<Rightarrow> 'h thread" where
  "thread_assign src t = thread_on_execute (thread_handler src) t"

text \<open>\<open>start\<close>: the result of \<open>pthread_create\<close>, and on Windows the new handle, if there is one, and the open handles.\<close>

datatype create_code = Created | Create_EAGAIN | Create_EINVAL | Create_EPERM | Create_Other

fun posix_start :: "create_code \<Rightarrow> string + unit" where
  "posix_start Created = Inr ()"
| "posix_start Create_EAGAIN = Inl (''The system lacked the necessary resources to create another thread, or the system-imposed'' @
     '' limit on the total number of threads in a process would be exceeded'')"
| "posix_start Create_EINVAL = Inl ''Can't create detached thread''"
| "posix_start Create_EPERM = Inl (''The caller does not have appropriate permission to set the required scheduling parameters'' @
     '' or scheduling policy'')"
| "posix_start Create_Other = Inl ''pthread_create() fails by unknown error''"

definition win_start :: "nat option \<Rightarrow> 'h thread \<times> nat set \<Rightarrow> (string + 'h option) \<times> 'h thread \<times> nat set" where
  "win_start created st =
     (let (t, open_handles) = st; t = t\<lparr>thread_handle := created\<rparr>
      in case created of
           None \<Rightarrow> (Inl (''The system lacked the necessary resources to create another thread, or the system-imposed'' @
             '' limit on the total number of threads in a process would be exceeded''), t, open_handles)
         | Some x \<Rightarrow> (Inr (impl_handler t), t, insert x open_handles))"

definition win_thread_delete :: "'h thread \<times> nat set \<Rightarrow> nat set" where
  "win_thread_delete st = (let (t, open_handles) = st in case thread_handle t of None \<Rightarrow> open_handles | Some x \<Rightarrow> open_handles - {x})"

subsection \<open>Properties of events\<close>

text \<open>The contract of an event, as \<open>event.h\<close> has it: the mutex is released and the waiting begins atomically, and all
  waiting threads are restarted.\<close>

locale condition =
  fixes E :: event_impl
  assumes atomic: "waits_at_once E"
    and wakes_all: "raise E W R \<Longrightarrow> R = W"
    and can_raise: "\<exists>R. raise E W R"
begin

text \<open>No worker waits while there is a request, or after \<open>stop\<close> has raised the event.\<close>

definition no_lost_event :: "nat \<Rightarrow> server \<Rightarrow> bool" where
  "no_lost_event n s \<longleftrightarrow> (\<forall>w < n. worker_at s w \<noteq> Released \<and> (worker_at s w = Waiting \<longrightarrow> queue s = [] \<and> \<not> stop_raised s)) \<and>
     (stop_raised s \<longrightarrow> stop_flag s)"

lemma step_no_lost_event:
  assumes "server_step E n s s'" "no_lost_event n s"
  shows "no_lost_event n s'"
  using assms atomic
  by (cases rule: server_step.cases) (auto simp: no_lost_event_def release_def worker_to_def waiting_set_def dest!: wakes_all)

lemma reachable_no_lost_event: "(server_step E n)\<^sup>*\<^sup>* server_init s \<Longrightarrow> no_lost_event n s"
proof (induction rule: rtranclp_induct)
  case base
  then show ?case by (simp add: no_lost_event_def server_init_def)
next
  case (step y z)
  then show ?case using step_no_lost_event by blast
qed

text \<open>How far the workers are from their end.\<close>

definition distance :: "nat \<Rightarrow> server \<Rightarrow> nat" where
  "distance n s = (\<Sum>w < n. case worker_at s w of Ended \<Rightarrow> 0 | Has _ \<Rightarrow> 2 | _ \<Rightarrow> 1)"

lemma distance_worker_to:
  assumes "w < n"
  shows "distance n (worker_to w p s) + (case worker_at s w of Ended \<Rightarrow> 0 | Has _ \<Rightarrow> 2 | _ \<Rightarrow> 1) =
    distance n s + (case p of Ended \<Rightarrow> 0 | Has _ \<Rightarrow> 2 | _ \<Rightarrow> 1)"
  using assms by (simp add: distance_def worker_to_def sum.remove [of "{..<n}" w])

lemma stopping_worker_moves:
  assumes "no_lost_event n s" "stop_raised s" "w < n" "worker_at s w \<noteq> Ended"
  shows "\<exists>s'. server_step E n s s' \<and> stop_raised s' \<and> distance n s' < distance n s"
proof (cases "worker_at s w")
  case At_Test
  then have "server_step E n s (worker_to w Ended s)" using assms by (auto simp: no_lost_event_def intro: leave)
  then show ?thesis using At_Test assms(2) distance_worker_to [OF assms(3), of Ended s] by (auto simp: worker_to_def)
next
  case (Has r)
  then have "server_step E n s (worker_to w At_Test s)" using assms(3) by (auto intro: finish)
  then show ?thesis using Has assms(2) distance_worker_to [OF assms(3), of At_Test s] by (auto simp: worker_to_def)
qed (use assms in \<open>auto simp: no_lost_event_def\<close>)

lemma stopping_ends:
  "no_lost_event n s \<Longrightarrow> stop_raised s \<Longrightarrow> \<exists>s'. (server_step E n)\<^sup>*\<^sup>* s s' \<and> (\<forall>w < n. worker_at s' w = Ended)"
proof (induction "distance n s" arbitrary: s rule: less_induct)
  case less
  show ?case
  proof (cases "\<exists>w < n. worker_at s w \<noteq> Ended")
    case True
    then obtain s1 where s1: "server_step E n s s1" "stop_raised s1" "distance n s1 < distance n s"
      using stopping_worker_moves [OF less.prems] by blast
    from less.hyps [OF s1(3) step_no_lost_event [OF s1(1) less.prems(1)] s1(2)] show ?thesis
      using s1(1) by (meson converse_rtranclp_into_rtranclp)
  qed blast
qed

lemma raised_stays: "server_step E n s s' \<Longrightarrow> stop_raised s \<Longrightarrow> stop_raised s'"
  by (cases rule: server_step.cases) (auto simp: release_def worker_to_def)

end

interpretation posix: condition posix_event
  by unfold_locales (auto simp: posix_event_def)

text \<open>C11: On POSIX, in every interleaving of \<open>stop\<close>, the input and output thread and any number of workers of the TCP server, no
  worker waits while there is a request in the queue, and none waits after \<open>stop\<close> has raised the event: from then on all
  threads can come to their end, so that \<open>stop\<close> returns.\<close>

theorem posix_stop_returns:
  assumes "(server_step posix_event n)\<^sup>*\<^sup>* server_init s"
  shows "(queue s \<noteq> [] \<or> stop_raised s \<longrightarrow> (\<forall>w < n. worker_at s w \<noteq> Waiting)) \<and>
    (stop_raised s \<longrightarrow> (\<exists>s'. (server_step posix_event n)\<^sup>*\<^sup>* s s' \<and> io_ended s' \<and> (\<forall>w < n. worker_at s' w = Ended)))"
proof -
  have i: "posix.no_lost_event n s" by (rule posix.reachable_no_lost_event [OF assms])
  have "\<exists>s'. (server_step posix_event n)\<^sup>*\<^sup>* s s' \<and> io_ended s' \<and> (\<forall>w < n. worker_at s' w = Ended)" if r: "stop_raised s"
  proof -
    from posix.stopping_ends [OF i r] obtain s1 where s1: "(server_step posix_event n)\<^sup>*\<^sup>* s s1" "\<forall>w < n. worker_at s1 w = Ended" by blast
    from s1(1) r have "stop_raised s1" by (induction rule: rtranclp_induct) (auto intro: posix.raised_stays)
    moreover have "posix.no_lost_event n s1" using posix.reachable_no_lost_event assms s1(1) by (meson rtranclp_trans)
    ultimately have f: "stop_flag s1" by (simp add: posix.no_lost_event_def)
    show ?thesis
    proof (cases "io_ended s1")
      case False
      then have "server_step posix_event n s1 (s1\<lparr>io_ended := True\<rparr>)" using f by (rule_tac io_end)
      then show ?thesis using s1 by (intro exI [of _ "s1\<lparr>io_ended := True\<rparr>"]) auto
    qed (use s1 in blast)
  qed
  then show ?thesis using i by (auto simp: posix.no_lost_event_def)
qed

text \<open>A run in which two workers wait when the server is stopped.\<close>

lemma both_wait: "(server_step E 2)\<^sup>*\<^sup>* server_init (server_init\<lparr>stop_flag := True, worker_at := (\<lambda>_. At_Test)(0 := Waiting, 1 := Waiting)\<rparr>)"
proof -
  have park: "(server_step E 2)\<^sup>*\<^sup>* s (worker_to w Waiting s)"
    if "w < 2" "worker_at s w = At_Test" "queue s = []" "\<not> stop_flag s" for s w
  proof (cases "waits_at_once E")
    case True
    then show ?thesis using wait [where E = E, of w 2 s] that by auto
  next
    case False
    then have "server_step E 2 s (worker_to w Released s)" using wait [where E = E, of w 2 s] that by auto
    moreover have "server_step E 2 (worker_to w Released s) (worker_to w Waiting s)"
      using begin_waiting [where E = E, of w 2 "worker_to w Released s"] that by (simp add: worker_to_def)
    ultimately show ?thesis by (meson r_into_rtranclp rtranclp_trans)
  qed
  let ?s = "worker_to 1 Waiting (worker_to 0 Waiting server_init)"
  have "(server_step E 2)\<^sup>*\<^sup>* server_init (worker_to 0 Waiting server_init)" by (rule park) (simp_all add: server_init_def)
  also have "(server_step E 2)\<^sup>*\<^sup>* (worker_to 0 Waiting server_init) ?s" by (rule park) (simp_all add: server_init_def worker_to_def)
  also have "server_step E 2 ?s (?s\<lparr>stop_flag := True\<rparr>)" by (rule set_flag) (simp add: server_init_def worker_to_def)
  also have "?s\<lparr>stop_flag := True\<rparr> = server_init\<lparr>stop_flag := True, worker_at := (\<lambda>_. At_Test)(0 := Waiting, 1 := Waiting)\<rparr>"
    by (simp add: server_init_def worker_to_def)
  finally show ?thesis .
qed

lemma two_waiting: "waiting_set 2 (server_init\<lparr>stop_flag := True, worker_at := (\<lambda>_. At_Test)(0 := Waiting, 1 := Waiting)\<rparr>) = {0, 1}"
  by (auto simp: waiting_set_def less_2_cases_iff)

theorem posix_stop_returns_witness:
  "\<exists>s. (server_step posix_event 2)\<^sup>*\<^sup>* server_init s \<and> stop_raised s \<and>
     (\<exists>s'. (server_step posix_event 2)\<^sup>*\<^sup>* s s' \<and> io_ended s' \<and> (\<forall>w < 2. worker_at s' w = Ended))"
proof -
  let ?s = "server_init\<lparr>stop_flag := True, worker_at := (\<lambda>_. At_Test)(0 := Waiting, 1 := Waiting)\<rparr>"
  let ?t = "release {0, 1} (?s\<lparr>stop_raised := True\<rparr>)"
  have "server_step posix_event 2 ?s ?t"
    by (rule stop_raise) (simp_all only: two_waiting, simp_all add: posix_event_def server_init_def)
  then have "(server_step posix_event 2)\<^sup>*\<^sup>* server_init ?t" by (rule rtranclp.rtrancl_into_rtrancl [OF both_wait])
  moreover have "stop_raised ?t" by (simp add: release_def)
  ultimately show ?thesis using posix_stop_returns by blast
qed

text \<open>On Windows a server with two waiting workers that is stopped can come into a state in which nothing happens any more: one
  worker still waits, and \<open>stop\<close> waits for it.\<close>

theorem win_stop_hangs:
  "\<exists>s. (server_step win_event 2)\<^sup>*\<^sup>* server_init s \<and> stop_raised s \<and> io_ended s \<and> worker_at s 1 = Waiting \<and>
     (\<forall>s'. \<not> server_step win_event 2 s s')"
proof -
  let ?s = "server_init\<lparr>stop_flag := True, worker_at := (\<lambda>_. At_Test)(0 := Waiting, 1 := Waiting)\<rparr>"
  let ?t = "release {0} (?s\<lparr>stop_raised := True\<rparr>)"
  let ?u = "worker_to 0 Ended (?t\<lparr>io_ended := True\<rparr>)"
  have "server_step win_event 2 ?s ?t"
    by (rule stop_raise) (simp_all only: two_waiting, simp_all add: win_event_def server_init_def)
  moreover have "server_step win_event 2 ?t (?t\<lparr>io_ended := True\<rparr>)" by (rule io_end) (simp_all add: release_def server_init_def)
  moreover have "server_step win_event 2 (?t\<lparr>io_ended := True\<rparr>) ?u" by (rule leave) (simp_all add: release_def)
  ultimately have "(server_step win_event 2)\<^sup>*\<^sup>* server_init ?u"
    by - (rule rtranclp.rtrancl_into_rtrancl [OF rtranclp.rtrancl_into_rtrancl [OF rtranclp.rtrancl_into_rtrancl [OF both_wait]]])
  moreover have "\<not> server_step win_event 2 ?u s'" for s'
    by (auto simp: release_def worker_to_def win_event_def server_init_def less_2_cases_iff elim!: server_stepE split: if_splits)
  ultimately show ?thesis by (intro exI [of _ ?u]) (simp add: worker_to_def release_def)
qed

text \<open>Windows does not meet the contract.\<close>

theorem win_event_wakes_one:
  "raise win_event W R \<Longrightarrow> card R \<le> 1" "\<not> condition win_event"
  by (auto simp: win_event_def condition_def split: if_splits)

subsection \<open>Properties of semaphores\<close>

text \<open>The contract of a semaphore: a count of permits.\<close>

locale counting_semaphore =
  fixes lock :: "nat \<Rightarrow> nat option" and trylock :: "nat \<Rightarrow> bool \<times> nat" and unlock :: "nat \<Rightarrow> nat" and maximum :: nat
  assumes lock: "lock c = Some c' \<longleftrightarrow> c = Suc c'"
    and trylock: "trylock c = (b, c') \<Longrightarrow> b = (c \<noteq> 0) \<and> c' = c - 1"
    and unlock: "c < maximum \<Longrightarrow> unlock c = Suc c"
begin

text \<open>A balanced section gives the permit back, and a thread waits exactly when a try fails.\<close>

lemma section_restores: "lock c = Some c' \<Longrightarrow> c \<le> maximum \<Longrightarrow> unlock c' = c"
  using unlock [of c'] lock by simp

lemma waits_iff: "lock c = None \<longleftrightarrow> \<not> fst (trylock c)"
  using lock trylock by (cases "trylock c"; cases c) (auto simp: not_Some_eq [symmetric] simp del: not_Some_eq)

end

lemma posix_sem_lock_count: "posix_sem_lock interrupted c = (if c = 0 then None else Some (c - 1))"
  by (induction interrupted c rule: posix_sem_lock.induct) auto

interpretation posix_sem: counting_semaphore "posix_sem_lock interrupted" posix_sem_trylock posix_sem_unlock MAX_SEM_COUNT
  by unfold_locales (auto simp: posix_sem_lock_count posix_sem_trylock_def posix_sem_unlock_def split: if_splits)

interpretation win_sem: counting_semaphore win_sem_lock win_sem_trylock win_sem_unlock MAX_SEM_COUNT
  by unfold_locales (auto simp: win_sem_lock_def win_sem_trylock_def win_sem_unlock_def split: if_splits)

text \<open>However often a signal interrupts the waiting, a section that is entered and left restores the count.\<close>

theorem semaphore_section:
  "posix_sem_lock interrupted c = Some c' \<Longrightarrow> c \<le> MAX_SEM_COUNT \<Longrightarrow> posix_sem_unlock c' = c \<and> (posix_sem_lock i2 c = None \<longleftrightarrow> win_sem_lock c = None)"
  using posix_sem.section_restores posix_sem.waits_iff win_sem.waits_iff
  by (auto simp: posix_sem_trylock_def win_sem_trylock_def)

subsection \<open>Properties of the lock of pthread\<close>

definition prw_ok :: "'t prwlock \<Rightarrow> bool" where
  "prw_ok s = (writer s \<noteq> None \<longrightarrow> readers s = [])"

text \<open>Every operation that returns keeps the exclusion of readers and writers.\<close>

lemma posix_rwlock_keeps:
  "prw_ok s \<Longrightarrow> posix_enter_read k t s = Rw_Returns u s' \<Longrightarrow> prw_ok s'"
  "prw_ok s \<Longrightarrow> posix_try_enter_read k t s = Rw_Returns b s' \<Longrightarrow> prw_ok s'"
  "prw_ok s \<Longrightarrow> posix_enter_write t s = Rw_Returns u s' \<Longrightarrow> prw_ok s'"
  "prw_ok s \<Longrightarrow> posix_try_enter_write t s = Rw_Returns b s' \<Longrightarrow> prw_ok s'"
  "prw_ok s \<Longrightarrow> posix_leave_rw t s = Rw_Returns u s' \<Longrightarrow> prw_ok s'"
  by (auto simp: prw_ok_def posix_enter_read_def posix_try_enter_read_def posix_enter_write_def posix_try_enter_write_def
      posix_leave_rw_def pthread_rwlock_tryrdlock_def pthread_rwlock_trywrlock_def pthread_rwlock_unlock_def split: if_splits)

text \<open>\<open>try_enter_write\<close> returns true exactly when the caller did not get the lock.\<close>

theorem posix_try_write_inverted:
  "prw_ok s \<Longrightarrow> posix_try_enter_write t s = Rw_Returns b s' \<Longrightarrow> b \<longleftrightarrow> s' = s \<and> (writer s \<noteq> None \<or> readers s \<noteq> [])"
  by (auto simp: posix_try_enter_write_def pthread_rwlock_trywrlock_def split: if_splits)

text \<open>When all read locks are taken, \<open>enter_read\<close> returns as if it had one; leaving then throws, or gives back the lock
  of another entry.\<close>

theorem reader_beyond_limit_unprotected:
  assumes "writer s = None" "length (readers s) = k" "t \<notin> set (readers s)"
  shows "posix_enter_read k t s = Rw_Returns () s" "posix_leave_rw t s = Rw_Throws ''the calling thread does not own the rwlock''"
  using assms by (simp_all add: posix_enter_read_def posix_leave_rw_def pthread_rwlock_tryrdlock_def pthread_rwlock_unlock_def)

subsection \<open>Properties of threads\<close>

text \<open>What a thread runs when it is started: the handler that was registered last, or that of the thread it was copied from or
  was assigned last.  A copy is not running.\<close>

theorem thread_runs_registered:
  "impl_handler (thread_on_execute h t) = h" "impl_handler (thread_copy t) = thread_handler t" "impl_handler (thread_assign t u) = thread_handler t"
  "thread_handler (thread_on_execute h t) = impl_handler (thread_on_execute h t)" "thread_handler (thread_copy t) = impl_handler (thread_copy t)"
  "thread_handle (thread_copy t) = None"
  by (simp_all add: thread_on_execute_def thread_copy_def thread_assign_def thread_new_def)

text \<open>A thread that is started again on Windows loses its first handle, which is not closed.\<close>

theorem restarted_thread_leaks_handle:
  assumes "x \<noteq> y" "win_start (Some x) (t, H) = (r1, t1, H1)" "win_start (Some y) (t1, H1) = (r2, t2, H2)"
  shows "x \<in> win_thread_delete (t2, H2)"
  using assms by (auto simp: win_start_def win_thread_delete_def)

end
