(* ===== verification/Sockets.thy ===== *)
theory Sockets
  imports Tcp_Server
begin

text \<open>
  \<open>socket.h\<close>, \<open>socket.cpp\<close>: the life of a socket object, and \<open>tcp_server::start\<close>, which makes the listening sockets.  The
  system keeps the set of open descriptors with their flags.  Copying a socket moves its descriptor; a descriptor that
  is closed twice, or used by an object that does not exist, is the outcome \<open>Undefined\<close>.  What a system call answers is
  an argument of the operation.
\<close>

subsection \<open>Descriptors\<close>

record kernel =
  open_fds :: "int set"
  fd_flags :: "int \<Rightarrow> 32 word"

record sock =
  socket_fd :: int
  sock_address :: string
  sock_port :: int

definition sock_new :: sock where
  "sock_new = \<lparr>socket_fd = -1, sock_address = [], sock_port = 0\<rparr>"

text \<open>The answers of the system to the calls of one operation.\<close>

record os =
  os_fd :: int
  os_pton :: bool
  os_setsockopt :: bool
  os_setfl :: bool
  os_bind :: bool
  os_listen :: bool
  os_connect :: bool
  os_peer :: "string \<times> int"

text \<open>What \<open>socket\<close> and \<open>accept\<close> do with a descriptor they return; new descriptors have no flags.\<close>

definition open_fd :: "int \<Rightarrow> kernel \<Rightarrow> kernel" where
  "open_fd f K = K\<lparr>open_fds := insert f (open_fds K), fd_flags := (fd_flags K)(f := 0)\<rparr>"

definition close_fd :: "int \<Rightarrow> kernel \<Rightarrow> kernel option" where
  "close_fd f K = (if f \<in> open_fds K then Some (K\<lparr>open_fds := open_fds K - {f}\<rparr>) else None)"

definition set_blocked_fd :: "os \<Rightarrow> bool \<Rightarrow> int \<Rightarrow> kernel \<Rightarrow> string + kernel" where
  "set_blocked_fd a state f K =
     (if f \<notin> open_fds K then Inl ''can't get socket blocking state''
      else if \<not> os_setfl a then Inl ''can't change socket blocking state''
      else Inr (K\<lparr>fd_flags := (fd_flags K)(f := set_blocked state (fd_flags K f))\<rparr>))"

subsection \<open>Operations on a socket\<close>

definition tcp_socket_new :: "os \<Rightarrow> kernel \<Rightarrow> string + sock \<times> kernel" where
  "tcp_socket_new a K =
     (if os_fd a < 0 then Inl ''can't create socket''
      else Inr (sock_new\<lparr>socket_fd := os_fd a\<rparr>, open_fd (os_fd a) K))"

text \<open>The copy and what is left of the original.\<close>

definition sock_copy :: "sock \<Rightarrow> sock \<times> sock" where
  "sock_copy src = (src, src\<lparr>socket_fd := -1\<rparr>)"

datatype close_result = Closed kernel | Terminates | Closed_Twice

text \<open>The destructor; an exception of \<open>set_blocked\<close> ends the program.\<close>

definition sock_delete :: "os \<Rightarrow> sock \<Rightarrow> kernel \<Rightarrow> close_result" where
  "sock_delete a k K =
     (if socket_fd k < 0 then Closed K
      else case set_blocked_fd a True (socket_fd k) K of
             Inl _ \<Rightarrow> if socket_fd k \<in> open_fds K then Terminates else Closed_Twice
           | Inr K \<Rightarrow> (case close_fd (socket_fd k) K of None \<Rightarrow> Closed_Twice | Some K \<Rightarrow> Closed K))"

text \<open>The exception or the result, and the object afterwards.\<close>

definition sock_connect :: "os \<Rightarrow> string \<Rightarrow> int \<Rightarrow> sock \<Rightarrow> (string + bool) \<times> sock" where
  "sock_connect a addr p k =
     (if \<not> os_pton a then (Inl ''can't assign an address to a socket'', k)
      else if \<not> os_connect a then (Inr False, k\<lparr>socket_fd := -1\<rparr>)
      else (Inr True, k\<lparr>sock_address := addr, sock_port := p\<rparr>))"

definition sock_bind :: "os \<Rightarrow> socket_address \<Rightarrow> sock \<Rightarrow> kernel \<Rightarrow> (string + unit) \<times> sock \<times> kernel" where
  "sock_bind a addr k K =
     (if addr_list addr \<noteq> [] \<and> \<not> os_pton a then (Inl ''can't assign an address to a socket'', k, K)
      else let k = k\<lparr>sock_address := (if addr_list addr \<noteq> [] then hd (addr_list addr) else []), sock_port := addr_port addr\<rparr>
           in if \<not> os_setsockopt a then (Inl ''can't setup socket options'', k, K)
              else case set_blocked_fd a False (socket_fd k) K of
                     Inl e \<Rightarrow> (Inl e, k, K)
                   | Inr K \<Rightarrow>
                       if \<not> os_bind a then (Inl ''can't bind to the address or port'', k\<lparr>socket_fd := -1\<rparr>, K)
                       else (Inr (), k, K))"

definition sock_listen :: "os \<Rightarrow> sock \<Rightarrow> string + unit" where
  "sock_listen a k = (if os_listen a then Inr () else Inl ''can't listen socket'')"

text \<open>The accepted socket is destroyed again when it cannot be made non-blocking.\<close>

definition sock_accept :: "os \<Rightarrow> os \<Rightarrow> kernel \<Rightarrow> (string + sock) \<times> close_result" where
  "sock_accept a a' K =
     (if os_fd a < 0 then (Inl ''can't accept incoming connection'', Closed K)
      else let k = \<lparr>socket_fd = os_fd a, sock_address = fst (os_peer a), sock_port = snd (os_peer a)\<rparr>; K = open_fd (os_fd a) K
           in case set_blocked_fd a False (socket_fd k) K of
                Inl e \<Rightarrow> (Inl e, sock_delete a' k K)
              | Inr K \<Rightarrow> (Inr k, Closed K))"

subsection \<open>Objects\<close>

record sock_state =
  objs :: "nat \<Rightarrow> sock option"
  kern :: kernel

datatype sock_op =
    Make nat
  | Make_Tcp nat os
  | Copy_To nat nat
  | Assign_To nat nat
  | Delete nat os
  | Connect nat os string int
  | Bind nat os socket_address
  | Accept nat os os nat

datatype sock_outcome = Done sock_state | Raised string sock_state | Aborted | Undefined

definition put :: "nat \<Rightarrow> sock option \<Rightarrow> sock_state \<Rightarrow> sock_state" where
  "put x k s = s\<lparr>objs := (objs s)(x := k)\<rparr>"

fun after_close :: "(sock_state \<Rightarrow> sock_outcome) \<Rightarrow> sock_state \<Rightarrow> close_result \<Rightarrow> sock_outcome" where
  "after_close f s (Closed K) = f (s\<lparr>kern := K\<rparr>)"
| "after_close f s Terminates = Aborted"
| "after_close f s Closed_Twice = Undefined"

fun sock_run :: "sock_op \<Rightarrow> sock_state \<Rightarrow> sock_outcome" where
  "sock_run (Make x) s = Done (put x (Some sock_new) s)"
| "sock_run (Make_Tcp x a) s = (case tcp_socket_new a (kern s) of
     Inl e \<Rightarrow> Raised e s
   | Inr (k, K) \<Rightarrow> Done (put x (Some k) (s\<lparr>kern := K\<rparr>)))"
| "sock_run (Copy_To x y) s = (case objs s y of
     None \<Rightarrow> Undefined
   | Some k \<Rightarrow> let (c, k) = sock_copy k in Done (put x (Some c) (put y (Some k) s)))"
| "sock_run (Assign_To x y) s = (case (objs s x, objs s y) of
     (Some _, Some k) \<Rightarrow> let (c, k) = sock_copy k in Done (put y (Some k) (put x (Some c) s))
   | _ \<Rightarrow> Undefined)"
| "sock_run (Delete x a) s = (case objs s x of
     None \<Rightarrow> Undefined
   | Some k \<Rightarrow> after_close (\<lambda>s. Done (put x None s)) s (sock_delete a k (kern s)))"
| "sock_run (Connect x a addr p) s = (case objs s x of
     None \<Rightarrow> Undefined
   | Some k \<Rightarrow> (case sock_connect a addr p k of
       (Inl e, k) \<Rightarrow> Raised e (put x (Some k) s)
     | (Inr _, k) \<Rightarrow> Done (put x (Some k) s)))"
| "sock_run (Bind x a addr) s = (case objs s x of
     None \<Rightarrow> Undefined
   | Some k \<Rightarrow> (case sock_bind a addr k (kern s) of
       (Inl e, k, K) \<Rightarrow> Raised e (put x (Some k) (s\<lparr>kern := K\<rparr>))
     | (Inr _, k, K) \<Rightarrow> Done (put x (Some k) (s\<lparr>kern := K\<rparr>))))"
| "sock_run (Accept x a a' y) s = (case objs s x of
     None \<Rightarrow> Undefined
   | Some _ \<Rightarrow> (case sock_accept a a' (kern s) of
       (Inl e, c) \<Rightarrow> after_close (Raised e) s c
     | (Inr k, c) \<Rightarrow> after_close (\<lambda>s. Done (put y (Some k) s)) s c))"

subsection \<open>Socket streams\<close>

text \<open>\<open>socket_stream.cpp\<close>: a stream buffer over a socket, with its three pointers as positions in the buffer.  The call that would
  fill the buffer is commented out.  Reading or copying outside of the buffer is the outcome \<^const>\<open>None\<close>.\<close>

record socket_stream =
  put_back :: nat
  sbuf :: string
  eback :: nat
  gptr :: nat
  egptr :: nat
  stream_sock :: sock

text \<open>The stream and what is left of the socket; the buffer is filled with zeros.\<close>

definition socket_stream_new :: "sock \<Rightarrow> nat \<Rightarrow> nat \<Rightarrow> socket_stream \<times> sock" where
  "socket_stream_new s buf_size pb =
     (let pb = max pb 1; n = max buf_size pb + pb
      in (\<lparr>put_back = pb, sbuf = replicate n (CHR 0x00), eback = n, gptr = n, egptr = n, stream_sock = fst (sock_copy s)\<rparr>, snd (sock_copy s)))"

definition underflow :: "socket_stream \<Rightarrow> (char \<times> socket_stream) option" where
  "underflow b =
     (if gptr b < egptr b then Some (sbuf b ! gptr b, b)
      else if eback b = 0 \<and> egptr b < put_back b then None
      else let b = (if eback b = 0
                    then b\<lparr>sbuf := take (put_back b) (drop (egptr b - put_back b) (sbuf b)) @ drop (put_back b) (sbuf b)\<rparr> else b)
           in if gptr b < length (sbuf b) then Some (sbuf b ! gptr b, b) else None)"

subsection \<open>Starting the TCP server\<close>

datatype start_result = Started | Start_Throws | Start_Undefined | Start_Aborts

fun after_temporary :: "close_result \<Rightarrow> sock list \<Rightarrow> kernel \<Rightarrow> start_result \<times> sock list \<times> kernel" where
  "after_temporary (Closed K') socks K = (Start_Throws, socks, K')"
| "after_temporary Terminates socks K = (Start_Aborts, socks, K)"
| "after_temporary Closed_Twice socks K = (Start_Undefined, socks, K)"

text \<open>The loop over the addresses, with the answers of the system for each, and for the destruction of the temporary socket.
  The copy in the vector takes the descriptor, so that destroying the temporary closes nothing.\<close>

fun listen_all ::
  "(string \<Rightarrow> string list option) \<Rightarrow> (os \<times> os) list \<Rightarrow> string list \<Rightarrow> sock list \<Rightarrow> kernel \<Rightarrow> start_result \<times> sock list \<times> kernel" where
  "listen_all resolve as [] socks K = (Started, socks, K)"
| "listen_all resolve [] (addr # addrs) socks K = (Start_Undefined, socks, K)"
| "listen_all resolve ((a, a') # as) (addr # addrs) socks K = (case tcp_socket_new a K of
     Inl e \<Rightarrow> (Start_Throws, socks, K)
   | Inr (k, K) \<Rightarrow>
       (case socket_address_parse resolve addr of
          Out_of_range \<Rightarrow> (Start_Undefined, socks, K)
        | Unresolved \<Rightarrow> after_temporary (sock_delete a' k K) socks K
        | Parsed sa \<Rightarrow>
            (case sock_bind a sa k K of
               (Inl e, k, K) \<Rightarrow> after_temporary (sock_delete a' k K) socks K
             | (Inr _, k, K) \<Rightarrow>
                 (case sock_delete a' (snd (sock_copy k)) K of
                    Closed K \<Rightarrow> listen_all resolve as addrs (socks @ [fst (sock_copy k)]) K
                  | _ \<Rightarrow> (Start_Aborts, socks, K)))))"

record listener =
  stopped :: bool
  listen_socks :: "sock list"
  threads_running :: bool

text \<open>\<open>tcp_server::start\<close>: the vector of listening sockets is empty when the server is stopped, since \<open>stop\<close> clears it.\<close>

definition server_start ::
  "(string \<Rightarrow> string list option) \<Rightarrow> (os \<times> os) list \<Rightarrow> bool \<Rightarrow> string \<Rightarrow> listener \<times> kernel \<Rightarrow> start_result \<times> listener \<times> kernel" where
  "server_start resolve as threads_ok bind st =
     (let (L, K) = st
      in if \<not> stopped L then (Started, L, K)
         else let (r, socks, K) = listen_all resolve as (tokenize '',;'' bind) [] K; L = L\<lparr>stopped := False, listen_socks := socks\<rparr>
              in if r \<noteq> Started then (r, L, K)
                 else if \<not> threads_ok then (Start_Throws, L, K)
                 else (Started, L\<lparr>threads_running := True\<rparr>, K))"

section \<open>Properties\<close>

subsection \<open>Ownership of descriptors\<close>

text \<open>The abstract view: which object has which descriptor, and which descriptors are open.\<close>

type_synonym owning = "(nat \<Rightarrow> int option) \<times> int set"

definition fd_of :: "sock option \<Rightarrow> int option" where
  "fd_of k = (case k of None \<Rightarrow> None | Some k \<Rightarrow> if 0 \<le> socket_fd k then Some (socket_fd k) else None)"

definition holds :: "sock_state \<Rightarrow> nat \<Rightarrow> int option" where
  "holds s x = fd_of (objs s x)"

abbreviation owning_of :: "sock_state \<Rightarrow> owning" where
  "owning_of s \<equiv> (holds s, open_fds (kern s))"

text \<open>Every object's descriptor is open, no two objects share one.\<close>

definition owning_ok :: "owning \<Rightarrow> bool" where
  "owning_ok w \<longleftrightarrow> (\<forall>x f. fst w x = Some f \<longrightarrow> f \<in> snd w) \<and> (\<forall>x y f. fst w x = Some f \<longrightarrow> fst w y = Some f \<longrightarrow> x = y)"

text \<open>Open descriptors that no object will close.\<close>

definition orphans :: "owning \<Rightarrow> int set" where
  "orphans w = {f \<in> snd w. \<forall>x. fst w x \<noteq> Some f}"

lemma owning_forget:
  "owning_ok (d, F) \<Longrightarrow> owning_ok (d(x := None), F)"
  "owning_ok (d, F) \<Longrightarrow> orphans (d(x := None), F) = orphans (d, F) \<union> set_option (d x)"
  by (auto simp: owning_ok_def orphans_def)

lemma owning_close:
  "owning_ok (d, F) \<Longrightarrow> d x = Some f \<Longrightarrow> owning_ok (d(x := None), F - {f})"
  "owning_ok (d, F) \<Longrightarrow> d x = Some f \<Longrightarrow> orphans (d(x := None), F - {f}) = orphans (d, F)"
  by (auto simp: owning_ok_def orphans_def) (metis option.inject)

lemma owning_open:
  "owning_ok (d, F) \<Longrightarrow> d x = None \<Longrightarrow> f \<notin> F \<Longrightarrow> owning_ok (d(x := Some f), insert f F)"
  "owning_ok (d, F) \<Longrightarrow> d x = None \<Longrightarrow> f \<notin> F \<Longrightarrow> orphans (d(x := Some f), insert f F) = orphans (d, F)"
  by (auto simp: owning_ok_def orphans_def)

lemma owning_move:
  "owning_ok (d, F) \<Longrightarrow> x \<noteq> y \<Longrightarrow> owning_ok (d(x := d y, y := None), F)"
  "owning_ok (d, F) \<Longrightarrow> x \<noteq> y \<Longrightarrow> orphans (d(x := d y, y := None), F) = orphans (d, F) \<union> set_option (d x)"
  by (auto simp: owning_ok_def orphans_def split: if_splits) metis

lemma holds_put [simp]: "holds (put x k s) = (holds s)(x := fd_of k)"
  by (auto simp: holds_def put_def)

lemma holds_kern [simp]: "holds (s\<lparr>kern := K\<rparr>) = holds s"
  by (auto simp: holds_def)

lemma kern_put [simp]: "kern (put x k s) = kern s"
  by (simp add: put_def)

lemma fd_of_simps [simp]:
  "fd_of None = None" "fd_of (Some sock_new) = None" "fd_of (Some (k\<lparr>socket_fd := -1\<rparr>)) = None"
  "fd_of (Some (k\<lparr>sock_address := ad, sock_port := p\<rparr>)) = fd_of (Some k)"
  by (simp_all add: fd_of_def sock_new_def)

lemma set_blocked_fd_open: "set_blocked_fd a st f K = Inr K' \<Longrightarrow> open_fds K' = open_fds K \<and> f \<in> open_fds K"
  by (auto simp: set_blocked_fd_def split: if_splits)

text \<open>What the language and the system demand: objects are made once and used while they exist, and a new descriptor is
  not one that is open.\<close>

fun sock_legal :: "sock_op \<Rightarrow> sock_state \<Rightarrow> bool" where
  "sock_legal (Make x) s = (objs s x = None)"
| "sock_legal (Make_Tcp x a) s = (objs s x = None \<and> os_fd a \<notin> open_fds (kern s))"
| "sock_legal (Copy_To x y) s = (objs s x = None \<and> objs s y \<noteq> None)"
| "sock_legal (Assign_To x y) s = (objs s x \<noteq> None \<and> objs s y \<noteq> None)"
| "sock_legal (Delete x a) s = (objs s x \<noteq> None)"
| "sock_legal (Connect x a ad p) s = (objs s x \<noteq> None)"
| "sock_legal (Bind x a ad) s = (objs s x \<noteq> None)"
| "sock_legal (Accept x a a' y) s = (objs s x \<noteq> None \<and> objs s y = None \<and> os_fd a \<notin> open_fds (kern s))"

text \<open>The descriptors an operation loses: that of a socket whose \<open>connect\<close> or \<open>bind\<close> fails in the system, and that of a
  socket that is assigned to.\<close>

fun lost_by :: "sock_op \<Rightarrow> sock_state \<Rightarrow> int set" where
  "lost_by (Assign_To x y) s = set_option (fd_of (objs s x))"
| "lost_by (Connect x a ad p) s = (if os_pton a \<and> \<not> os_connect a then set_option (fd_of (objs s x)) else {})"
| "lost_by (Bind x a ad) s =
     (if (addr_list ad = [] \<or> os_pton a) \<and> os_setsockopt a \<and> os_setfl a \<and> \<not> os_bind a then set_option (fd_of (objs s x)) else {})"
| "lost_by _ s = {}"

text \<open>The relation between a state and what an operation may leave.\<close>

definition keeps :: "int set \<Rightarrow> sock_state \<Rightarrow> sock_state \<Rightarrow> bool" where
  "keeps gone s s' \<longleftrightarrow> owning_ok (owning_of s') \<and> orphans (owning_of s') = orphans (owning_of s) \<union> gone"

fun outcome_keeps :: "int set \<Rightarrow> sock_state \<Rightarrow> sock_outcome \<Rightarrow> bool" where
  "outcome_keeps gone s (Done s') = keeps gone s s'"
| "outcome_keeps gone s (Raised e s') = keeps gone s s'"
| "outcome_keeps gone s Aborted = True"
| "outcome_keeps gone s Undefined = False"

lemma same_keeps: "owning_ok (owning_of s) \<Longrightarrow> holds s' = holds s \<Longrightarrow> open_fds (kern s') = open_fds (kern s) \<Longrightarrow> keeps {} s s'"
  by (simp add: keeps_def)

lemma holds_idem: "fd_of k = fd_of (objs s x) \<Longrightarrow> (holds s)(x := fd_of k) = holds s"
  by (auto simp: holds_def)

lemma opened_keeps:
  assumes "owning_ok (owning_of s)" "objs s x = None" "0 \<le> socket_fd k" "socket_fd k \<notin> open_fds (kern s)"
    and "open_fds K = insert (socket_fd k) (open_fds (kern s))"
  shows "keeps {} s (put x (Some k) (s\<lparr>kern := K\<rparr>))"
proof -
  have d: "holds s x = None" using assms(2) by (simp add: holds_def)
  show ?thesis
    using assms(3,5) owning_open [OF assms(1) d assms(4)] by (simp add: keeps_def fd_of_def)
qed

lemma moved_keeps:
  assumes "owning_ok (owning_of s)" "objs s y = Some k" "x \<noteq> y"
  shows "keeps (set_option (fd_of (objs s x))) s (put y (Some (k\<lparr>socket_fd := -1\<rparr>)) (put x (Some k) s))"
proof -
  have "holds s y = fd_of (Some k)" "holds s x = fd_of (objs s x)" using assms(2) by (simp_all add: holds_def)
  then show ?thesis using owning_move [OF assms(1,3)] by (simp add: keeps_def)
qed

lemma forgotten_keeps:
  assumes "owning_ok (owning_of s)" "open_fds K = open_fds (kern s)" "fd_of k' = None"
  shows "keeps (set_option (fd_of (objs s x))) s (put x k' (s\<lparr>kern := K\<rparr>))"
proof -
  have "holds s x = fd_of (objs s x)" by (simp add: holds_def)
  then show ?thesis using owning_forget [OF assms(1), of x] assms(2,3) by (simp add: keeps_def)
qed

lemma unchanged_keeps:
  assumes "owning_ok (owning_of s)" "open_fds K = open_fds (kern s)" "fd_of k' = fd_of (objs s x)"
  shows "keeps {} s (put x k' (s\<lparr>kern := K\<rparr>))"
  using assms by (intro same_keeps) (simp_all add: holds_idem)

lemma deleted_keeps:
  assumes "owning_ok (owning_of s)" "objs s x = Some k"
  shows "outcome_keeps {} s (after_close (\<lambda>s. Done (put x None s)) s (sock_delete a k (kern s)))"
proof (cases "socket_fd k < 0")
  case True
  then have "fd_of None = fd_of (objs s x)" using assms(2) by (simp add: fd_of_def)
  then have "keeps {} s (put x None (s\<lparr>kern := kern s\<rparr>))" by (rule unchanged_keeps [OF assms(1) refl])
  then show ?thesis using True by (simp add: sock_delete_def)
next
  case False
  let ?F = "open_fds (kern s)" and ?f = "socket_fd k"
  have d: "holds s x = Some ?f" using False assms(2) by (simp add: holds_def fd_of_def)
  then have F: "?f \<in> ?F" using assms(1) by (simp add: owning_ok_def)
  have "keeps {} s (put x None (s\<lparr>kern := K\<rparr>))" if "open_fds K = ?F - {?f}" for K
    using owning_close [OF assms(1) d] that by (simp add: keeps_def)
  then show ?thesis using False F by (simp add: sock_delete_def set_blocked_fd_def close_fd_def)
qed

lemma accepted_keeps:
  assumes "owning_ok (owning_of s)" "objs s y = None" "os_fd a \<notin> open_fds (kern s)" "objs s x \<noteq> None"
  shows "outcome_keeps {} s (sock_run (Accept x a a' y) s)"
proof (cases "0 \<le> os_fd a")
  case True
  let ?k = "\<lparr>socket_fd = os_fd a, sock_address = fst (os_peer a), sock_port = snd (os_peer a)\<rparr>"
  have "keeps {} s (put y (Some ?k) (s\<lparr>kern := K\<rparr>))" if "open_fds K = insert (os_fd a) (open_fds (kern s))" for K
    by (rule opened_keeps [OF assms(1,2)]) (use True assms(3) that in simp_all)
  moreover have "keeps {} s (s\<lparr>kern := K\<rparr>)" if "open_fds K = open_fds (kern s)" for K
    using assms(1) that by (intro same_keeps) simp_all
  ultimately show ?thesis using True assms(3,4)
    by (auto simp: sock_accept_def set_blocked_fd_def open_fd_def sock_delete_def close_fd_def Let_def)
qed (use assms same_keeps [OF assms(1), of s] in \<open>auto simp: sock_accept_def\<close>)

lemma bound_keeps:
  assumes "owning_ok (owning_of s)" "objs s x \<noteq> None"
  shows "outcome_keeps (lost_by (Bind x a ad) s) s (sock_run (Bind x a ad) s)"
proof -
  obtain k where k: "objs s x = Some k" using assms(2) by blast
  have same: "keeps {} s (put x (Some k') (s\<lparr>kern := K\<rparr>))" if "open_fds K = open_fds (kern s)" "socket_fd k' = socket_fd k" for K k'
    using that k by (intro unchanged_keeps [OF assms(1)]) (simp_all add: fd_of_def)
  have gone: "keeps (set_option (fd_of (Some k))) s (put x (Some k') (s\<lparr>kern := K\<rparr>))"
    if "open_fds K = open_fds (kern s)" "socket_fd k' = -1" for K k'
    using that k forgotten_keeps [OF assms(1), of K "Some k'" x] by (simp add: fd_of_def)
  have none: "fd_of (Some k) = None" if "socket_fd k \<notin> open_fds (kern s)"
  proof (rule ccontr)
    assume "fd_of (Some k) \<noteq> None"
    then have "holds s x = Some (socket_fd k)" using k by (simp add: holds_def fd_of_def split: if_splits)
    then show False using assms(1) that by (simp add: owning_ok_def)
  qed
  have same0: "keeps {} s (put x (Some k') s)" if "socket_fd k' = socket_fd k" for k' using same [of "kern s" k'] that by simp
  show ?thesis using k same same0 gone none by (auto simp: sock_bind_def set_blocked_fd_def Let_def)
qed

lemma connected_keeps:
  assumes "owning_ok (owning_of s)" "objs s x \<noteq> None"
  shows "outcome_keeps (lost_by (Connect x a ad p) s) s (sock_run (Connect x a ad p) s)"
proof -
  obtain k where k: "objs s x = Some k" using assms(2) by blast
  have "keeps {} s (put x (Some k') (s\<lparr>kern := kern s\<rparr>))" if "socket_fd k' = socket_fd k" for k'
    using that k by (intro unchanged_keeps [OF assms(1)]) (simp_all add: fd_of_def)
  moreover have "keeps (set_option (fd_of (Some k))) s (put x (Some (k\<lparr>socket_fd := -1\<rparr>)) (s\<lparr>kern := kern s\<rparr>))"
    using forgotten_keeps [OF assms(1) refl, of "Some (k\<lparr>socket_fd := -1\<rparr>)" x] k by simp
  ultimately show ?thesis using k by (simp add: sock_connect_def)
qed

lemma assigned_keeps:
  assumes "owning_ok (owning_of s)" "objs s x \<noteq> None" "objs s y \<noteq> None"
  shows "outcome_keeps (lost_by (Assign_To x y) s) s (sock_run (Assign_To x y) s)"
proof -
  obtain j k where jk: "objs s x = Some j" "objs s y = Some k" using assms(2,3) by blast
  show ?thesis
  proof (cases "x = y")
    case True
    have "keeps (set_option (fd_of (Some j))) s (put x (Some (j\<lparr>socket_fd := -1\<rparr>)) (s\<lparr>kern := kern s\<rparr>))"
      using forgotten_keeps [OF assms(1) refl, of "Some (j\<lparr>socket_fd := -1\<rparr>)" x] jk by simp
    then show ?thesis using True jk by (simp add: sock_copy_def put_def)
  next
    case False
    then show ?thesis using moved_keeps [OF assms(1) jk(2) False] jk by (simp add: sock_copy_def)
  qed
qed

text \<open>C22: Descriptors are safe: from a state in which every socket object has a descriptor of its own that is open, every
  operation, whether it succeeds or throws, leaves such a state; no descriptor is closed twice or used when it is
  closed.  The descriptors that are left open without an owner are exactly those of sockets whose connection or binding
  is refused by the system and of sockets that are assigned to.\<close>

theorem sockets_own_descriptors:
  assumes "owning_ok (owning_of s)" "sock_legal op s"
  shows "outcome_keeps (lost_by op s) s (sock_run op s)"
proof (cases op)
  case (Make x)
  then have "keeps {} s (put x (Some sock_new) (s\<lparr>kern := kern s\<rparr>))"
    using assms by (intro unchanged_keeps) simp_all
  then show ?thesis using Make by simp
next
  case (Make_Tcp x a)
  have "keeps {} s (put x (Some (sock_new\<lparr>socket_fd := os_fd a\<rparr>)) (s\<lparr>kern := open_fd (os_fd a) (kern s)\<rparr>))" if "0 \<le> os_fd a"
    using assms Make_Tcp that by (intro opened_keeps) (simp_all add: open_fd_def)
  then show ?thesis using Make_Tcp same_keeps [OF assms(1), of s] by (auto simp: tcp_socket_new_def)
next
  case (Copy_To x y)
  then obtain k where k: "objs s x = None" "objs s y = Some k" "x \<noteq> y" using assms(2) by fastforce
  have "put x (Some k) (put y (Some k') s) = put y (Some k') (put x (Some k) s)" for k'
    using k(3) by (simp add: put_def fun_upd_twist)
  then show ?thesis using Copy_To k moved_keeps [OF assms(1) k(2,3)] by (simp add: sock_copy_def)
next
  case (Delete x a)
  then show ?thesis using assms deleted_keeps by auto
qed (use assms assigned_keeps connected_keeps bound_keeps accepted_keeps in simp_all)

definition no_sockets :: sock_state where
  "no_sockets = \<lparr>objs = \<lambda>_. None, kern = \<lparr>open_fds = {}, fd_flags = \<lambda>_. 0\<rparr>\<rparr>"

definition all_well :: "int \<Rightarrow> os" where
  "all_well f = \<lparr>os_fd = f, os_pton = True, os_setsockopt = True, os_setfl = True, os_bind = True, os_listen = True,
     os_connect = True, os_peer = ([], 0)\<rparr>"

theorem sockets_own_descriptors_witness:
  "sock_run (Make_Tcp 0 (all_well 3)) no_sockets =
     Done (put 0 (Some (sock_new\<lparr>socket_fd := 3\<rparr>)) (no_sockets\<lparr>kern := open_fd 3 (kern no_sockets)\<rparr>)) \<and>
   outcome_keeps {} no_sockets (sock_run (Make_Tcp 0 (all_well 3)) no_sockets)"
proof -
  have "owning_ok (owning_of no_sockets)" by (simp add: owning_ok_def holds_def no_sockets_def)
  moreover have "sock_legal (Make_Tcp 0 (all_well 3)) no_sockets" by (simp add: no_sockets_def)
  ultimately have "outcome_keeps {} no_sockets (sock_run (Make_Tcp 0 (all_well 3)) no_sockets)"
    using sockets_own_descriptors [of no_sockets "Make_Tcp 0 (all_well 3)"] by (simp only: lost_by.simps)
  then show ?thesis by (simp add: tcp_socket_new_def all_well_def)
qed

subsection \<open>The listening sockets\<close>

definition nonblocking :: "kernel \<Rightarrow> int \<Rightarrow> bool" where
  "nonblocking K f = (and (fd_flags K f) O_NONBLOCK = O_NONBLOCK)"

text \<open>Addresses that resolve, with the ports they name.\<close>

definition listens_on :: "(string \<Rightarrow> string list option) \<Rightarrow> string \<Rightarrow> int \<Rightarrow> bool" where
  "listens_on resolve addr p \<longleftrightarrow> (\<exists>sa. socket_address_parse resolve addr = Parsed sa \<and> addr_port sa = p)"

lemma bind_well:
  "f \<in> open_fds K \<Longrightarrow> \<exists>ad. sock_bind (all_well f) sa (sock_new\<lparr>socket_fd := f\<rparr>) K =
     (Inr (), \<lparr>socket_fd = f, sock_address = ad, sock_port = addr_port sa\<rparr>,
      K\<lparr>fd_flags := (fd_flags K)(f := or (fd_flags K f) O_NONBLOCK)\<rparr>)"
  by (auto simp: sock_bind_def all_well_def set_blocked_fd_def set_blocked_def sock_new_def Let_def)

lemma listen_all_well:
  assumes "list_all2 (listens_on resolve) addrs ports" "length fs = length addrs" "distinct fs"
    and "\<forall>f \<in> set fs. 0 \<le> f \<and> f \<notin> open_fds K"
  shows "\<exists>socks' K'. listen_all resolve (map (\<lambda>f. (all_well f, a')) fs) addrs socks K = (Started, socks @ socks', K') \<and>
    map socket_fd socks' = fs \<and> map sock_port socks' = ports \<and> open_fds K' = open_fds K \<union> set fs \<and>
    (\<forall>f \<in> set fs. nonblocking K' f) \<and> (\<forall>f. f \<notin> set fs \<longrightarrow> fd_flags K' f = fd_flags K f)"
  using assms
proof (induction addrs ports arbitrary: fs socks K rule: list_all2_induct)
  case (Cons addr addrs p ports)
  then obtain f fs' where fs: "fs = f # fs'" by (cases fs) auto
  from Cons.hyps(1) obtain sa where sa: "socket_address_parse resolve addr = Parsed sa" "addr_port sa = p"
    by (auto simp: listens_on_def)
  let ?K = "open_fd f K"
  obtain ad where b: "sock_bind (all_well f) sa (sock_new\<lparr>socket_fd := f\<rparr>) ?K =
      (Inr (), \<lparr>socket_fd = f, sock_address = ad, sock_port = p\<rparr>, ?K\<lparr>fd_flags := (fd_flags ?K)(f := or (fd_flags ?K f) O_NONBLOCK)\<rparr>)"
    using bind_well [of f ?K sa] sa(2) by (auto simp: open_fd_def)
  let ?K1 = "?K\<lparr>fd_flags := (fd_flags ?K)(f := or (fd_flags ?K f) O_NONBLOCK)\<rparr>" and ?k = "\<lparr>socket_fd = f, sock_address = ad, sock_port = p\<rparr>"
  have f: "0 \<le> f" "f \<notin> set fs'" "distinct fs'" "length fs' = length addrs" using Cons.prems fs by auto
  have o1: "open_fds ?K1 = insert f (open_fds K)" by (simp add: open_fd_def)
  then have "\<forall>g \<in> set fs'. 0 \<le> g \<and> g \<notin> open_fds ?K1" using Cons.prems(3) fs f(2) by auto
  from Cons.IH [OF f(4,3) this, of "socks @ [?k]"] obtain socks' K' where IH:
    "listen_all resolve (map (\<lambda>f. (all_well f, a')) fs') addrs (socks @ [?k]) ?K1 = (Started, (socks @ [?k]) @ socks', K')"
    "map socket_fd socks' = fs'" "map sock_port socks' = ports" "open_fds K' = open_fds ?K1 \<union> set fs'"
    "\<forall>g \<in> set fs'. nonblocking K' g" "\<forall>g. g \<notin> set fs' \<longrightarrow> fd_flags K' g = fd_flags ?K1 g" by blast
  have "tcp_socket_new (all_well f) K = Inr (sock_new\<lparr>socket_fd := f\<rparr>, ?K)" using f(1) by (simp add: tcp_socket_new_def all_well_def)
  then have "listen_all resolve (map (\<lambda>f. (all_well f, a')) fs) (addr # addrs) socks K = (Started, socks @ ?k # socks', K')"
    using sa(1) b IH(1) by (simp add: fs sock_copy_def sock_delete_def)
  moreover have "nonblocking K' f" using IH(6) f(2) by (simp add: nonblocking_def bit.conj_disj_distrib2)
  moreover have "fd_flags K' g = fd_flags K g" if "g \<notin> set fs" for g using IH(6) that fs by (simp add: open_fd_def)
  ultimately show ?case using IH(2-5) o1 fs by (intro exI [of _ "?k # socks'"] exI [of _ K']) auto
qed simp

text \<open>C23: A stopped server that is started with a list of addresses, when the system answers all calls well, binds one new,
  non-blocking descriptor for each address, in order and with its port, opens no other descriptor, and runs.\<close>

theorem server_listens:
  assumes "stopped L" "list_all2 (listens_on resolve) (tokenize '',;'' bind) ports"
    and "length fs = length ports" "distinct fs" "\<forall>f \<in> set fs. 0 \<le> f \<and> f \<notin> open_fds K"
  shows "\<exists>L' K'. server_start resolve (map (\<lambda>f. (all_well f, a')) fs) True bind (L, K) = (Started, L', K') \<and>
    \<not> stopped L' \<and> threads_running L' \<and> map socket_fd (listen_socks L') = fs \<and> map sock_port (listen_socks L') = ports \<and>
    open_fds K' = open_fds K \<union> set fs \<and> (\<forall>f \<in> set fs. nonblocking K' f)"
proof -
  have "length fs = length (tokenize '',;'' bind)" using assms(2,3) by (simp add: list_all2_lengthD)
  from listen_all_well [OF assms(2) this assms(4,5), of a' "[]"] obtain socks K' where
    "listen_all resolve (map (\<lambda>f. (all_well f, a')) fs) (tokenize '',;'' bind) [] K = (Started, socks, K')"
    "map socket_fd socks = fs" "map sock_port socks = ports" "open_fds K' = open_fds K \<union> set fs" "\<forall>f \<in> set fs. nonblocking K' f"
    by auto
  then show ?thesis using assms(1) by (simp add: server_start_def)
qed

theorem server_listens_witness:
  "\<exists>L' K'. server_start (\<lambda>_. None) [(all_well 3, all_well 0), (all_well 4, all_well 0)] True ''*:80;*:443''
     (\<lparr>stopped = True, listen_socks = [], threads_running = False\<rparr>, \<lparr>open_fds = {0, 1, 2}, fd_flags = \<lambda>_. 0\<rparr>) = (Started, L', K') \<and>
   map socket_fd (listen_socks L') = [3, 4] \<and> map sock_port (listen_socks L') = [80, 443]"
proof -
  have t: "tokenize '',;'' ''*:80;*:443'' = [''*:80'', ''*:443'']" by code_simp
  have p: "socket_address_parse (\<lambda>_. None) ''*:80'' = Parsed \<lparr>addr_list = [], addr_port = 80, addr_host = ''*''\<rparr>"
    "socket_address_parse (\<lambda>_. None) ''*:443'' = Parsed \<lparr>addr_list = [], addr_port = 443, addr_host = ''*''\<rparr>" by code_simp+
  have "list_all2 (listens_on (\<lambda>_. None)) (tokenize '',;'' ''*:80;*:443'') [80, 443]" unfolding t by (simp add: listens_on_def p)
  from server_listens [OF _ this, of "\<lparr>stopped = True, listen_socks = [], threads_running = False\<rparr>" "[3, 4]"
      "\<lparr>open_fds = {0, 1, 2}, fd_flags = \<lambda>_. 0\<rparr>" "all_well 0"]
  show ?thesis by (auto simp del: server_start_def)
qed

text \<open>A server whose start fails counts as running: the next start does nothing and reports no error.\<close>

theorem failed_start_counts_as_running:
  assumes "stopped L" "server_start resolve as ok bind (L, K) = (r, L', K')" "r \<noteq> Started"
  shows "\<not> threads_running L \<longrightarrow> \<not> threads_running L'"
    "server_start resolve' as' ok' bind' (L', K') = (Started, L', K')"
  using assms by (auto simp: server_start_def Let_def split: prod.splits if_splits)

text \<open>A socket stream takes the descriptor of its socket, and the first read from it is outside of its buffer, whatever the
  sizes are and whatever the peer has sent.\<close>

theorem socket_stream_reads_outside:
  assumes "socket_stream_new s buf_size pb = (b, s')"
  shows "underflow b = None" "socket_fd (stream_sock b) = socket_fd s" "socket_fd s' = -1"
proof -
  have "0 < length (sbuf b)" "gptr b = length (sbuf b)" "eback b = length (sbuf b)" "egptr b = gptr b"
    using assms by (auto simp: socket_stream_new_def Let_def)
  then show "underflow b = None" by (simp add: underflow_def)
  show "socket_fd (stream_sock b) = socket_fd s" "socket_fd s' = -1"
    using assms by (auto simp: socket_stream_new_def sock_copy_def Let_def)
qed

end
