(* ===== verification/Tls.thy ===== *)
theory Tls
  imports Sockets
begin

text \<open>
  \<open>ssl_socket.cpp\<close>, \<open>gnutls_socket.cpp\<close>, \<open>openssl_socket.cpp\<close>: sockets over TLS.  The libraries are parameters: a record
  of their functions over an unknown state of the session, with what their documentation promises as a predicate on
  the record.  The locale \<open>byte_channel\<close> is the contract the TCP server relies on when it reads from a connection and
  writes to it; plain sockets and both kinds of TLS sockets meet it.  The objects with their implementation pointers are
  over an explicit heap.
\<close>

subsection \<open>GnuTLS\<close>

definition GNUTLS_E_AGAIN :: int where
  "GNUTLS_E_AGAIN = -28"

definition GNUTLS_E_INTERRUPTED :: int where
  "GNUTLS_E_INTERRUPTED = -52"

text \<open>The library: each function gets the session and returns its result and the new session.\<close>

record 's gnutls =
  gnutls_handshake :: "'s \<Rightarrow> int \<times> 's"
  gnutls_error_is_fatal :: "int \<Rightarrow> bool"
  gnutls_record_recv :: "nat \<Rightarrow> 's \<Rightarrow> int \<times> string \<times> 's"
  gnutls_record_send :: "string \<Rightarrow> 's \<Rightarrow> int \<times> 's"

record 's gnutls_impl =
  need_handshake :: bool
  session :: 's

text \<open>The handshake at the start of \<open>read\<close> and \<open>write\<close>: a value to return at once, or nothing.\<close>

definition gnutls_ready :: "'s gnutls \<Rightarrow> 's gnutls_impl \<Rightarrow> int option \<times> 's gnutls_impl" where
  "gnutls_ready lib k =
     (if \<not> need_handshake k then (None, k)
      else let (ret, s) = gnutls_handshake lib (session k); k = k\<lparr>session := s\<rparr>
           in if ret < 0 then (Some (if gnutls_error_is_fatal lib ret then io_error else data_not_ready), k)
              else (None, k\<lparr>need_handshake := False\<rparr>))"

definition gnutls_result :: "int \<Rightarrow> int" where
  "gnutls_result nsize =
     (if nsize = GNUTLS_E_AGAIN \<or> nsize = GNUTLS_E_INTERRUPTED then data_not_ready
      else if 0 \<le> nsize then nsize else io_error)"

definition gnutls_read :: "'s gnutls \<Rightarrow> nat \<Rightarrow> 's gnutls_impl \<Rightarrow> int \<times> string \<times> 's gnutls_impl" where
  "gnutls_read lib bytes_to_read k =
     (case gnutls_ready lib k of
        (Some r, k) \<Rightarrow> (r, [], k)
      | (None, k) \<Rightarrow> let (nsize, buffer, s) = gnutls_record_recv lib bytes_to_read (session k)
                    in (gnutls_result nsize, buffer, k\<lparr>session := s\<rparr>))"

definition gnutls_write :: "'s gnutls \<Rightarrow> string \<Rightarrow> 's gnutls_impl \<Rightarrow> int \<times> 's gnutls_impl" where
  "gnutls_write lib buffer k =
     (case gnutls_ready lib k of
        (Some r, k) \<Rightarrow> (r, k)
      | (None, k) \<Rightarrow> let (nsize, s) = gnutls_record_send lib buffer (session k)
                    in (gnutls_result nsize, k\<lparr>session := s\<rparr>))"

subsection \<open>OpenSSL\<close>

definition SSL_ERROR_WANT_READ :: int where
  "SSL_ERROR_WANT_READ = 2"

definition SSL_ERROR_WANT_WRITE :: int where
  "SSL_ERROR_WANT_WRITE = 3"

record 's openssl =
  SSL_read :: "nat \<Rightarrow> 's \<Rightarrow> int \<times> string \<times> 's"
  SSL_write :: "string \<Rightarrow> 's \<Rightarrow> int \<times> 's"
  SSL_get_error :: "'s \<Rightarrow> int \<Rightarrow> int"

definition openssl_result :: "int \<Rightarrow> int \<Rightarrow> int \<Rightarrow> int" where
  "openssl_result want err nsize =
     (if nsize < 0 \<and> err = want then data_not_ready else if 0 \<le> nsize then nsize else io_error)"

definition openssl_read :: "'s openssl \<Rightarrow> nat \<Rightarrow> 's \<Rightarrow> int \<times> string \<times> 's" where
  "openssl_read lib bytes_to_read ssl =
     (let (nsize, buffer, ssl) = SSL_read lib bytes_to_read ssl
      in (openssl_result SSL_ERROR_WANT_READ (SSL_get_error lib ssl nsize) nsize, buffer, ssl))"

definition openssl_write :: "'s openssl \<Rightarrow> string \<Rightarrow> 's \<Rightarrow> int \<times> 's" where
  "openssl_write lib buffer ssl =
     (let (nsize, ssl) = SSL_write lib buffer ssl
      in (openssl_result SSL_ERROR_WANT_WRITE (SSL_get_error lib ssl nsize) nsize, ssl))"

text \<open>\<open>load_certificates\<close> of OpenSSL, with the results of the four calls.\<close>

record ssl_calls =
  load_verify_locations :: "string \<Rightarrow> int"
  use_certificate_file :: "string \<Rightarrow> int"
  use_PrivateKey_file :: "string \<Rightarrow> int"
  check_private_key :: "string \<Rightarrow> string \<Rightarrow> int"

definition openssl_load_certificates :: "ssl_calls \<Rightarrow> string \<Rightarrow> string \<Rightarrow> string \<Rightarrow> string \<Rightarrow> string + unit" where
  "openssl_load_certificates lib ca cert key crl =
     (if ca \<noteq> [] \<and> load_verify_locations lib ca \<noteq> 0 then Inl ''invalid CA certificate''
      else if cert = [] \<or> use_certificate_file lib cert \<le> 0 then Inl ''can't load certificate file''
      else if key = [] \<or> use_PrivateKey_file lib key \<le> 0 then Inl ''can't load private key file''
      else if check_private_key lib cert key = 0 then Inl ''private key is invalid''
      else Inr ())"

section \<open>Channels of bytes\<close>

text \<open>The contract.  \<open>incoming\<close> is what the peer sent and was not read, \<open>outgoing\<close> what was accepted for the peer, and
  \<open>unfinished\<close> a write that has to be repeated with the same bytes.\<close>

locale byte_channel =
  fixes rd :: "nat \<Rightarrow> 'c \<Rightarrow> int \<times> string \<times> 'c"
    and wr :: "string \<Rightarrow> 'c \<Rightarrow> int \<times> 'c"
    and usable :: "'c \<Rightarrow> bool"
    and incoming :: "'c \<Rightarrow> string"
    and outgoing :: "'c \<Rightarrow> string"
    and unfinished :: "'c \<Rightarrow> string option"
  assumes rd: "\<lbrakk>usable c; rd n c = (r, d, c')\<rbrakk> \<Longrightarrow>
      usable c' \<and> outgoing c' = outgoing c \<and> unfinished c' = unfinished c \<and> incoming c = d @ incoming c' \<and> length d \<le> n \<and>
      (if 0 \<le> r then r = int (length d) else d = [] \<and> r \<in> {data_not_ready, io_error})"
    and wr: "\<lbrakk>usable c; d \<noteq> []; unfinished c \<in> {None, Some d}; wr d c = (r, c')\<rbrakk> \<Longrightarrow>
      usable c' \<and> incoming c' = incoming c \<and>
      (if 0 < r then r \<le> int (length d) \<and> outgoing c' = outgoing c @ take (nat r) d \<and> unfinished c' = None
       else r \<in> {0, data_not_ready, io_error} \<and> outgoing c' = outgoing c \<and> unfinished c' \<in> {None, Some d})"

text \<open>What the TCP server does with a connection: it reads at most so many bytes, or it calls \<open>connection_write\<close> with the
  bytes that were not yet sent.\<close>

datatype event = Input nat | Output

definition answer :: "int \<Rightarrow> nat sys_result" where
  "answer r = (if 0 \<le> r then Transferred (nat r) else Sys_Error (r = data_not_ready))"

definition unsent :: "tcp_request \<Rightarrow> string" where
  "unsent rq = ss_rest (write_buffer rq)"

definition writes_now :: "tcp_request \<Rightarrow> bool" where
  "writes_now rq = (ss_good (write_buffer rq) \<and> unsent rq \<noteq> [])"

definition put_out :: "(string \<Rightarrow> 'c \<Rightarrow> int \<times> 'c) \<Rightarrow> tcp_request \<times> 'c \<Rightarrow> tcp_request \<times> 'c" where
  "put_out wr st =
     (let (rq, c) = st
      in (connection_write (\<lambda>d. answer (fst (wr d c))) rq, if writes_now rq then snd (wr (unsent rq) c) else c))"

fun converse_on ::
  "(nat \<Rightarrow> 'c \<Rightarrow> int \<times> string \<times> 'c) \<Rightarrow> (string \<Rightarrow> 'c \<Rightarrow> int \<times> 'c) \<Rightarrow> event list \<Rightarrow> tcp_request \<times> 'c \<Rightarrow> string \<times> tcp_request \<times> 'c" where
  "converse_on rd wr [] st = ([], st)"
| "converse_on rd wr (Input n # es) st =
     (let (r, d, c) = rd n (snd st); (got, st) = converse_on rd wr es (fst st, c) in (d @ got, st))"
| "converse_on rd wr (Output # es) st = converse_on rd wr es (put_out wr st)"

lemma socket_write_answer:
  "r \<in> {data_not_ready, io_error} \<or> 0 \<le> r \<Longrightarrow> socket_write (answer r) = r"
  by (auto simp: socket_write_def answer_def data_not_ready_def io_error_def)

lemma io_codes [simp]: "data_not_ready = -1" "io_error = -2"
  by (simp_all add: data_not_ready_def io_error_def)

text \<open>What \<open>connection_write\<close> does to a buffer in order, whatever the connection answers.\<close>

lemma connection_write_idle:
  "\<not> writes_now rq \<Longrightarrow> ss_ok (write_buffer rq) \<Longrightarrow>
     unsent (connection_write f rq) = unsent rq \<and> ss_ok (write_buffer (connection_write f rq)) \<and> \<not> writes_now (connection_write f rq)"
proof -
  assume i: "\<not> writes_now rq" and ok: "ss_ok (write_buffer rq)"
  let ?s = "write_buffer rq"
  show ?thesis
  proof (cases "ss_good ?s")
    case True
    then have g: "ss_get ?s = length (ss_str ?s)" using i ok by (simp add: writes_now_def unsent_def ss_rest_def ss_ok_def)
    have t: "ss_tellg ?s = (int (ss_get ?s), ?s)" using True by (simp add: ss_tellg_def ss_sentry_def ss_failed_def ss_good_def Let_def)
    have e: "ss_seekg_end ?s = ?s" using True g by (simp add: ss_seekg_end_def ss_seekg_def ss_sentry_def ss_failed_def ss_good_def Let_def)
    have "\<not> ss_eof ?s" using True by (simp add: ss_good_def)
    then have "connection_write f rq = rq\<lparr>write_buffer := ?s\<lparr>ss_eof := True\<rparr>\<rparr>" by (simp add: connection_write_def t e)
    then show ?thesis using ok by (simp add: unsent_def ss_rest_def writes_now_def ss_good_def)
  next
    case False
    have t: "ss_tellg ?s = (- 1, ?s\<lparr>ss_fail := True\<rparr>)" using False by (simp add: ss_tellg_def ss_sentry_def ss_failed_def)
    have e: "ss_tellg (ss_seekg_end (?s\<lparr>ss_fail := True\<rparr>)) = (- 1, ?s\<lparr>ss_fail := True, ss_eof := False\<rparr>)"
      by (simp add: ss_tellg_def ss_seekg_end_def ss_seekg_def ss_sentry_def ss_failed_def ss_good_def)
    have "connection_write f rq = (if ss_eof ?s then rq else rq\<lparr>write_buffer := ?s\<lparr>ss_fail := True, ss_eof := True\<rparr>\<rparr>)"
      by (simp add: connection_write_def t e)
    then show ?thesis using ok False by (simp add: unsent_def ss_rest_def writes_now_def ss_good_def ss_ok_def)
  qed
qed

lemma connection_write_active:
  assumes "writes_now rq" "ss_ok (write_buffer rq)" "socket_write (f (unsent rq)) = r"
    and "r \<le> int (length (unsent rq))"
  shows "unsent (connection_write f rq) = (if 0 < r then drop (nat r) (unsent rq) else unsent rq)"
    "ss_ok (write_buffer (connection_write f rq))"
proof -
  let ?s = "write_buffer rq"
  have s: "ss_good ?s" "ss_get ?s < length (ss_str ?s)" using assms(1) by (auto simp: writes_now_def unsent_def ss_rest_def)
  then have f: "\<not> ss_eof ?s" "\<not> ss_fail ?s" "\<not> ss_bad ?s" by (auto simp: ss_good_def)
  have t: "ss_tellg ?s = (int (ss_get ?s), ?s)" using f s(1) by (simp add: ss_tellg_def ss_sentry_def ss_failed_def Let_def)
  let ?e = "?s\<lparr>ss_get := length (ss_str ?s)\<rparr>"
  have e: "ss_tellg (ss_seekg_end ?s) = (int (length (ss_str ?s)), ?e)"
    using f by (simp add: ss_tellg_def ss_seekg_end_def ss_seekg_def ss_sentry_def ss_failed_def ss_good_def Let_def)
  have b: "ss_seekg (int (ss_get ?s)) ?e = ?s"
    using f s(2) by (simp add: ss_seekg_def ss_sentry_def ss_failed_def ss_good_def Let_def)
  have n: "nat (int (length (ss_str ?s)) - int (ss_get ?s)) = length (unsent rq)" by (simp add: unsent_def ss_rest_def nat_diff_distrib)
  have r: "ss_read (length (unsent rq)) ?s = (unsent rq, ?e)"
    using f s by (simp add: ss_read_def unsent_def ss_rest_def Let_def)
  have w: "write_buffer (connection_write f rq) =
     (if r = io_error then ?s\<lparr>ss_bad := True\<rparr>
      else if r > 0 then (if int (length (ss_str ?s)) - int (ss_get ?s) = r then ss_reset ?s else ss_seekg (int (ss_get ?s) + r) (ss_clear ?s))
      else ?s)"
    using f(1) s(2) by (simp add: connection_write_def t e b n r assms(3) Let_def)
  have l: "int (ss_get ?s) + r \<le> int (length (ss_str ?s))" using assms(4) s(2) by (simp add: unsent_def ss_rest_def)
  show "unsent (connection_write f rq) = (if 0 < r then drop (nat r) (unsent rq) else unsent rq)"
    using l unfolding unsent_def w
    by (auto simp: ss_rest_def ss_reset_def ss_seekg_def ss_clear_def ss_sentry_def ss_failed_def ss_good_def Let_def nat_add_distrib add.commute)
  show "ss_ok (write_buffer (connection_write f rq))" using assms(2) unfolding w by simp
qed

context byte_channel
begin

definition in_order :: "tcp_request \<Rightarrow> 'c \<Rightarrow> bool" where
  "in_order rq c = (usable c \<and> ss_ok (write_buffer rq) \<and> unfinished c \<in> {None, Some (unsent rq)})"

lemma put_out_in_order:
  assumes "in_order rq c" "put_out wr (rq, c) = (rq', c')"
  shows "in_order rq' c'" "incoming c' = incoming c" "outgoing c' @ unsent rq' = outgoing c @ unsent rq"
proof -
  have i: "usable c" "ss_ok (write_buffer rq)" "unfinished c \<in> {None, Some (unsent rq)}" using assms(1) by (auto simp: in_order_def)
  have "in_order rq' c' \<and> incoming c' = incoming c \<and> outgoing c' @ unsent rq' = outgoing c @ unsent rq"
  proof (cases "writes_now rq")
    case False
    then have "c' = c" "rq' = connection_write (\<lambda>d. answer (fst (wr d c))) rq" using assms(2) by (auto simp: put_out_def)
    then show ?thesis using connection_write_idle [OF False i(2)] i by (auto simp: in_order_def)
  next
    case True
    obtain r where r: "wr (unsent rq) c = (r, c')" using True assms(2) by (cases "wr (unsent rq) c") (auto simp: put_out_def)
    have "unsent rq \<noteq> []" using True by (simp add: writes_now_def)
    note w = wr [OF i(1) this i(3) r]
    then have s: "socket_write (answer (fst (wr (unsent rq) c))) = r" "r \<le> int (length (unsent rq))"
      using r by (auto simp: socket_write_def answer_def split: if_splits)
    from connection_write_active [of rq "\<lambda>d. answer (fst (wr d c))", OF True i(2) s]
    show ?thesis using w assms(2) by (auto simp: put_out_def in_order_def split: if_splits)
  qed
  then show "in_order rq' c'" "incoming c' = incoming c" "outgoing c' @ unsent rq' = outgoing c @ unsent rq" by auto
qed

lemma converse_in_order:
  "in_order rq c \<Longrightarrow> converse_on rd wr es (rq, c) = (got, rq', c') \<Longrightarrow>
     in_order rq' c' \<and> incoming c = got @ incoming c' \<and> outgoing c' @ unsent rq' = outgoing c @ unsent rq"
proof (induction es arbitrary: rq c got)
  case (Cons e es)
  show ?case
  proof (cases e)
    case (Input n)
    obtain r d c1 where r: "rd n c = (r, d, c1)" by (cases "rd n c")
    moreover obtain g where g: "converse_on rd wr es (rq, c1) = (g, rq', c')" "got = d @ g"
      using Cons.prems(2) Input r by (auto split: prod.splits)
    moreover have "in_order rq c1" "incoming c = d @ incoming c1" "outgoing c1 = outgoing c"
      using rd [OF _ r] Cons.prems(1) by (auto simp: in_order_def)
    ultimately show ?thesis using Cons.IH [of rq c1 g] by simp
  next
    case Output
    obtain rq1 c1 where p: "put_out wr (rq, c) = (rq1, c1)" by fastforce
    then show ?thesis using Cons.IH [of rq1 c1 got] Cons.prems Output put_out_in_order [OF Cons.prems(1) p] by simp
  qed
qed simp

lemma put_out_progress:
  assumes "in_order rq c" "writes_now rq" "put_out wr (rq, c) = (rq', c')" "0 < fst (wr (unsent rq) c)"
  shows "length (unsent rq') < length (unsent rq)"
proof -
  obtain r where r: "wr (unsent rq) c = (r, c')" using assms(2,3) by (cases "wr (unsent rq) c") (auto simp: put_out_def)
  have i: "usable c" "ss_ok (write_buffer rq)" "unfinished c \<in> {None, Some (unsent rq)}" "unsent rq \<noteq> []"
    using assms(1,2) by (auto simp: in_order_def writes_now_def)
  have "0 < r" using assms(4) r by simp
  moreover have "socket_write (answer (fst (wr (unsent rq) c))) = r" "r \<le> int (length (unsent rq))"
    using wr [OF i(1,4,3) r] r \<open>0 < r\<close> by (auto simp: socket_write_def answer_def)
  ultimately show ?thesis using connection_write_active(1) [of rq "\<lambda>d. answer (fst (wr d c))" r, OF assms(2) i(2)] assms(3) i(4)
    by (auto simp: put_out_def)
qed

end

subsection \<open>Plain sockets\<close>

text \<open>A connected socket: the bytes in both directions, and what the next calls of \<open>recv\<close> and \<open>send\<close> do at most.\<close>

record pipe =
  pipe_in :: string
  pipe_out :: string
  recvs :: "nat sys_result list"
  sends :: "nat sys_result list"

fun at_most :: "nat \<Rightarrow> nat sys_result \<Rightarrow> nat sys_result" where
  "at_most n (Transferred k) = Transferred (min k n)"
| "at_most n (Sys_Error e) = Sys_Error e"

fun bytes_from :: "string \<Rightarrow> nat sys_result \<Rightarrow> string sys_result" where
  "bytes_from d (Transferred k) = Transferred (take k d)"
| "bytes_from d (Sys_Error e) = Sys_Error e"

definition plain_read :: "nat \<Rightarrow> pipe \<Rightarrow> int \<times> string \<times> pipe" where
  "plain_read n p = (case recvs p of
     [] \<Rightarrow> (data_not_ready, [], p)
   | r # rs \<Rightarrow> let (size, d) = socket_read (bytes_from (pipe_in p) (at_most n r))
               in (size, d, p\<lparr>recvs := rs, pipe_in := drop (length d) (pipe_in p)\<rparr>))"

definition plain_write :: "string \<Rightarrow> pipe \<Rightarrow> int \<times> pipe" where
  "plain_write d p = (case sends p of
     [] \<Rightarrow> (data_not_ready, p)
   | r # rs \<Rightarrow> let size = socket_write (at_most (length d) r)
               in (size, p\<lparr>sends := rs, pipe_out := pipe_out p @ take (nat size) d\<rparr>))"

interpretation plain: byte_channel plain_read plain_write "\<lambda>_. True" pipe_in pipe_out "\<lambda>_. None"
proof (unfold_locales, goal_cases)
  case (1 c n r d c')
  then show ?case by (cases "recvs c"; cases "hd (recvs c)") (auto simp: plain_read_def socket_read_def Let_def min_def split: if_splits)
next
  case (2 c d r c')
  show ?case
  proof (cases "sends c")
    case (Cons x rs)
    show ?thesis
    proof (cases x)
      case (Transferred k)
      then show ?thesis using 2(4) Cons by (auto simp: plain_write_def socket_write_def Let_def)
    next
      case (Sys_Error e)
      then show ?thesis using 2(4) Cons by (cases e) (auto simp: plain_write_def socket_write_def)
    qed
  qed (use 2(4) in \<open>simp add: plain_write_def\<close>)
qed

subsection \<open>TLS sockets\<close>

text \<open>What the documentation of GnuTLS says of a session.  Records are sent and received only after a handshake that
  succeeded; a send that reports \<open>GNUTLS_E_AGAIN\<close> or \<open>GNUTLS_E_INTERRUPTED\<close> must be repeated with the same bytes.\<close>

definition gnutls_documented ::
  "'s gnutls \<Rightarrow> ('s \<Rightarrow> bool) \<Rightarrow> ('s \<Rightarrow> string) \<Rightarrow> ('s \<Rightarrow> string) \<Rightarrow> ('s \<Rightarrow> string option) \<Rightarrow> bool" where
  "gnutls_documented lib established incoming outgoing unfinished \<longleftrightarrow>
     (\<forall>s r s'. gnutls_handshake lib s = (r, s') \<longrightarrow>
        incoming s' = incoming s \<and> outgoing s' = outgoing s \<and> unfinished s' = unfinished s \<and> (0 \<le> r \<longrightarrow> established s')) \<and>
     (\<forall>s n r d s'. established s \<longrightarrow> gnutls_record_recv lib n s = (r, d, s') \<longrightarrow>
        established s' \<and> outgoing s' = outgoing s \<and> unfinished s' = unfinished s \<and> incoming s = d @ incoming s' \<and> length d \<le> n \<and>
        (if 0 \<le> r then r = int (length d) else d = [])) \<and>
     (\<forall>s d r s'. established s \<longrightarrow> d \<noteq> [] \<longrightarrow> unfinished s \<in> {None, Some d} \<longrightarrow> gnutls_record_send lib d s = (r, s') \<longrightarrow>
        established s' \<and> incoming s' = incoming s \<and>
        (if 0 < r then r \<le> int (length d) \<and> outgoing s' = outgoing s @ take (nat r) d \<and> unfinished s' = None
         else outgoing s' = outgoing s \<and> unfinished s' \<in> {None, Some d}))"

definition openssl_documented ::
  "'s openssl \<Rightarrow> ('s \<Rightarrow> string) \<Rightarrow> ('s \<Rightarrow> string) \<Rightarrow> ('s \<Rightarrow> string option) \<Rightarrow> bool" where
  "openssl_documented lib incoming outgoing unfinished \<longleftrightarrow>
     (\<forall>s n r d s'. SSL_read lib n s = (r, d, s') \<longrightarrow>
        outgoing s' = outgoing s \<and> unfinished s' = unfinished s \<and> incoming s = d @ incoming s' \<and> length d \<le> n \<and>
        (if 0 \<le> r then r = int (length d) else d = [])) \<and>
     (\<forall>s d r s'. d \<noteq> [] \<longrightarrow> unfinished s \<in> {None, Some d} \<longrightarrow> SSL_write lib d s = (r, s') \<longrightarrow>
        incoming s' = incoming s \<and>
        (if 0 < r then r \<le> int (length d) \<and> outgoing s' = outgoing s @ take (nat r) d \<and> unfinished s' = None
         else outgoing s' = outgoing s \<and> unfinished s' \<in> {None, Some d}))"

text \<open>After the handshake the session is established; otherwise nothing has happened to the data.\<close>

lemma gnutls_ready_cases:
  assumes "gnutls_documented lib est inc out unf" "\<not> need_handshake k \<longrightarrow> est (session k)" "gnutls_ready lib k = (r, k1)"
  shows "\<not> need_handshake k1 \<longrightarrow> est (session k1)" "r = None \<longleftrightarrow> \<not> need_handshake k1" "need_handshake k1 \<longrightarrow> need_handshake k"
    "inc (session k1) = inc (session k)" "out (session k1) = out (session k)" "unf (session k1) = unf (session k)"
    "r \<noteq> None \<Longrightarrow> the r \<in> {data_not_ready, io_error}"
proof -
  obtain ret s where h: "gnutls_handshake lib (session k) = (ret, s)" by fastforce
  have "inc s = inc (session k) \<and> out s = out (session k) \<and> unf s = unf (session k) \<and> (0 \<le> ret \<longrightarrow> est s)"
    using assms(1) h unfolding gnutls_documented_def by blast
  then show "\<not> need_handshake k1 \<longrightarrow> est (session k1)" "r = None \<longleftrightarrow> \<not> need_handshake k1" "need_handshake k1 \<longrightarrow> need_handshake k"
    "inc (session k1) = inc (session k)" "out (session k1) = out (session k)" "unf (session k1) = unf (session k)"
    "r \<noteq> None \<Longrightarrow> the r \<in> {data_not_ready, io_error}"
    using assms(2,3) h by (auto simp: gnutls_ready_def Let_def split: if_splits)
qed

lemma gnutls_channel:
  assumes doc: "gnutls_documented lib est inc out unf"
  shows "byte_channel (gnutls_read lib) (gnutls_write lib) (\<lambda>k. \<not> need_handshake k \<longrightarrow> est (session k))
    (\<lambda>k. inc (session k)) (\<lambda>k. out (session k)) (\<lambda>k. unf (session k))"
proof (unfold_locales, goal_cases)
  case (1 k n r d k')
  obtain o1 k1 where g: "gnutls_ready lib k = (o1, k1)" by fastforce
  note q = gnutls_ready_cases [OF doc 1(1) g]
  show ?case
  proof (cases o1)
    case (Some e)
    then show ?thesis using 1(2) q g by (auto simp: gnutls_read_def)
  next
    case None
    obtain r1 d1 s where rr: "gnutls_record_recv lib n (session k1) = (r1, d1, s)" by (metis prod_cases3)
    have "est (session k1)" using q(1,2) None by simp
    then have "est s \<and> out s = out (session k1) \<and> unf s = unf (session k1) \<and> inc (session k1) = d1 @ inc s \<and> length d1 \<le> n \<and>
        (if 0 \<le> r1 then r1 = int (length d1) else d1 = [])"
      using doc rr unfolding gnutls_documented_def by blast
    then show ?thesis using 1(2) q(4-6) g None rr
      by (auto simp: gnutls_read_def gnutls_result_def GNUTLS_E_AGAIN_def GNUTLS_E_INTERRUPTED_def split: if_splits)
  qed
next
  case (2 k d r k')
  obtain o1 k1 where g: "gnutls_ready lib k = (o1, k1)" by fastforce
  note q = gnutls_ready_cases [OF doc 2(1) g]
  show ?case
  proof (cases o1)
    case (Some e)
    then show ?thesis using 2 q g by (auto simp: gnutls_write_def)
  next
    case None
    obtain r1 s where rr: "gnutls_record_send lib d (session k1) = (r1, s)" by fastforce
    have "est (session k1)" "unf (session k1) \<in> {None, Some d}" using q(1,2,6) 2(3) None by simp_all
    then have "est s \<and> inc s = inc (session k1) \<and>
        (if 0 < r1 then r1 \<le> int (length d) \<and> out s = out (session k1) @ take (nat r1) d \<and> unf s = None
         else out s = out (session k1) \<and> unf s \<in> {None, Some d})"
      using doc rr 2(2) unfolding gnutls_documented_def by blast
    then show ?thesis using 2(4) q(4-6) g None rr
      by (auto simp: gnutls_write_def gnutls_result_def GNUTLS_E_AGAIN_def GNUTLS_E_INTERRUPTED_def split: if_splits)
  qed
qed

lemma openssl_channel:
  assumes doc: "openssl_documented lib inc out unf"
  shows "byte_channel (openssl_read lib) (openssl_write lib) (\<lambda>_. True) inc out unf"
proof (unfold_locales, goal_cases)
  case (1 s n r d s')
  obtain r1 d1 s1 where rr: "SSL_read lib n s = (r1, d1, s1)" by (metis prod_cases3)
  then have "out s1 = out s \<and> unf s1 = unf s \<and> inc s = d1 @ inc s1 \<and> length d1 \<le> n \<and> (if 0 \<le> r1 then r1 = int (length d1) else d1 = [])"
    using doc unfolding openssl_documented_def by blast
  then show ?case using 1(2) rr by (auto simp: openssl_read_def openssl_result_def split: if_splits)
next
  case (2 s d r s')
  obtain r1 s1 where rr: "SSL_write lib d s = (r1, s1)" by fastforce
  then have "inc s1 = inc s \<and>
      (if 0 < r1 then r1 \<le> int (length d) \<and> out s1 = out s @ take (nat r1) d \<and> unf s1 = None
       else out s1 = out s \<and> unf s1 \<in> {None, Some d})"
    using doc 2(2,3) unfolding openssl_documented_def by blast
  then show ?case using 2(4) rr by (auto simp: openssl_write_def openssl_result_def split: if_splits)
qed

lemmas gnutls_in_order = byte_channel.converse_in_order [OF gnutls_channel]
lemmas openssl_in_order = byte_channel.converse_in_order [OF openssl_channel]

text \<open>Before the handshake has succeeded nothing is read and nothing is sent.\<close>

lemma gnutls_pending:
  assumes doc: "gnutls_documented lib est inc out unf"
  shows "gnutls_read lib n k = (r, d, k') \<Longrightarrow> need_handshake k' \<Longrightarrow> need_handshake k \<and> d = [] \<and> out (session k') = out (session k)"
    "gnutls_write lib d k = (r, k') \<Longrightarrow> need_handshake k' \<Longrightarrow> need_handshake k \<and> out (session k') = out (session k)"
proof -
  obtain ret s where h: "gnutls_handshake lib (session k) = (ret, s)" by fastforce
  then have "out s = out (session k)" using doc unfolding gnutls_documented_def by blast
  then show "gnutls_read lib n k = (r, d, k') \<Longrightarrow> need_handshake k' \<Longrightarrow> need_handshake k \<and> d = [] \<and> out (session k') = out (session k)"
    "gnutls_write lib d k = (r, k') \<Longrightarrow> need_handshake k' \<Longrightarrow> need_handshake k \<and> out (session k') = out (session k)"
    using h by (auto simp: gnutls_read_def gnutls_write_def gnutls_ready_def Let_def split: if_splits prod.splits)
qed

lemma no_data_before_handshake:
  assumes doc: "gnutls_documented lib est inc out unf"
    and "converse_on (gnutls_read lib) (gnutls_write lib) es (rq, k) = (got, rq', k')" "need_handshake k'"
  shows "need_handshake k \<and> got = [] \<and> out (session k') = out (session k)"
  using assms(2)
proof (induction es arbitrary: rq k got)
  case (Cons e es)
  show ?case
  proof (cases e)
    case (Input n)
    obtain r d k1 where r: "gnutls_read lib n k = (r, d, k1)" by (metis prod_cases3)
    then obtain g where "converse_on (gnutls_read lib) (gnutls_write lib) es (rq, k1) = (g, rq', k')" "got = d @ g"
      using Cons.prems Input by (auto split: prod.splits)
    then show ?thesis using Cons.IH gnutls_pending(1) [OF doc r] by fastforce
  next
    case Output
    obtain rq1 k1 where p: "put_out (gnutls_write lib) (rq, k) = (rq1, k1)" by fastforce
    then have "need_handshake k1 \<and> got = [] \<and> out (session k') = out (session k1)" using Cons Output by simp
    moreover from this have "need_handshake k \<and> out (session k1) = out (session k)"
      using p gnutls_pending(2) [OF doc, of "unsent rq" k] by (cases "gnutls_write lib (unsent rq) k") (auto simp: put_out_def split: if_splits)
    ultimately show ?thesis by simp
  qed
qed (use assms(3) in simp)


text \<open>A library that takes two calls for the handshake, receives what there is and sends three bytes at a time.\<close>

record slow =
  slow_calls :: nat
  slow_in :: string
  slow_out :: string

definition slow_lib :: "slow gnutls" where
  "slow_lib = \<lparr>gnutls_handshake = \<lambda>s. (if slow_calls s = 0 then GNUTLS_E_AGAIN else 0, s\<lparr>slow_calls := Suc (slow_calls s)\<rparr>),
     gnutls_error_is_fatal = \<lambda>e. e \<noteq> GNUTLS_E_AGAIN,
     gnutls_record_recv = \<lambda>n s. (int (min n (length (slow_in s))), take n (slow_in s), s\<lparr>slow_in := drop n (slow_in s)\<rparr>),
     gnutls_record_send = \<lambda>d s. (int (min 3 (length d)), s\<lparr>slow_out := slow_out s @ take 3 d\<rparr>)\<rparr>"

lemma slow_lib_documented: "gnutls_documented slow_lib (\<lambda>s. 2 \<le> slow_calls s) slow_in slow_out (\<lambda>_. None)"
  by (auto simp: gnutls_documented_def slow_lib_def GNUTLS_E_AGAIN_def nat_minus_as_int min_def split: if_splits)


text \<open>The same for OpenSSL, whose handshake is inside of \<open>SSL_read\<close> and \<open>SSL_write\<close>.\<close>

theorem openssl_connection_in_order:
  assumes "openssl_documented lib inc out unf" "unf s = None" "ss_ok (write_buffer rq)"
    and "converse_on (openssl_read lib) (openssl_write lib) es (rq, s) = (got, rq', s')"
  shows "inc s = got @ inc s'" "out s' @ unsent rq' = out s @ unsent rq"
proof -
  note c = openssl_channel [OF assms(1)]
  have "byte_channel.in_order (\<lambda>_. True) unf rq s" using assms(2,3) by (simp add: byte_channel.in_order_def [OF c])
  from openssl_in_order [OF assms(1) this assms(4)]
  show "inc s = got @ inc s'" "out s' @ unsent rq' = out s @ unsent rq" by auto
qed

text \<open>A read that has to wait until the socket can be written, as in a handshake, is taken for an error of the connection,
  which the TCP server closes.\<close>

theorem want_write_closes_connection:
  assumes "SSL_read lib n s = (-1, [], s')" "SSL_get_error lib s' (-1) = SSL_ERROR_WANT_WRITE"
  shows "fst (openssl_read lib n s) = io_error"
    "cur_state (fst (snd (connection_read (Some f) (Sys_Error (fst (openssl_read lib n s) = data_not_ready)) rq h))) = CLOSING"
  using assms by (simp_all add: openssl_read_def openssl_result_def SSL_ERROR_WANT_WRITE_def SSL_ERROR_WANT_READ_def
      connection_read_def socket_read_def)

text \<open>A CA certificate that is loaded is refused; without one, certificates and keys that fit are accepted.\<close>

theorem ca_certificate_refused:
  "ca \<noteq> [] \<Longrightarrow> load_verify_locations lib ca = 1 \<Longrightarrow> openssl_load_certificates lib ca cert key crl = Inl ''invalid CA certificate''"
  by (simp add: openssl_load_certificates_def)

theorem certificates_loaded:
  "openssl_load_certificates lib ca cert key crl = Inr () \<longleftrightarrow>
     (ca \<noteq> [] \<longrightarrow> load_verify_locations lib ca = 0) \<and> cert \<noteq> [] \<and> 0 < use_certificate_file lib cert \<and>
     key \<noteq> [] \<and> 0 < use_PrivateKey_file lib key \<and> check_private_key lib cert key \<noteq> 0"
  by (auto simp: openssl_load_certificates_def)

text \<open>When a handler appends output to a write that has to be repeated, it is repeated with other bytes, which the
  libraries do not allow.\<close>

theorem appended_output_changes_retry:
  assumes "ss_ok (write_buffer rq)" "ss_good (write_buffer rq)" "xs \<noteq> []"
  shows "unsent (rq\<lparr>write_buffer := ss_write xs (write_buffer rq)\<rparr>) = unsent rq @ xs"
    "unsent (rq\<lparr>write_buffer := ss_write xs (write_buffer rq)\<rparr>) \<noteq> unsent rq"
  using assms by (simp_all add: unsent_def ss_rest_def ss_write_good ss_ok_def)

section \<open>Objects\<close>

text \<open>\<open>ssl_socket\<close> owns an implementation object, which owns a session of the library and the descriptor.\<close>

record impl =
  impl_sock :: sock
  impl_session :: nat

record ssl_obj =
  base_sock :: sock
  pimpl :: nat

record ssl_heap =
  ssl_objs :: "nat \<Rightarrow> ssl_obj option"
  impls :: "nat \<Rightarrow> impl option"
  sessions :: "nat set"
  ssl_kern :: kernel

datatype ssl_outcome = Well ssl_heap | Ends | Broken

text \<open>\<open>ssl_socket_impl::ssl_socket_impl (const socket &)\<close>: the descriptor moves into the new object at \<open>p\<close>, which gets the new
  session \<open>i\<close>.\<close>

definition impl_new :: "nat \<Rightarrow> nat \<Rightarrow> sock \<Rightarrow> ssl_heap \<Rightarrow> sock \<times> ssl_heap" where
  "impl_new p i src H =
     (snd (sock_copy src), H\<lparr>impls := (impls H)(p \<mapsto> \<lparr>impl_sock = fst (sock_copy src), impl_session = i\<rparr>), sessions := insert i (sessions H)\<rparr>)"

text \<open>Its destructor, with that of the base class.\<close>

definition impl_delete :: "os \<Rightarrow> nat \<Rightarrow> ssl_heap \<Rightarrow> ssl_outcome" where
  "impl_delete a p H = (case impls H p of
     None \<Rightarrow> Broken
   | Some m \<Rightarrow>
       if impl_session m \<notin> sessions H then Broken
       else case sock_delete a (impl_sock m) (ssl_kern H) of
              Closed K \<Rightarrow> Well (H\<lparr>impls := (impls H)(p := None), sessions := sessions H - {impl_session m}, ssl_kern := K\<rparr>)
            | Terminates \<Rightarrow> Ends
            | Closed_Twice \<Rightarrow> Broken)"

text \<open>\<open>ssl_socket::ssl_socket (const socket &)\<close>: the object and what is left of the source.\<close>

definition ssl_new :: "nat \<Rightarrow> nat \<Rightarrow> nat \<Rightarrow> sock \<Rightarrow> ssl_heap \<Rightarrow> sock \<times> ssl_heap" where
  "ssl_new x p i src H =
     (let (b, src) = sock_copy src; (b, H) = impl_new p i b H
      in (src, H\<lparr>ssl_objs := (ssl_objs H)(x \<mapsto> \<lparr>base_sock = b, pimpl = p\<rparr>)\<rparr>))"

text \<open>The implicit copy constructor copies the pointer.\<close>

definition ssl_copy :: "nat \<Rightarrow> nat \<Rightarrow> ssl_heap \<Rightarrow> ssl_outcome" where
  "ssl_copy x y H = (case ssl_objs H y of
     None \<Rightarrow> Broken
   | Some k \<Rightarrow> Well (H\<lparr>ssl_objs := (ssl_objs H)(y \<mapsto> k\<lparr>base_sock := snd (sock_copy (base_sock k))\<rparr>,
                                       x \<mapsto> k\<lparr>base_sock := fst (sock_copy (base_sock k))\<rparr>)\<rparr>))"

definition after_delete :: "(ssl_heap \<Rightarrow> ssl_outcome) \<Rightarrow> ssl_outcome \<Rightarrow> ssl_outcome" where
  "after_delete f r = (case r of Well H \<Rightarrow> f H | _ \<Rightarrow> r)"

text \<open>\<open>operator=\<close>: the new implementation is an implicit copy, with the descriptor and the same session.\<close>

definition ssl_assign :: "os \<Rightarrow> nat \<Rightarrow> nat \<Rightarrow> nat \<Rightarrow> ssl_heap \<Rightarrow> ssl_outcome" where
  "ssl_assign a p x y H = (case (ssl_objs H x, ssl_objs H y) of
     (Some k, Some j) \<Rightarrow> after_delete (\<lambda>H. case impls H (pimpl j) of
         None \<Rightarrow> Broken
       | Some m \<Rightarrow> Well (H\<lparr>impls := (impls H)(pimpl j \<mapsto> m\<lparr>impl_sock := snd (sock_copy (impl_sock m))\<rparr>,
                                            p \<mapsto> m\<lparr>impl_sock := fst (sock_copy (impl_sock m))\<rparr>),
                            ssl_objs := (ssl_objs H)(x \<mapsto> k\<lparr>pimpl := p\<rparr>)\<rparr>)) (impl_delete a (pimpl k) H)
   | _ \<Rightarrow> Broken)"

definition ssl_delete :: "os \<Rightarrow> nat \<Rightarrow> ssl_heap \<Rightarrow> ssl_outcome" where
  "ssl_delete a x H = (case ssl_objs H x of
     None \<Rightarrow> Broken
   | Some k \<Rightarrow> after_delete (\<lambda>H. case sock_delete a (base_sock k) (ssl_kern H) of
         Closed K \<Rightarrow> Well (H\<lparr>ssl_objs := (ssl_objs H)(x := None), ssl_kern := K\<rparr>)
       | Terminates \<Rightarrow> Ends
       | Closed_Twice \<Rightarrow> Broken) (impl_delete a (pimpl k) H))"

definition ssl_handle :: "nat \<Rightarrow> ssl_heap \<Rightarrow> int option" where
  "ssl_handle x H = (case ssl_objs H x of None \<Rightarrow> None | Some k \<Rightarrow> map_option (\<lambda>m. socket_fd (impl_sock m)) (impls H (pimpl k)))"

text \<open>A TLS socket takes over the descriptor of the socket it is made from, which is left without one; deleting it closes
  the descriptor, frees the session and leaves everything else as it was.\<close>

theorem ssl_socket_life:
  assumes "ssl_objs H x = None" "impls H p = None" "i \<notin> sessions H" "0 \<le> socket_fd src" "socket_fd src \<in> open_fds (ssl_kern H)"
    and "os_setfl a" "ssl_new x p i src H = (src', H')"
  shows "ssl_handle x H' = Some (socket_fd src)" "socket_fd src' = -1"
    "\<exists>K. ssl_delete a x H' = Well (H\<lparr>ssl_kern := K\<rparr>) \<and> open_fds K = open_fds (ssl_kern H) - {socket_fd src}"
proof -
  have n: "src' = src\<lparr>socket_fd := -1\<rparr>" "H' = H\<lparr>impls := (impls H)(p \<mapsto> \<lparr>impl_sock = src, impl_session = i\<rparr>), sessions := insert i (sessions H),
      ssl_objs := (ssl_objs H)(x \<mapsto> \<lparr>base_sock = src\<lparr>socket_fd := -1\<rparr>, pimpl = p\<rparr>)\<rparr>"
    using assms(7) by (auto simp: ssl_new_def impl_new_def sock_copy_def)
  then show "ssl_handle x H' = Some (socket_fd src)" "socket_fd src' = -1" by (simp_all add: ssl_handle_def)
  have m: "(impls H)(p := None) = impls H" "(ssl_objs H)(x := None) = ssl_objs H" using assms(1,2) by (simp_all add: fun_upd_idem)
  show "\<exists>K. ssl_delete a x H' = Well (H\<lparr>ssl_kern := K\<rparr>) \<and> open_fds K = open_fds (ssl_kern H) - {socket_fd src}"
    using assms(3-6) n(2) m by (auto simp: ssl_delete_def impl_delete_def after_delete_def sock_delete_def set_blocked_fd_def close_fd_def)
qed

text \<open>After an assignment both objects have the same session: deleting both frees it twice.  The same holds of the
  implementation after a copy.\<close>

theorem assigned_session_freed_twice:
  assumes "ssl_objs H x = Some k" "ssl_objs H y = Some j" "x \<noteq> y" "p \<noteq> pimpl j" "ssl_assign a p x y H = Well H1" "ssl_delete b x H1 = Well H2"
  shows "ssl_delete c y H2 = Broken"
  using assms by (auto simp: ssl_assign_def ssl_delete_def after_delete_def impl_delete_def
      split: ssl_outcome.splits option.splits if_splits close_result.splits)

theorem copied_implementation_freed_twice:
  assumes "ssl_objs H y = Some j" "x \<noteq> y" "ssl_copy x y H = Well H1" "ssl_delete b x H1 = Well H2"
  shows "ssl_delete c y H2 = Broken"
  using assms by (auto simp: ssl_copy_def ssl_delete_def after_delete_def impl_delete_def
      split: ssl_outcome.splits option.splits if_splits close_result.splits)

end
