(* ===== verification/Spec2Isabelle.thy ===== *)
theory Spec2Isabelle
  imports Strutils App_Config Query Url Base64 Md5 Uuid Locmap Strptime Datetime Http_Content Http_Server Delegate Pool
    Web_App Filesystem Mime_Types Process Singleton Any Strtod Locks Daemon Windows Events Tls
begin

text \<open>
  A verification of libdcl, the dbPager Classes Library: a C++ library of string and URL utilities, codecs,
  dates, configuration files, HTTP messages, a TCP and an HTTP server, web applications, database queries,
  delegates, object pools and other utilities.  The sources are under
  \<open>src/include/dcl\<close> and \<open>src/src/dcl\<close>; below they are named without that prefix.

  \<^bold>\<open>How the parts interact.\<close>  The TCP server accepts connections, keeps a pair of string streams for each, and
  calls a handler, a delegate, whenever data arrives.  The HTTP server is such a handler: it builds a request
  from the stream by the rules of the header classes, calls the function that answers, and writes the
  response to the output stream.  Header values are read with the string utilities, cookies with the date
  parser, which on Windows is the bundled \<open>strptime\<close>; form bodies are parsed by a parser from the object
  factory, with the percent coding of the URL class.  Web applications behind
  another server (CGI, Apache, ISAPI) build the same requests and print the same responses.  Base64, MD5, UUIDs, the locale table for Windows and the
  object pool are used by applications directly.

  \<^bold>\<open>Theories.\<close>
  \<^item> \<open>Prelude\<close>: the operations of \<open>std::string\<close> and the C library that the code uses, with the widths of
    the LP64 ABI, and the lemmas about searching, splitting and decimal digits that all components share.
  \<^item> \<open>Streams\<close>: a byte stream with its end-of-file flag, and \<open>std::stringstream\<close> with its two positions and
    three flags.
  \<^item> \<open>Ordered_Map\<close>: \<open>std::map\<close> as a list sorted by a comparison function, with the locale
    \<open>strict_weak_order\<close>, interpreted for the orders of header names, pool keys and delegates.
  \<^item> \<open>Strutils\<close> (\<open>strutils.h\<close>, \<open>strutils.cpp\<close>): trimming, comparison without case, both forms of
    \<open>tokenize\<close>, \<open>format\<close>, conversions.  Tokenizing is splitting and trimming, \<open>format\<close> fills its template.
  \<^item> \<open>App_Config\<close> (\<open>app_config.h\<close>, \<open>app_config.cpp\<close>): the configuration file over a file system that is a
    parameter.  A printed configuration is loaded back; a file that includes itself is loaded for ever.
  \<^item> \<open>Query\<close> (\<open>connection.h\<close>, \<open>connection.cpp\<close>, \<open>query.h\<close>, \<open>query.cpp\<close>): connections, statements with their
    parameters, rows and columns over an ODBC driver that is a parameter.  A chain of \<open><<\<close> with flushes refines
    one execution per row, the parser of statements finds the parameters, and a column is read to its end.
  \<^item> \<open>Codec\<close> (\<open>codec.h\<close>): the contract of a codec as the locales \<open>partial_codec\<close> and
    \<open>total_codec\<close>, interpreted for base64, percent coding, UUID text and method names.
  \<^item> \<open>Url\<close> (\<open>url.h\<close>, \<open>url.cpp\<close>): parsing, printing, percent coding, normalization.  A well-formed URL survives
    printing and parsing; normalization resolves the components of a path.
  \<^item> \<open>Base64\<close> (\<open>codec_base64.cpp\<close>), \<open>Uuid\<close> (\<open>uuid.cpp\<close>): round trips, the shape of the encoding, the order.
  \<^item> \<open>Md5\<close> (\<open>encoder_md5.cpp\<close>): the routines refine the algorithm of RFC 1321, stated as a loop over rotating
    registers, on hosts of either byte order and for messages that come in any pieces.
  \<^item> \<open>Locmap_Table\<close>, \<open>Locmap\<close> (\<open>win32/locmap.c\<close>): the table of locale identifiers and the searches in it.
  \<^item> \<open>Strptime\<close> (\<open>win32/strptime.h\<close>), \<open>Calendar\<close>, \<open>Datetime\<close> (\<open>datetime.h\<close>, \<open>datetime.cpp\<close>): parsing of dates,
    the proleptic Gregorian calendar behind \<open>gmtime\<close> and \<open>mktime\<close>, and the date class.
  \<^item> \<open>Http_Types\<close>, \<open>Http_Header\<close> (\<open>http_header.h\<close>, \<open>http_header.cpp\<close>): methods and status codes, cookies, the
    header map, the content buffer, requests and responses.
  \<^item> \<open>Factory\<close> (\<open>factory.h\<close>, \<open>factory.cpp\<close>), \<open>Http_Content\<close> (\<open>http_content_parser.cpp\<close>): the registry of constructors
    with its contract as the locale \<open>class_registry\<close>, and the parsers of message bodies.
  \<^item> \<open>Tcp_Server\<close> (\<open>tcp_server.h\<close>, \<open>tcp_server.cpp\<close>, parts of \<open>socket.cpp\<close>): the loops of the input and output
    thread as functions on the list of connections, and the threads as the step relation \<open>tcp_step\<close>.  Every
    open connection has one owner, the work queue can always be emptied, and a handler with the contract
    \<open>stream_handler\<close> keeps all buffers well-formed.
  \<^item> \<open>Sockets\<close> (\<open>socket.h\<close>, \<open>socket.cpp\<close>, \<open>socket_stream.cpp\<close>, \<open>tcp_server::start\<close>): the life of socket objects over the set of open descriptors.
    Every object has its own descriptor, and which operations lose one is stated exactly.
  \<^item> \<open>Tls\<close> (\<open>ssl_socket.cpp\<close>, \<open>gnutls_socket.cpp\<close>, \<open>openssl_socket.cpp\<close>): the contract of a connection as the locale
    \<open>byte_channel\<close>, interpreted for plain sockets and shown for TLS sockets over libraries that behave as documented: the
    server loses, repeats and reorders no byte.  Copies of TLS sockets are freed twice.
  \<^item> \<open>Http_Server\<close> (\<open>http_server.h\<close>, \<open>http_server.cpp\<close>): the request state machine, interpreted as a
    \<open>stream_handler\<close>.  It returns for every buffer shorter than 2 GiB, answers a request whose head is in the
    buffer, and is not disturbed by input cut inside a line; input cut after a line is answered too early.
  \<^item> \<open>Delegate\<close> (\<open>delegate.h\<close>): binding, copying, comparing and calling.
  \<^item> \<open>Pool\<close> (\<open>pool.h\<close>): the pool and its smart pointer, and the interleavings of its clients as a step relation.
  \<^item> \<open>Web_App\<close> (\<open>web_application.h\<close>, \<open>cgi_application.cpp\<close>, \<open>apache_application.cpp\<close>, \<open>isapi_application.cpp\<close>): from the
    interface of a web server to a request, and from a response back.  A CGI process sees the request its server
    describes and reports failures; Apache loses cookies and exceptions.
  \<^item> \<open>Filesystem\<close> (\<open>filesystem.h\<close> and both \<open>filefs_impl.cpp\<close>): the iterator over found files, with the contract of a
    search as the locale \<open>file_search\<close>.  The POSIX search is an interpretation; the one for Windows misses the last file.
  \<^item> \<open>Mime_Types\<close> (\<open>mimetype.cpp\<close>): the table of MIME types, loaded from files and looked up by extension.
  \<^item> \<open>Process\<close> (\<open>posix/process_impl.cpp\<close>): the command line and the streams of a program.
  \<^item> \<open>Singleton\<close> (\<open>singleton.h\<close>): double-checked creation as a step relation; there is one instance.
  \<^item> \<open>Locks\<close> (\<open>mutex_impl.cpp\<close>, \<open>win32/rwlock_impl.cpp\<close>): mutexes of both systems, with the contract of \<open>try_enter\<close> as the
    locale \<open>try_lock\<close>, which the one for pthread does not meet, and the lock for readers and writers as a step relation:
    a writer is alone, and waiting threads do not block each other.
  \<^item> \<open>Application\<close> (\<open>cmdline_parameters.cpp\<close>, \<open>application.cpp\<close>), \<open>Daemon\<close> (both \<open>daemon_application.cpp\<close>): the command line and
    the help page, the execution of an application, the log of a daemon, and the status reports of a service.
  \<^item> \<open>Plugin\<close> (\<open>plugin.cpp\<close>, \<open>posix/plugin_impl.cpp\<close>): loading a library and calling its functions; a library that is
    loaded is closed again, but function pointers survive their library.
  \<^item> \<open>Events\<close> (\<open>event_impl.cpp\<close>, \<open>semaphore_impl.cpp\<close>, \<open>thread_impl.cpp\<close> of both systems, \<open>posix/rwlock_impl.cpp\<close>, the workers of
    \<open>tcp_server.cpp\<close>): the contract of an event as the locale \<open>condition\<close>, under which no worker misses a request or the end of
    the server.  POSIX meets it, Windows does not, and a server that is stopped can hang there.  Semaphores of both systems are
    interpretations of \<open>counting_semaphore\<close>.
  \<^item> \<open>Windows\<close> (\<open>process_impl.cpp\<close>, \<open>plugin_impl.cpp\<close>, \<open>daemon_application.cpp\<close> under \<open>win32\<close>): the streams and the exit code of a
    program, libraries that are loaded again, and the installation of services.
  \<^item> \<open>Any\<close> (\<open>any.h\<close>): the container of any value over an explicit heap; its operations are memory safe.
  \<^item> \<open>Strtod\<close> (\<open>my_strtod\<close> of \<open>strutils.cpp\<close>): text to \<open>double\<close> over a model of IEEE 754 binary64.  In exact arithmetic it
    computes the number, and integers of up to 53 bits are exact in any case.

  \<^bold>\<open>Modelling.\<close>  Classes are records, enumerations are datatypes, member functions are functions on the record
  with the changed object in the result.  Exceptions, early returns and undefined reads are values of an
  option, a sum, or a datatype of the component.  A loop that ends is a recursive function with its measure;
  the loops of \<open>encoder_md5::encode\<close>, \<open>http_server::process_data\<close> and \<open>query::get_field\<close>, those over found files, over
  the command line and over growing buffers for \<open>getcwd\<close>, and the recursion of \<open>app_config::do_load\<close> can run forever and are partial
  functions into the option type, so that not returning is \<^const>\<open>None\<close>.  There is no fuel.  Uninitialised memory is a
  parameter.  Threads are steps; a step is what a thread does while it holds the lock.

  \<^bold>\<open>Parameters.\<close>  \<open>getservbyname\<close>, \<open>gethostbyname\<close>, the clock, the offset of local time, random numbers, the
  results of \<open>recv\<close>, \<open>send\<close> and \<open>select\<close>, the file system, \<open>glob\<close>, \<open>FindFirstFile\<close> and \<open>getcwd\<close>, the calls of the ODBC driver manager,
  the interfaces of the web servers, \<open>getopt_long\<close>, the TLS libraries, the program a process runs, the rounding of floating-point operations, and the
  functions users assign to the servers.  Of the operating system
  the step relation assumes that a new descriptor is not one that is still open, and that \<open>select\<close> reports only
  descriptors it was asked about.

  \<^bold>\<open>Bounds.\<close>  Sizes that the code converts to \<open>int\<close> are kept below \<open>2 ^ 31\<close> where a property needs the conversion
  to be exact, pieces of a message for MD5 below \<open>2 ^ 32\<close> as its \<open>unsigned\<close> length demands, and a declared content
  length below \<open>2 ^ 63\<close>.

  \<^bold>\<open>Not modelled.\<close>  The TCP client, whose body is commented out;
  \<open>shared_ptr.h\<close>, which only chooses a class of the library, and the atomic counters, one instruction of the compiler or the system
  each; translation (\<open>gettext\<close>) and widgets (GTK), which are calls of those libraries; the set-up of the ODBC environment, of the
  TLS libraries and of Winsock; \<open>daemon ()\<close> and stopping and pausing threads, single calls of the system.  Of the string
  utilities the locale-dependent conversions, and of the delegates the workarounds for other compilers and the repetition of
  the same class for each number of arguments, are left out.
\<close>

end
